(* ===== verification/Ep2_Prelude.thy ===== *)
theory Ep2_Prelude
  imports Main "HOL-Library.Char_ord" "HOL-Library.List_Lexorder"
begin

text \<open>
  Shared vocabulary of the development: the outcome type of code that may abort, the
  character-class functions of \<^verbatim>\<open><ctype.h>\<close> the front end calls, the signed reading of a
  \<^verbatim>\<open>char\<close>, the conversion of a decimal literal to a double as \<^verbatim>\<open>strtod\<close> performs it, and
  the generic lemmas the component theories use.

  The front end runs on targets where \<^verbatim>\<open>char\<close> is signed and eight bits wide, so a byte
  above 127 is a negative \<^verbatim>\<open>int\<close> once it is widened.
\<close>

named_theorems ctype_simps \<open>the character classes, unfolded\<close>
named_theorems safe_intros \<open>introduction rules of the outcome calculus\<close>

section \<open>Outcomes\<close>

text \<open>
  Why a run can stop short of returning: a failed \<^verbatim>\<open>assert\<close>, a null pointer dereference,
  a floating-to-integer conversion out of range, an \<^verbatim>\<open>llvm_unreachable\<close>, or, in the model
  only, loop fuel that ran out.
\<close>

datatype crash = AssertFail | NullDeref | BadConversion | Unreachable | OutOfFuel

text \<open>
  \<open>Ok a s\<close> is a normal return of \<open>a\<close> in state \<open>s\<close> (a returned null pointer is
  \<open>a = None\<close>: the caller goes on from \<open>s\<close>); \<open>Crash c\<close> is a run that never
  comes back to its caller.
\<close>

datatype ('a, 's) outcome = Ok 'a 's | Crash crash

fun thenP :: "('a, 's) outcome \<Rightarrow> ('a \<Rightarrow> 's \<Rightarrow> ('b, 's) outcome) \<Rightarrow> ('b, 's) outcome" where
  "thenP (Ok a s) f = f a s"
| "thenP (Crash c) f = Crash c"

lemma thenP_cong [fundef_cong]:
  "m = m' \<Longrightarrow> (\<And>a s. m' = Ok a s \<Longrightarrow> f a s = g a s) \<Longrightarrow> thenP m f = thenP m' g"
  by (cases m') auto

lemma thenP_Ok_iff: "thenP m f = Ok b t \<longleftrightarrow> (\<exists>a s. m = Ok a s \<and> f a s = Ok b t)"
  by (cases m) auto

lemma thenP_Crash_iff:
  "thenP m f = Crash c \<longleftrightarrow> m = Crash c \<or> (\<exists>a s. m = Ok a s \<and> f a s = Crash c)"
  by (cases m) auto

text \<open>
  \<open>safe m Q\<close>: the run does not exhaust its fuel, and if it returns it does so in a state
  that satisfies \<open>Q\<close>. It is the weakest-precondition reading the termination proofs of
  the parser are written in.
\<close>

definition safe :: "('a, 's) outcome \<Rightarrow> ('a \<Rightarrow> 's \<Rightarrow> bool) \<Rightarrow> bool" where
  "safe m Q \<longleftrightarrow> (case m of Ok a s \<Rightarrow> Q a s | Crash c \<Rightarrow> c \<noteq> OutOfFuel)"

lemma safe_Ok [simp]: "safe (Ok a s) Q = Q a s"
  by (simp add: safe_def)

lemma safe_Crash [simp]: "safe (Crash c) Q = (c \<noteq> OutOfFuel)"
  by (simp add: safe_def)

lemma safe_thenP [simp]: "safe (thenP m f) Q = safe m (\<lambda>a s. safe (f a s) Q)"
  by (cases m) auto

lemma safe_mono: "safe m P \<Longrightarrow> (\<And>a s. P a s \<Longrightarrow> Q a s) \<Longrightarrow> safe m Q"
  by (cases m) auto

section \<open>Character classes\<close>

text \<open>The argument of the \<^verbatim>\<open>is*\<close> functions is an \<^verbatim>\<open>int\<close>: a widened character or \<^verbatim>\<open>EOF\<close>.\<close>

definition EOF :: int where "EOF = -1"

definition isspace :: "int \<Rightarrow> bool" where
  [ctype_simps]: "isspace c \<longleftrightarrow> (9 \<le> c \<and> c \<le> 13) \<or> c = 32"

definition isdigit :: "int \<Rightarrow> bool" where
  [ctype_simps]: "isdigit c \<longleftrightarrow> 48 \<le> c \<and> c \<le> 57"

definition isalpha :: "int \<Rightarrow> bool" where
  [ctype_simps]: "isalpha c \<longleftrightarrow> (65 \<le> c \<and> c \<le> 90) \<or> (97 \<le> c \<and> c \<le> 122)"

definition isalnum :: "int \<Rightarrow> bool" where
  [ctype_simps]: "isalnum c \<longleftrightarrow> isalpha c \<or> isdigit c"

definition signed_char :: "char \<Rightarrow> int" where
  "signed_char c = (let n = of_char c in if n < 128 then n else n - 256)"

definition to_char :: "int \<Rightarrow> char" where
  "to_char i = char_of i"

lemma to_char_signed_char [simp]: "to_char (signed_char c) = c"
proof -
  have "char_of ((of_char c :: int) - 256) = (char_of ((of_char c - 256) mod 256 :: int) :: char)"
    by (rule char_of_mod_256 [symmetric])
  also have "\<dots> = char_of ((of_char c :: int) mod 256)"
    by (simp only: minus_mod_self2)
  also have "\<dots> = c"
    by (simp only: of_char_mod_256 char_of_char)
  finally show ?thesis
    by (simp add: to_char_def signed_char_def Let_def)
qed

lemma signed_char_bounds: "- 128 \<le> signed_char c" "signed_char c < 128"
proof -
  have "(of_char c :: int) \<in> {0..<256}"
    by (metis atLeastLessThan_iff of_char_mod_256 pos_mod_bound pos_mod_sign zero_less_numeral)
  then show "- 128 \<le> signed_char c" "signed_char c < 128"
    by (auto simp: signed_char_def Let_def)
qed

lemma signed_char_inject [simp]: "signed_char c = signed_char d \<longleftrightarrow> c = d"
  by (metis to_char_signed_char)

section \<open>Decimal literals as doubles\<close>

text \<open>
  A finite non-negative double is \<open>m * 2 ^ e\<close>, kept as the pair \<open>(m, e)\<close>. The
  exponent range of the format is not modelled: a literal would need more than 308 digits
  to leave it.
\<close>

type_synonym dbl = "int \<times> int"

function bit_length :: "int \<Rightarrow> int" where
  "bit_length n = (if n \<le> 0 then 0 else 1 + bit_length (n div 2))"
  by pat_completeness auto
termination
  by (relation "measure nat") auto

declare bit_length.simps [simp del]

text \<open>\<open>n / d\<close> rounded to the nearest integer, ties to even.\<close>

definition div_round_even :: "int \<Rightarrow> int \<Rightarrow> int" where
  "div_round_even n d =
     (let q = n div d; r = n mod d in
      if 2 * r < d then q else if d < 2 * r then q + 1 else if even q then q else q + 1)"

definition scale_num :: "int \<Rightarrow> int \<Rightarrow> int" where
  "scale_num n e = (if e \<le> 0 then n * 2 ^ nat (- e) else n)"

definition scale_den :: "int \<Rightarrow> int \<Rightarrow> int" where
  "scale_den d e = (if e \<le> 0 then d else d * 2 ^ nat e)"

text \<open>The double nearest to \<open>n / d\<close>: a significand of at most 53 bits.\<close>

definition dbl_of_ratio :: "int \<Rightarrow> int \<Rightarrow> dbl" where
  "dbl_of_ratio n d =
     (if n = 0 then (0, 0)
      else let e0 = bit_length n - bit_length d - 53;
               e = (if 2 ^ 53 \<le> scale_num n e0 div scale_den d e0 then e0 + 1 else e0)
           in (div_round_even (scale_num n e) (scale_den d e), e))"

text \<open>Conversion of a double to an integer type truncates.\<close>

fun dbl_trunc :: "dbl \<Rightarrow> int" where
  "dbl_trunc (m, e) = (if 0 \<le> e then m * 2 ^ nat e else m div 2 ^ nat (- e))"

definition digit_val :: "char \<Rightarrow> int" where
  "digit_val c = signed_char c - 48"

definition digits_val :: "string \<Rightarrow> int" where
  "digits_val ds = foldl (\<lambda>v c. 10 * v + digit_val c) 0 ds"

text \<open>
  \<^verbatim>\<open>strtod\<close> on a lexeme of digits and dots: it reads the longest prefix of the form
  digits, or digits dot digits, and ignores the rest.
\<close>

definition is_digit_char :: "char \<Rightarrow> bool" where
  "is_digit_char c = isdigit (signed_char c)"

definition strtod :: "string \<Rightarrow> dbl" where
  "strtod s =
     (let ip = takeWhile is_digit_char s;
          rest = dropWhile is_digit_char s;
          fp = (case rest of [] \<Rightarrow> [] | c # cs \<Rightarrow> if c = CHR ''.'' then takeWhile is_digit_char cs else [])
      in dbl_of_ratio (digits_val (ip @ fp)) (10 ^ length fp))"

section \<open>Ordered maps\<close>

text \<open>
  \<^verbatim>\<open>std::map\<close>, kept as the list of its entries in key order, which is the order the code iterates
  in.
\<close>

type_synonym ('k, 'v) omap = "('k \<times> 'v) list"

type_synonym 'v smap = "(string, 'v) omap"

fun insert_or_assign :: "'k::linorder \<Rightarrow> 'v \<Rightarrow> ('k, 'v) omap \<Rightarrow> ('k, 'v) omap" where
  "insert_or_assign k v [] = [(k, v)]"
| "insert_or_assign k v ((k', v') # m) =
     (if k = k' then (k, v) # m
      else if k < k' then (k, v) # (k', v') # m
      else (k', v') # insert_or_assign k v m)"

definition smap_inv :: "('k::linorder, 'v) omap \<Rightarrow> bool" where
  "smap_inv m \<longleftrightarrow> sorted_wrt (<) (map fst m)"

lemma map_of_insert_or_assign:
  "map_of (insert_or_assign k v m) = (map_of m)(k \<mapsto> v)"
  by (induction m) (auto simp: fun_eq_iff)

lemma keys_insert_or_assign: "fst ` set (insert_or_assign k v m) = insert k (fst ` set m)"
  by (simp add: map_of_insert_or_assign flip: dom_map_of_conv_image_fst)

lemma smap_inv_insert_or_assign: "smap_inv m \<Longrightarrow> smap_inv (insert_or_assign k v m)"
proof (induction m)
  case (Cons p m)
  have "\<forall>x \<in> fst ` set (insert_or_assign k v m). fst p < x" if "fst p < k"
    using that Cons.prems by (auto simp: keys_insert_or_assign smap_inv_def)
  with Cons show ?case
    by (cases p) (auto simp: smap_inv_def)
qed (simp add: smap_inv_def)

lemma smap_inv_distinct: "smap_inv m \<Longrightarrow> distinct (map fst m)"
  by (simp add: smap_inv_def strict_sorted_iff)

section \<open>The first index with a property\<close>

lemma find_upt_least: "find P [0..<n] = Some i \<longleftrightarrow> i < n \<and> P i \<and> (\<forall>j < i. \<not> P j)"
  by (auto simp: find_Some_iff nth_upt)

lemma find_upt_None: "find P [0..<n] = None \<longleftrightarrow> (\<forall>i < n. \<not> P i)"
  by (auto simp: find_None_iff)

end
