(* ===== verification/Ep2_Lexer.thy ===== *)
theory Ep2_Lexer
  imports Ep2_Prelude
begin

text \<open>
  The lexer of the ep2 language (\<^verbatim>\<open>include/ep2/lang/Lexer.h\<close>): the class \<^verbatim>\<open>Lexer\<close> with the
  line buffering of its subclass \<^verbatim>\<open>LexerBuffer\<close>. The mutable object is the record \<open>lexer\<close>
  below, passed through every operation. Tokens are the integers of the enumeration
  \<^verbatim>\<open>Token\<close>: the code casts characters to tokens and back, so the model keeps the numbers.
\<close>

section \<open>Tokens and state\<close>

type_synonym token = int

abbreviation (input) tok_semicolon :: token where "tok_semicolon \<equiv> 59"
abbreviation (input) tok_parenthese_open :: token where "tok_parenthese_open \<equiv> 40"
abbreviation (input) tok_parenthese_close :: token where "tok_parenthese_close \<equiv> 41"
abbreviation (input) tok_bracket_open :: token where "tok_bracket_open \<equiv> 123"
abbreviation (input) tok_bracket_close :: token where "tok_bracket_close \<equiv> 125"
abbreviation (input) tok_angle_bracket_open :: token where "tok_angle_bracket_open \<equiv> 60"
abbreviation (input) tok_angle_bracket_close :: token where "tok_angle_bracket_close \<equiv> 62"
abbreviation (input) tok_sbracket_open :: token where "tok_sbracket_open \<equiv> 91"
abbreviation (input) tok_sbracket_close :: token where "tok_sbracket_close \<equiv> 93"
abbreviation (input) tok_colon :: token where "tok_colon \<equiv> 58"
abbreviation (input) tok_dot :: token where "tok_dot \<equiv> 46"
abbreviation (input) tok_eq :: token where "tok_eq \<equiv> 61"
abbreviation (input) tok_comma :: token where "tok_comma \<equiv> 44"
abbreviation (input) tok_plus :: token where "tok_plus \<equiv> 43"
abbreviation (input) tok_minus :: token where "tok_minus \<equiv> 45"
abbreviation (input) tok_star :: token where "tok_star \<equiv> 42"
abbreviation (input) tok_slash :: token where "tok_slash \<equiv> 47"

abbreviation (input) tok_eof :: token where "tok_eof \<equiv> -1"
abbreviation (input) tok_return :: token where "tok_return \<equiv> -2"
abbreviation (input) tok_var :: token where "tok_var \<equiv> -3"
abbreviation (input) tok_def :: token where "tok_def \<equiv> -4"
abbreviation (input) tok_struct :: token where "tok_struct \<equiv> -5"
abbreviation (input) tok_event :: token where "tok_event \<equiv> -6"
abbreviation (input) tok_handler :: token where "tok_handler \<equiv> -7"
abbreviation (input) tok_controller :: token where "tok_controller \<equiv> -8"
abbreviation (input) tok_generate :: token where "tok_generate \<equiv> -9"
abbreviation (input) tok_extern :: token where "tok_extern \<equiv> -10"
abbreviation (input) tok_global :: token where "tok_global \<equiv> -11"
abbreviation (input) tok_scope :: token where "tok_scope \<equiv> -12"
abbreviation (input) tok_if :: token where "tok_if \<equiv> -13"
abbreviation (input) tok_else :: token where "tok_else \<equiv> -14"
abbreviation (input) tok_cmp_eq :: token where "tok_cmp_eq \<equiv> -40"
abbreviation (input) tok_cmp_le :: token where "tok_cmp_le \<equiv> -41"
abbreviation (input) tok_cmp_ge :: token where "tok_cmp_ge \<equiv> -42"
abbreviation (input) tok_identifier :: token where "tok_identifier \<equiv> -56"
abbreviation (input) tok_number :: token where "tok_number \<equiv> -57"

record location =
  loc_file :: string
  loc_line :: nat
  loc_col :: nat

text \<open>
  What the front end writes to \<^verbatim>\<open>stderr\<close>: \<^verbatim>\<open>parseError\<close> (location, expected, context,
  current token), the message of \<^verbatim>\<open>parsePrimary\<close>, and that of \<^verbatim>\<open>checkConsume\<close>.
\<close>

datatype diag =
    ParseError location string string token
  | UnknownToken token
  | ConsumeError location token token

text \<open>
  The fields are those of \<^verbatim>\<open>Lexer\<close>; \<open>current\<close> is what \<^verbatim>\<open>LexerBuffer\<close> has not handed out
  yet (the bytes between its two pointers; the byte at \<^verbatim>\<open>end\<close> is the terminating NUL of the
  memory buffer); \<open>errs\<close> is the text written to \<^verbatim>\<open>stderr\<close> so far.
\<close>

record lexer =
  curTok :: token
  lastLocation :: location
  identifierStr :: string
  numVal :: dbl
  lastChar :: int
  curLineNum :: nat
  curCol :: nat
  curLineBuffer :: string
  current :: string
  tokens :: "(token \<times> string) list"
  errs :: "diag list"

definition LexerBuffer :: "string \<Rightarrow> string \<Rightarrow> lexer" where
  "LexerBuffer buf filename =
     \<lparr>curTok = tok_eof, lastLocation = \<lparr>loc_file = filename, loc_line = 0, loc_col = 0\<rparr>,
      identifierStr = [], numVal = (0, 0), lastChar = 32, curLineNum = 0, curCol = 0,
      curLineBuffer = [CHR 0x0A], current = buf, tokens = [], errs = []\<rparr>"

section \<open>Characters\<close>

text \<open>
  \<^verbatim>\<open>readNextLine\<close> scans to the next newline or NUL; it steps over the newline, never over
  the NUL. The result is the line handed out and what is left of the buffer.
\<close>

definition readNextLine :: "string \<Rightarrow> string \<times> string" where
  "readNextLine cur =
     (let body = takeWhile (\<lambda>c. c \<noteq> CHR 0x00 \<and> c \<noteq> CHR 0x0A) cur;
          rest = dropWhile (\<lambda>c. c \<noteq> CHR 0x00 \<and> c \<noteq> CHR 0x0A) cur
      in case rest of [] \<Rightarrow> (body, [])
         | c # cs \<Rightarrow> if c \<noteq> CHR 0x00 then (body @ [c], cs) else (body, c # cs))"

definition getNextChar :: "lexer \<Rightarrow> int \<times> lexer" where
  "getNextChar lx =
     (case curLineBuffer lx of
        [] \<Rightarrow> (EOF, lx)
      | nextchar # buf \<Rightarrow>
          let lx1 = lx\<lparr>curCol := curCol lx + 1, curLineBuffer := buf\<rparr>;
              lx2 = (if buf = [] then
                       (let (l, cur) = readNextLine (current lx1)
                        in lx1\<lparr>curLineBuffer := l, current := cur\<rparr>)
                     else lx1);
              lx3 = (if nextchar = CHR 0x0A
                     then lx2\<lparr>curLineNum := curLineNum lx2 + 1, curCol := 0\<rparr> else lx2)
          in (signed_char nextchar, lx3))"

text \<open>The assignment \<^verbatim>\<open>lastChar = Token(getNextChar())\<close>.\<close>

definition nextLastChar :: "lexer \<Rightarrow> lexer" where
  "nextLastChar lx = (let (c, lx') = getNextChar lx in lx'\<lparr>lastChar := c\<rparr>)"

definition chars_left :: "lexer \<Rightarrow> nat" where
  "chars_left lx = length (curLineBuffer lx) + length (current lx)"

text \<open>Characters not yet turned into tokens, the read-ahead character included.\<close>

definition pending :: "lexer \<Rightarrow> nat" where
  "pending lx = chars_left lx + (if lastChar lx = EOF then 0 else 1)"

lemma length_readNextLine:
  "readNextLine cur = (l, cur') \<Longrightarrow> length l + length cur' = length cur"
proof -
  assume eq: "readNextLine cur = (l, cur')"
  let ?p = "\<lambda>c. c \<noteq> CHR 0x00 \<and> c \<noteq> CHR 0x0A"
  have len: "length (takeWhile ?p cur) + length (dropWhile ?p cur) = length cur"
    by (metis length_append takeWhile_dropWhile_id)
  show ?thesis
  proof (cases "dropWhile ?p cur")
    case Nil
    with eq len show ?thesis by (auto simp: readNextLine_def)
  next
    case (Cons c cs)
    with eq len show ?thesis by (cases "c = CHR 0x00") (auto simp: readNextLine_def)
  qed
qed

lemma nextLastChar_Nil:
  "curLineBuffer lx = [] \<Longrightarrow> nextLastChar lx = lx\<lparr>lastChar := EOF\<rparr>"
  by (simp add: nextLastChar_def getNextChar_def)

lemma chars_left_nextLastChar:
  "curLineBuffer lx \<noteq> [] \<Longrightarrow> chars_left lx = Suc (chars_left (nextLastChar lx))"
  by (cases "curLineBuffer lx")
     (auto simp: nextLastChar_def getNextChar_def chars_left_def Let_def split: prod.splits
           dest: length_readNextLine)


lemma chars_left_upd [simp]:
  "chars_left (lx\<lparr>curTok := t\<rparr>) = chars_left lx"
  "chars_left (lx\<lparr>lastLocation := l\<rparr>) = chars_left lx"
  "chars_left (lx\<lparr>identifierStr := s\<rparr>) = chars_left lx"
  "chars_left (lx\<lparr>numVal := v\<rparr>) = chars_left lx"
  "chars_left (lx\<lparr>lastChar := c\<rparr>) = chars_left lx"
  "chars_left (lx\<lparr>tokens := q\<rparr>) = chars_left lx"
  "chars_left (lx\<lparr>errs := e\<rparr>) = chars_left lx"
  by (simp_all add: chars_left_def)

lemma chars_left_nextLastChar_le: "chars_left (nextLastChar lx) \<le> chars_left lx"
  using chars_left_nextLastChar [of lx]
  by (cases "curLineBuffer lx = []") (simp_all add: nextLastChar_Nil)

lemma chars_left_nextLastChar_less:
  "lastChar (nextLastChar lx) \<noteq> EOF \<Longrightarrow> chars_left (nextLastChar lx) < chars_left lx"
  using chars_left_nextLastChar [of lx]
  by (cases "curLineBuffer lx = []") (simp_all add: nextLastChar_Nil)

lemma pending_nextLastChar_less:
  "lastChar lx \<noteq> EOF \<Longrightarrow> pending (nextLastChar lx) < pending lx"
  using chars_left_nextLastChar [of lx]
  by (cases "curLineBuffer lx = []") (simp_all add: nextLastChar_Nil pending_def)

section \<open>The scanning loops\<close>

lemma isspace_not_EOF: "isspace c \<Longrightarrow> c \<noteq> EOF"
  and isdigit_not_EOF: "isdigit c \<Longrightarrow> c \<noteq> EOF"
  and isalpha_not_EOF: "isalpha c \<Longrightarrow> c \<noteq> EOF"
  and isalnum_not_EOF: "isalnum c \<Longrightarrow> c \<noteq> EOF"
  by (auto simp: ctype_simps EOF_def)

function skipWhitespace :: "lexer \<Rightarrow> lexer" where
  "skipWhitespace lx = (if isspace (lastChar lx) then skipWhitespace (nextLastChar lx) else lx)"
  by pat_completeness auto
termination
  by (relation "measure pending") (simp_all add: pending_nextLastChar_less isspace_not_EOF)

function readIdent :: "lexer \<Rightarrow> lexer" where
  "readIdent lx =
     (let lx' = nextLastChar lx in
      if isalnum (lastChar lx') \<or> lastChar lx' = 95
      then readIdent (lx'\<lparr>identifierStr := identifierStr lx' @ [to_char (lastChar lx')]\<rparr>)
      else lx')"
  by pat_completeness auto
termination
  by (relation "measure chars_left")
     (auto intro!: chars_left_nextLastChar_less simp: ctype_simps EOF_def)

function readNumber :: "lexer \<Rightarrow> string \<Rightarrow> string \<times> lexer" where
  "readNumber lx numStr =
     (let numStr' = numStr @ [to_char (lastChar lx)]; lx' = nextLastChar lx in
      if isdigit (lastChar lx') \<or> lastChar lx' = 46
      then readNumber lx' numStr' else (numStr', lx'))"
  by pat_completeness auto
termination
  by (relation "measure (\<lambda>(lx, s). chars_left lx)")
     (auto intro!: chars_left_nextLastChar_less simp: ctype_simps EOF_def)

function skipComment :: "lexer \<Rightarrow> lexer" where
  "skipComment lx =
     (let lx' = nextLastChar lx in
      if lastChar lx' \<noteq> EOF \<and> lastChar lx' \<noteq> 10 \<and> lastChar lx' \<noteq> 13 then skipComment lx' else lx')"
  by pat_completeness auto
termination
  by (relation "measure chars_left") (auto intro: chars_left_nextLastChar_less)

declare skipWhitespace.simps [simp del] readIdent.simps [simp del]
  readNumber.simps [simp del] skipComment.simps [simp del]

lemma pending_skipWhitespace: "pending (skipWhitespace lx) \<le> pending lx"
proof (induction lx rule: skipWhitespace.induct)
  case (1 lx)
  then show ?case
    using pending_nextLastChar_less [of lx] isspace_not_EOF [of "lastChar lx"]
    by (cases "isspace (lastChar lx)") (simp_all add: skipWhitespace.simps [of lx])
qed

lemma chars_left_skipComment: "chars_left (skipComment lx) \<le> chars_left lx"
proof (induction lx rule: skipComment.induct)
  case (1 lx)
  then show ?case
    using chars_left_nextLastChar_le [of lx]
    by (fastforce simp: skipComment.simps [of lx] Let_def)
qed

lemma pending_skipComment: "lastChar lx \<noteq> EOF \<Longrightarrow> pending (skipComment lx) < pending lx"
proof (cases "curLineBuffer lx = []")
  case True
  moreover assume "lastChar lx \<noteq> EOF"
  ultimately show ?thesis
    by (simp add: skipComment.simps [of lx] nextLastChar_Nil Let_def pending_def)
next
  case False
  moreover assume "lastChar lx \<noteq> EOF"
  moreover have "chars_left (skipComment lx) \<le> chars_left (nextLastChar lx)"
    by (simp add: skipComment.simps [of lx] Let_def chars_left_skipComment)
  ultimately show ?thesis
    using chars_left_nextLastChar [of lx] by (simp add: pending_def)
qed

section \<open>Tokens\<close>

definition keyword :: "string \<Rightarrow> token" where
  "keyword s =
     (if s = ''return'' then tok_return
      else if s = ''def'' then tok_def
      else if s = ''struct'' then tok_struct
      else if s = ''var'' then tok_var
      else if s = ''event'' then tok_event
      else if s = ''handler'' then tok_handler
      else if s = ''controller'' then tok_controller
      else if s = ''generate'' then tok_generate
      else if s = ''extern'' then tok_extern
      else if s = ''global'' then tok_global
      else if s = ''scope'' then tok_scope
      else if s = ''if'' then tok_if
      else if s = ''else'' then tok_else
      else tok_identifier)"

text \<open>\<^verbatim>\<open>lastLocation\<close> takes the line and column of the read-ahead character.\<close>

definition saveLocation :: "lexer \<Rightarrow> lexer" where
  "saveLocation lx =
     lx\<lparr>lastLocation := (lastLocation lx)\<lparr>loc_line := curLineNum lx, loc_col := curCol lx\<rparr>\<rparr>"

definition cmpToken :: "token \<Rightarrow> token" where
  "cmpToken t = (if t = 61 then tok_cmp_eq else if t = 60 then tok_cmp_le else tok_cmp_ge)"

definition popToken :: "lexer \<Rightarrow> token \<times> lexer" where
  "popToken lx = (fst (hd (tokens lx)), lx\<lparr>tokens := tl (tokens lx)\<rparr>)"

text \<open>
  \<^verbatim>\<open>getTokInput\<close>. After a comment the code calls \<^verbatim>\<open>getTok(false)\<close>, which scans again when
  the queue is empty.
\<close>

function getTokInput :: "lexer \<Rightarrow> token \<times> lexer" where
  "getTokInput lx0 =
     (let lx = saveLocation (skipWhitespace lx0); c = lastChar lx in
      if isalpha c then
        (let lx' = readIdent (lx\<lparr>identifierStr := [to_char c]\<rparr>)
         in (keyword (identifierStr lx'), lx'))
      else if isdigit c then
        (let (numStr, lx') = readNumber lx [] in (tok_number, lx'\<lparr>numVal := strtod numStr\<rparr>))
      else if c = 35 then
        (let lx' = skipComment lx in
         if lastChar lx' \<noteq> EOF
         then (if tokens lx' = [] then getTokInput lx' else popToken lx')
         else (tok_eof, lx'))
      else if c = EOF then (tok_eof, lx)
      else if c = 61 \<or> c = 60 \<or> c = 62 then
        (let lx' = nextLastChar lx in
         if lastChar lx' \<noteq> 61 then (c, lx') else (cmpToken c, nextLastChar lx'))
      else (c, nextLastChar lx))"
  by pat_completeness auto

lemma pending_saveLocation [simp]: "pending (saveLocation lx) = pending lx"
  by (simp add: pending_def saveLocation_def)

lemma lastChar_saveLocation [simp]: "lastChar (saveLocation lx) = lastChar lx"
  by (simp add: saveLocation_def)

termination getTokInput
proof (relation "measure pending", simp, clarsimp)
  fix lx0
  assume c: "lastChar (skipWhitespace lx0) = 35"
  then have "pending (skipComment (saveLocation (skipWhitespace lx0))) < pending (skipWhitespace lx0)"
    using pending_skipComment [of "saveLocation (skipWhitespace lx0)"] by (simp add: EOF_def)
  also have "\<dots> \<le> pending lx0" by (rule pending_skipWhitespace)
  finally show "pending (skipComment (saveLocation (skipWhitespace lx0))) < pending lx0" .
qed

declare getTokInput.simps [simp del]

definition getTok :: "bool \<Rightarrow> lexer \<Rightarrow> token \<times> lexer" where
  "getTok peek lx =
     (if tokens lx = [] then
        (let str = identifierStr lx; (tok, lx') = getTokInput lx
         in (tok, if peek then lx'\<lparr>tokens := tokens lx' @ [(tok, str)]\<rparr> else lx'))
      else (fst (hd (tokens lx)), if peek then lx else lx\<lparr>tokens := tl (tokens lx)\<rparr>))"

definition getNextToken :: "lexer \<Rightarrow> lexer" where
  "getNextToken lx = (let (tok, lx') = getTok False lx in lx'\<lparr>curTok := tok\<rparr>)"

definition peekNextToken :: "lexer \<Rightarrow> token \<times> lexer" where
  "peekNextToken lx = getTok True lx"

definition getIdentiferStr :: "lexer \<Rightarrow> string" where
  "getIdentiferStr lx = (if tokens lx = [] then identifierStr lx else snd (hd (tokens lx)))"

definition consume :: "token \<Rightarrow> lexer \<Rightarrow> (unit, lexer) outcome" where
  "consume tok lx = (if tok = curTok lx then Ok () (getNextToken lx) else Crash AssertFail)"

definition checkConsume :: "token \<Rightarrow> lexer \<Rightarrow> (unit, lexer) outcome" where
  "checkConsume tok lx =
     consume tok (if curTok lx \<noteq> tok
                  then lx\<lparr>errs := errs lx @ [ConsumeError (lastLocation lx) tok (curTok lx)]\<rparr>
                  else lx)"

definition getId :: "lexer \<Rightarrow> (string, lexer) outcome" where
  "getId lx = (if curTok lx = tok_identifier then Ok (getIdentiferStr lx) lx else Crash AssertFail)"

definition getValue :: "lexer \<Rightarrow> (dbl, lexer) outcome" where
  "getValue lx = (if curTok lx = tok_number then Ok (numVal lx) lx else Crash AssertFail)"

end
