(* ===== verification/Ep2_AST.thy ===== *)
theory Ep2_AST
  imports Ep2_Lexer
begin

text \<open>
  The syntax tree of the ep2 language (\<^verbatim>\<open>include/ep2/lang/AST.h\<close>). The class hierarchy below
  \<^verbatim>\<open>ExprAST\<close> is one datatype with a constructor per subclass; the type parameter is the
  location each node carries, so that \<open>map_expr\<close> forgets or renames locations. A
  \<^verbatim>\<open>unique_ptr\<close> child that the code may leave null is an option.
\<close>

section \<open>Types and expressions\<close>

datatype param_kind = VarTemplateParam_Integer | VarTemplateParam_Type

text \<open>
  A template parameter is an integer or a type; the type pointer of a parameter is null when
  the nested \<^verbatim>\<open>parseType\<close> failed.
\<close>

datatype var_type = VarType string "var_param list"
  and var_param = IntegerParam int | TypeParam "var_type option"

fun ty_name :: "var_type \<Rightarrow> string" where
  "ty_name (VarType n ps) = n"

fun ty_params :: "var_type \<Rightarrow> var_param list" where
  "ty_params (VarType n ps) = ps"

fun getKind :: "var_param \<Rightarrow> param_kind" where
  "getKind (IntegerParam v) = VarTemplateParam_Integer"
| "getKind (TypeParam t) = VarTemplateParam_Type"

definition checkParam :: "var_type \<Rightarrow> param_kind list \<Rightarrow> bool" where
  "checkParam t kinds \<longleftrightarrow>
     length kinds = length (ty_params t) \<and>
     (\<forall>i < length (ty_params t). getKind (ty_params t ! i) = kinds ! i)"

datatype 'l var_expr = Variable (var_loc: 'l) (var_name: string)

datatype 'l expr =
    VarDeclExpr (expr_loc: 'l) string var_type "'l expr option"
  | ReturnExpr (expr_loc: 'l) "'l expr option option"
  | NumberExpr (expr_loc: 'l) int
  | LiteralExpr (expr_loc: 'l) "'l expr list" "int list"
  | StructLiteralExpr (expr_loc: 'l) "'l expr option list"
  | AtomLiteralExpr (expr_loc: 'l) string
  | PortLiteralExpr (expr_loc: 'l) string string int
  | VarExpr (expr_loc: 'l) string
  | PathExpr (expr_loc: 'l) "'l var_expr list"
  | BinaryExpr (expr_loc: 'l) int "'l expr" "'l expr"
  | CallExpr (expr_loc: 'l) 'l "'l var_expr list" "'l expr list" "string list" "string list"
  | InitExpr (expr_loc: 'l) var_type "'l expr list"
  | IfElseExpr (expr_loc: 'l) "'l expr" "'l expr list option" "'l expr list option"

datatype expr_kind =
    Expr_VarDecl | Expr_Return | Expr_Num | Expr_Literal | Expr_StructLiteral | Expr_AtomLiteral
  | Expr_PortLiteral | Expr_Var | Expr_Path | Expr_BinOp | Expr_Call | Expr_Init | Expr_IfElse

fun expr_getKind :: "'l expr \<Rightarrow> expr_kind" where
  "expr_getKind (VarDeclExpr _ _ _ _) = Expr_VarDecl"
| "expr_getKind (ReturnExpr _ _) = Expr_Return"
| "expr_getKind (NumberExpr _ _) = Expr_Num"
| "expr_getKind (LiteralExpr _ _ _) = Expr_Literal"
| "expr_getKind (StructLiteralExpr _ _) = Expr_StructLiteral"
| "expr_getKind (AtomLiteralExpr _ _) = Expr_AtomLiteral"
| "expr_getKind (PortLiteralExpr _ _ _ _) = Expr_PortLiteral"
| "expr_getKind (VarExpr _ _) = Expr_Var"
| "expr_getKind (PathExpr _ _) = Expr_Path"
| "expr_getKind (BinaryExpr _ _ _ _) = Expr_BinOp"
| "expr_getKind (CallExpr _ _ _ _ _ _) = Expr_Call"
| "expr_getKind (InitExpr _ _ _) = Expr_Init"
| "expr_getKind (IfElseExpr _ _ _ _) = Expr_IfElse"

text \<open>
  A \<open>CallExpr\<close> has the location of the call, the location and variables of the callee's
  path, the arguments, and the two port lists that make the call a command.
\<close>

definition isCommand :: "string list \<Rightarrow> string list \<Rightarrow> bool" where
  "isCommand ins outs \<longleftrightarrow> ins \<noteq> [] \<or> outs \<noteq> []"

fun print_path :: "'l var_expr list \<Rightarrow> string" where
  "print_path [] = ''''"
| "print_path [v] = var_name v"
| "print_path (v # w # vs) = var_name v @ ''.'' @ print_path (w # vs)"

section \<open>Declarations and modules\<close>

datatype function_type = Function_Controller | Function_Handler

record 'l var_decl =
  decl_loc :: 'l
  decl_name :: string
  decl_type :: var_type
  decl_init :: "'l expr option"

record 'l prototype =
  proto_loc :: 'l
  proto_name :: string
  proto_args :: "'l var_decl list"
  proto_atom :: "string option"
  proto_type :: function_type

definition getFunctionTypeName :: "function_type \<Rightarrow> string" where
  "getFunctionTypeName ft = (if ft = Function_Controller then ''controller'' else ''handler'')"

definition getMangledName :: "'l prototype \<Rightarrow> string" where
  "getMangledName p =
     (let mangled = ''__'' @ getFunctionTypeName (proto_type p) @ ''_'' @ proto_name p
      in case proto_atom p of None \<Rightarrow> mangled | Some a \<Rightarrow> mangled @ ''_'' @ a)"

datatype attr_value = StringAttr string | BoolAttr bool | ListAttr "string list"

type_synonym attributes = "attr_value smap"

datatype 'l record_node =
    FunctionNode "'l prototype" "'l expr list"
  | StructNode bool 'l string "'l var_decl list"
  | ScopeNode 'l string "string list" string
  | GlobalNode 'l string "'l var_decl"

record 'l record_ast =
  rec_node :: "'l record_node"
  rec_attrs :: attributes

type_synonym 'l module_ast = "'l record_ast list"

end
