(* ===== verification/Ep2_IR.thy ===== *)
theory Ep2_IR
  imports Ep2_AST
begin

text \<open>
  The intermediate representation: the types, attributes and operations of the \<^verbatim>\<open>ep2\<close> dialect
  (\<^verbatim>\<open>EP2Ops.td\<close>) with the builtin operations the compiler creates, functions and modules, and the
  two checks of a body: single assignment with dominance, and the shape of its regions.
\<close>

section \<open>Types and attributes\<close>

text \<open>
  The types of \<^verbatim>\<open>EP2Ops.td\<close> with the builtin types the compiler uses. The key and value type of a
  table may be null (\<^verbatim>\<open>getVarType\<close> does not check them). The last constructor is the type
  \<^verbatim>\<open>MulOp::build\<close> gives its result.
\<close>

datatype ty =
    IntegerType int
  | AnyType
  | StructType bool "ty list" string
  | BufferType
  | TableType "ty option" "ty option" int
  | AtomType
  | ContextType
  | ContextRefType ty
  | PortType bool bool
  | OpaqueType string
  | NoneType
  | UnrankedTensorType

datatype attr =
    IntAttr int
  | StrAttr string
  | BooleanAttr bool
  | PortAttr string string int
  | ScopeAttr "string list" string
  | StrArrayAttr "string list"
  | ArrayAttr "attr list"

section \<open>Operations\<close>

type_synonym val = nat

text \<open>The kind of an operation, with its attributes.\<close>

datatype opkind =
    BitCastOp
  | ConstantOp attr
  | AddOp | SubOp | MulOp
  | CmpOp int
  | BitSetOp int | BitGetOp int
  | CallOp string
  | ContextRefOp string
  | ExtractOp | EmitOp
  | LookupOp | UpdateOp
  | LoadOp | StoreOp | NopOp
  | GlobalImportOp string
  | GlobalRef string
  | InitOp
  | StructAccessOp nat | StructUpdateOp nat
  | StructConstantOp attr
  | ConnectOp string nat "attr list"
  | ReturnOp | TerminateOp
  | IfOp | YieldOp

text \<open>
  An operation has operands, results and regions; a region here is one block without
  arguments. \<open>GlobalRef\<close> is the kind recorded for the result of a module-level global, not an
  operation of a function body.
\<close>

datatype op = Op (op_kind: opkind) (op_operands: "val list") (op_results: "val list") (op_regions: "op list list")

record func_op =
  fn_name :: string
  fn_attrs :: "attr smap"
  fn_private :: bool
  fn_args :: "val list"
  fn_body :: "op list"

record global_op =
  gl_name :: string
  gl_attrs :: "attr smap"
  gl_value :: val

datatype module_op = FuncM func_op | GlobalM global_op

text \<open>All operations of a body in the order \<^verbatim>\<open>walk\<close> visits them (children before parents).\<close>

fun walk_op :: "op \<Rightarrow> op list"
  and walk_ops :: "op list \<Rightarrow> op list"
  and walk_regions :: "op list list \<Rightarrow> op list" where
  "walk_op (Op k xs rs regs) = walk_regions regs @ [Op k xs rs regs]"
| "walk_ops [] = []"
| "walk_ops (p # ps) = walk_op p @ walk_ops ps"
| "walk_regions [] = []"
| "walk_regions (b # bs) = walk_ops b @ walk_regions bs"

text \<open>
  The kind of a function is read from its string attribute \<^verbatim>\<open>type\<close> without a test that it is there:
  \<open>None\<close> is the null dereference on a function without such an attribute.
\<close>

definition typeAttr :: "func_op \<Rightarrow> string option" where
  "typeAttr f = (case map_of (fn_attrs f) ''type'' of Some (StrAttr t) \<Rightarrow> Some t | _ \<Rightarrow> None)"

definition isHandler :: "func_op \<Rightarrow> bool option" where
  "isHandler f = map_option (\<lambda>t. t = ''handler'') (typeAttr f)"

definition isController :: "func_op \<Rightarrow> bool option" where
  "isController f = map_option (\<lambda>t. t = ''controller'') (typeAttr f)"

definition isExtern :: "func_op \<Rightarrow> bool" where
  "isExtern f \<longleftrightarrow> map_of (fn_attrs f) ''extern'' = Some (BooleanAttr True)"

section \<open>Single assignment and dominance\<close>

text \<open>
  \<open>ssa_ops D ops\<close> checks a block against the values \<open>D\<close> defined before it: every operand is
  defined, results are new, and what a nested region defines is not visible after it. It
  returns the values defined at the end of the block.
\<close>

fun ssa_op :: "val set \<Rightarrow> op \<Rightarrow> bool"
  and ssa_ops :: "val set \<Rightarrow> op list \<Rightarrow> bool"
  and ssa_regions :: "val set \<Rightarrow> op list list \<Rightarrow> bool" where
  "ssa_op D (Op k xs rs regs) \<longleftrightarrow>
     set xs \<subseteq> D \<and> ssa_regions D regs \<and> distinct rs \<and> set rs \<inter> D = {}"
| "ssa_ops D [] \<longleftrightarrow> True"
| "ssa_ops D (p # ps) \<longleftrightarrow> ssa_op D p \<and> ssa_ops (D \<union> set (op_results p)) ps"
| "ssa_regions D [] \<longleftrightarrow> True"
| "ssa_regions D (b # bs) \<longleftrightarrow> ssa_ops D b \<and> ssa_regions D bs"

definition block_defs :: "op list \<Rightarrow> val set" where
  "block_defs ops = (\<Union>p \<in> set ops. set (op_results p))"

lemma ssa_ops_append:
  "ssa_ops D (ps @ qs) \<longleftrightarrow> ssa_ops D ps \<and> ssa_ops (D \<union> block_defs ps) qs"
  by (induction ps arbitrary: D) (auto simp: block_defs_def Un_assoc)

text \<open>
  The shape of a body: a block ends in its terminator and has no other one, only a conditional has
  regions, its regions yield as many values as it has results, and one with results has both
  regions.
\<close>

fun wf_op :: "op \<Rightarrow> bool"
  and wf_region :: "nat \<Rightarrow> op list \<Rightarrow> bool"
  and wf_regions :: "nat \<Rightarrow> op list list \<Rightarrow> bool" where
  "wf_op (Op k xs rs regs) \<longleftrightarrow> (case k of
     TerminateOp \<Rightarrow> False
   | YieldOp \<Rightarrow> False
   | IfOp \<Rightarrow> length regs \<in> {1, 2} \<and> (rs \<noteq> [] \<longrightarrow> length regs = 2) \<and> wf_regions (length rs) regs
   | _ \<Rightarrow> regs = [])"
| "wf_region n [] \<longleftrightarrow> False"
| "wf_region n [p] \<longleftrightarrow> op_kind p = YieldOp \<and> length (op_operands p) = n \<and> op_results p = [] \<and> op_regions p = []"
| "wf_region n (p # q # ps) \<longleftrightarrow> wf_op p \<and> wf_region n (q # ps)"
| "wf_regions n [] \<longleftrightarrow> True"
| "wf_regions n (b # bs) \<longleftrightarrow> wf_region n b \<and> wf_regions n bs"

lemma wf_region_snoc:
  "wf_region n (ops @ [Op YieldOp ys [] []]) \<longleftrightarrow> list_all wf_op ops \<and> length ys = n"
  by (induction n ops rule: wf_op_wf_region_wf_regions.induct(2)) auto

end
