(* ===== verification/Ep2_MLIRGen.thy ===== *)
theory Ep2_MLIRGen
  imports Ep2_IR
begin

text \<open>
  The code generator (\<^verbatim>\<open>ep2c/MLIRGen.cpp\<close>, class \<^verbatim>\<open>MLIRGenImpl\<close>): from the syntax tree to operations.
  A null value or operation is \<open>None\<close>; an error reported on the way is added to \<open>gerrs\<close>.
\<close>

section \<open>The state of the generator\<close>

text \<open>
  An entry of the symbol table: the current value of a variable, the type it was declared
  with and its declared type expression (the last two are null for a name that was only
  updated).
\<close>

record sym =
  sym_value :: val
  sym_type :: "ty option"
  sym_decl :: "var_type option"

text \<open>
  \<open>vinfo\<close> gives the type and the defining operation of every value created so far (none for a
  function argument); values are numbered in creation order. \<open>block\<close> is the block at the
  insertion point. The scopes of \<open>symtab\<close> and the tables of \<open>updtabs\<close> are innermost first.
  Locations of operations are not kept.
\<close>

record gen =
  vinfo :: "(ty \<times> (opkind \<times> val list) option) list"
  block :: "op list"
  module_ops :: "module_op list"
  symtab :: "(string \<times> sym) list list"
  updtabs :: "val option smap list"
  functionMap :: "(string \<times> ty list) list"
  structMap :: "(string \<times> ty \<times> location var_decl list) list"
  gerrs :: "string list"

definition I64 :: ty where "I64 = IntegerType 64"

definition MLIRGenImpl :: gen where
  "MLIRGenImpl = \<lparr>vinfo = [], block = [], module_ops = [], symtab = [], updtabs = [],
     functionMap = [(''Queue'', [I64]), (''print'', [])], structMap = [], gerrs = []\<rparr>"

definition value_type :: "gen \<Rightarrow> val \<Rightarrow> ty" where
  "value_type g v = fst (vinfo g ! v)"

definition defining_op :: "gen \<Rightarrow> val \<Rightarrow> (opkind \<times> val list) option" where
  "defining_op g v = snd (vinfo g ! v)"

definition emitError :: "string \<Rightarrow> gen \<Rightarrow> ('a option, gen) outcome" where
  "emitError msg g = Ok None (g\<lparr>gerrs := gerrs g @ [msg]\<rparr>)"

text \<open>\<^verbatim>\<open>builder.create\<close>: the results get the next value numbers.\<close>

definition create :: "opkind \<Rightarrow> val list \<Rightarrow> ty list \<Rightarrow> op list list \<Rightarrow> gen \<Rightarrow> (val list, gen) outcome" where
  "create k xs tys regs g =
     (let n = length (vinfo g); rs = [n..<n + length tys]
      in Ok rs (g\<lparr>vinfo := vinfo g @ map (\<lambda>t. (t, Some (k, xs))) tys,
                  block := block g @ [Op k xs rs regs]\<rparr>))"

definition create1 :: "opkind \<Rightarrow> val list \<Rightarrow> ty \<Rightarrow> gen \<Rightarrow> (val, gen) outcome" where
  "create1 k xs t g = thenP (create k xs [t] [] g) (\<lambda>rs g. Ok (hd rs) g)"

section \<open>Symbols\<close>

fun lookup_scopes :: "(string \<times> sym) list list \<Rightarrow> string \<Rightarrow> sym option" where
  "lookup_scopes [] k = None"
| "lookup_scopes (s # ss) k = (case map_of s k of Some e \<Rightarrow> Some e | None \<Rightarrow> lookup_scopes ss k)"

definition lookup :: "gen \<Rightarrow> string \<Rightarrow> sym option" where
  "lookup g k = lookup_scopes (symtab g) k"

fun insert_scopes :: "string \<Rightarrow> sym \<Rightarrow> (string \<times> sym) list list \<Rightarrow> (string \<times> sym) list list" where
  "insert_scopes k e [] = [[(k, e)]]"
| "insert_scopes k e (s # ss) = ((k, e) # s) # ss"

definition insert_sym :: "string \<Rightarrow> sym \<Rightarrow> gen \<Rightarrow> gen" where
  "insert_sym k e g = g\<lparr>symtab := insert_scopes k e (symtab g)\<rparr>"

definition declare_var :: "string \<Rightarrow> var_type \<Rightarrow> val \<Rightarrow> gen \<Rightarrow> (bool, gen) outcome" where
  "declare_var name t v g =
     (if lookup g name \<noteq> None then Ok False g
      else Ok True (insert_sym name
             \<lparr>sym_value = v, sym_type = Some (value_type g v), sym_decl = Some t\<rparr> g))"

text \<open>
  \<^verbatim>\<open>tryCast\<close>. The class test on a null type fails an assertion; the location of the cast is taken
  from the operation that defines the value, which a function argument does not have.
\<close>

definition tryCast :: "val \<Rightarrow> ty option \<Rightarrow> gen \<Rightarrow> (val, gen) outcome" where
  "tryCast v type g = (case value_type g v of
     IntegerType w \<Rightarrow> (case type of
         None \<Rightarrow> Crash AssertFail
       | Some (IntegerType w') \<Rightarrow>
           if w = w' then Ok v g
           else if defining_op g v = None then Crash NullDeref
           else create1 BitCastOp [v] (IntegerType w') g
       | Some _ \<Rightarrow> Ok v g)
   | _ \<Rightarrow> Ok v g)"

definition update_var :: "string \<Rightarrow> val \<Rightarrow> gen \<Rightarrow> (unit, gen) outcome" where
  "update_var name v g =
     (let (type, decl) = (case lookup g name of None \<Rightarrow> (None, None) | Some e \<Rightarrow> (sym_type e, sym_decl e)) in
      thenP (tryCast v type g) (\<lambda>v' g.
      let g = insert_sym name \<lparr>sym_value = v', sym_type = type, sym_decl = decl\<rparr> g in
      Ok () (case updtabs g of
          [] \<Rightarrow> g
        | t # ts \<Rightarrow> g\<lparr>updtabs := insert_or_assign name (Some v') t # ts\<rparr>)))"

fun update_expr :: "location expr \<Rightarrow> val \<Rightarrow> gen \<Rightarrow> (unit, gen) outcome" where
  "update_expr (PathExpr l (p # ps)) v g = update_var (var_name p) v g"
| "update_expr e v g = Ok () g"

section \<open>Types\<close>

definition builtin_type :: "string \<Rightarrow> ty option" where
  "builtin_type name =
     (if name = ''long'' then Some (IntegerType 64)
      else if name = ''int'' then Some (IntegerType 32)
      else if name = ''atom'' then Some AtomType
      else if name = ''context'' then Some ContextType
      else if name = ''buf'' then Some BufferType
      else if name = ''In'' \<or> name = ''Out'' \<or> name = ''InOut'' then
        Some (PortType (name = ''In'' \<or> name = ''InOut'') (name = ''Out'' \<or> name = ''InOut''))
      else if name = ''mutex'' then Some (OpaqueType name)
      else None)"

text \<open>
  \<^verbatim>\<open>getVarType\<close>. The width of \<^verbatim>\<open>bits\<close> is converted to \<^verbatim>\<open>unsigned\<close>; the type arguments of \<^verbatim>\<open>table\<close> are
  dereferenced unchecked, and a null result for them ends up inside the table type.
\<close>

fun getVarType :: "var_type \<Rightarrow> gen \<Rightarrow> (ty option, gen) outcome" where
  "getVarType (VarType name params) g =
     (if name = [] then Ok (Some AnyType) g
      else if builtin_type name \<noteq> None then Ok (builtin_type name) g
      else if name = ''bits'' then
        (case params of
           [IntegerParam w] \<Rightarrow> Ok (Some (IntegerType (w mod 2 ^ 32))) g
         | _ \<Rightarrow> emitError ''error: not valid parameter for bits'' g)
      else if name = ''table'' then
        (case params of
           [TypeParam kt, TypeParam vt, IntegerParam n] \<Rightarrow>
             (case kt of None \<Rightarrow> Crash NullDeref | Some kt \<Rightarrow>
              thenP (getVarType kt g) (\<lambda>k g.
              case vt of None \<Rightarrow> Crash NullDeref | Some vt \<Rightarrow>
              thenP (getVarType vt g) (\<lambda>v g. Ok (Some (TableType k v n)) g)))
         | _ \<Rightarrow> emitError ''error: Wrong Type parameter for table'' g)
      else (case map_of (structMap g) name of
          None \<Rightarrow> emitError ''error: unknown struct type'' g
        | Some (t, _) \<Rightarrow> Ok (Some t) g))"

section \<open>Paths and values\<close>

definition toRValue :: "val \<Rightarrow> ty option \<Rightarrow> gen \<Rightarrow> (val, gen) outcome" where
  "toRValue v ltype g = (case defining_op g v of
     Some (GlobalRef name, _) \<Rightarrow>
       create1 (GlobalImportOp name) [] (case ltype of None \<Rightarrow> value_type g v | Some t \<Rightarrow> t) g
   | _ \<Rightarrow> (case value_type g v of
       ContextRefType t \<Rightarrow> create1 LoadOp [v] (case ltype of None \<Rightarrow> t | Some t' \<Rightarrow> t') g
     | _ \<Rightarrow> Ok v g))"

definition genVariable :: "string \<Rightarrow> gen \<Rightarrow> (val option, gen) outcome" where
  "genVariable name g = (case lookup g name of
     Some e \<Rightarrow> Ok (Some (sym_value e)) g
   | None \<Rightarrow> emitError ''error: unknown variable'' g)"

text \<open>The members of the struct type a variable was declared with.\<close>

definition getStructForName :: "string \<Rightarrow> gen \<Rightarrow> (location var_decl list option, gen) outcome" where
  "getStructForName name g = (case lookup g name of
     None \<Rightarrow> Ok None g
   | Some e \<Rightarrow> (case sym_decl e of
       None \<Rightarrow> Crash NullDeref
     | Some t \<Rightarrow> (case map_of (structMap g) (ty_name t) of
         None \<Rightarrow> Ok None g
       | Some (_, members) \<Rightarrow> Ok (Some members) g)))"

fun getMemberIndex :: "location var_decl list \<Rightarrow> string \<Rightarrow> nat option" where
  "getMemberIndex [] name = None"
| "getMemberIndex (d # ds) name =
     (if decl_name d = name then Some 0 else map_option Suc (getMemberIndex ds name))"

text \<open>\<^verbatim>\<open>StructAccessOp::build\<close>: the input must have a struct type with that many elements.\<close>

definition buildStructAccess :: "val \<Rightarrow> nat \<Rightarrow> gen \<Rightarrow> (val, gen) outcome" where
  "buildStructAccess input index g = (case value_type g input of
     StructType ev elems name \<Rightarrow>
       if index < length elems then create1 (StructAccessOp index) [input] (elems ! index) g
       else Crash AssertFail
   | _ \<Rightarrow> Crash AssertFail)"

text \<open>The loop of \<^verbatim>\<open>getPath\<close> after its first variable; \<open>prev\<close> is the variable before the head.\<close>

fun getPathLoop :: "location var_expr \<Rightarrow> location var_expr list \<Rightarrow> val \<Rightarrow> gen \<Rightarrow> (val option, gen) outcome" where
  "getPathLoop prev [] v g = Ok (Some v) g"
| "getPathLoop prev (x # xs) v g =
     (if value_type g v = ContextType then
        thenP (create1 (ContextRefOp (var_name x)) [v] (ContextRefType AnyType) g) (\<lambda>v g.
          getPathLoop x xs v g)
      else
        thenP (getStructForName (var_name prev) g) (\<lambda>s g. case s of
          None \<Rightarrow> emitError ''dot applied to a non-struct'' g
        | Some members \<Rightarrow> (case getMemberIndex members (var_name x) of
            None \<Rightarrow> emitError ''invalid access into struct expression'' g
          | Some i \<Rightarrow> thenP (buildStructAccess v i g) (\<lambda>v g. getPathLoop x xs v g))))"

definition getPath :: "location var_expr list \<Rightarrow> bool \<Rightarrow> gen \<Rightarrow> (val option, gen) outcome" where
  "getPath path limit g =
     (if path = [] then emitError ''Not a function'' g
      else (case (if limit then butlast path else path) of
          [] \<Rightarrow> Ok None g
        | x # xs \<Rightarrow> thenP (genVariable (var_name x) g) (\<lambda>v g.
            case v of None \<Rightarrow> Ok None g | Some v \<Rightarrow> getPathLoop x xs v g)))"

section \<open>Expressions\<close>

definition is_constant :: "gen \<Rightarrow> val \<Rightarrow> bool" where
  "is_constant g v \<longleftrightarrow> (case defining_op g v of Some (ConstantOp a, _) \<Rightarrow> True | _ \<Rightarrow> False)"

definition to_signed64 :: "int \<Rightarrow> int" where
  "to_signed64 v = (v + 2 ^ 63) mod 2 ^ 64 - 2 ^ 63"

text \<open>Of the two operands the left one is cast if it is a constant, else the right one.\<close>

definition castConstants :: "val \<Rightarrow> val \<Rightarrow> gen \<Rightarrow> (val \<times> val, gen) outcome" where
  "castConstants lhs rhs g =
     (if is_constant g lhs then
        thenP (tryCast lhs (Some (value_type g rhs)) g) (\<lambda>lhs g. Ok (lhs, rhs) g)
      else if is_constant g rhs then
        thenP (tryCast rhs (Some (value_type g lhs)) g) (\<lambda>rhs g. Ok (lhs, rhs) g)
      else Ok (lhs, rhs) g)"

definition genAssign :: "location expr \<Rightarrow> val \<Rightarrow> val \<Rightarrow> gen \<Rightarrow> (val option, gen) outcome" where
  "genAssign target lhs rhs g = (case defining_op g lhs of
     None \<Rightarrow> Crash NullDeref
   | Some (ContextRefOp n, _) \<Rightarrow>
       thenP (create StoreOp [lhs, rhs] [] [] g) (\<lambda>_ g.
       thenP (create1 NopOp [] NoneType g) (\<lambda>v g. Ok (Some v) g))
   | Some (StructAccessOp i, xs) \<Rightarrow>
       thenP (create1 (StructUpdateOp i) [hd xs, rhs] (value_type g (hd xs)) g) (\<lambda>v g.
       thenP (update_expr target v g) (\<lambda>_ g. Ok (Some v) g))
   | Some _ \<Rightarrow> thenP (update_expr target rhs g) (\<lambda>_ g. Ok (Some rhs) g))"

definition genBinary :: "int \<Rightarrow> location expr \<Rightarrow> val \<Rightarrow> val \<Rightarrow> gen \<Rightarrow> (val option, gen) outcome" where
  "genBinary p target lhs rhs g =
     (let ret = (\<lambda>m. thenP m (\<lambda>v g. Ok (Some v) g)) in
      if p = tok_plus then ret (create1 AddOp [lhs, rhs] (value_type g lhs) g)
      else if p = tok_minus then ret (create1 SubOp [lhs, rhs] (value_type g lhs) g)
      else if p = tok_star then ret (create1 MulOp [lhs, rhs] UnrankedTensorType g)
      else if p = tok_cmp_eq \<or> p = tok_cmp_ge \<or> p = tok_cmp_le
            \<or> p = tok_angle_bracket_open \<or> p = tok_angle_bracket_close then
        ret (create1 (CmpOp (if p < 0 then - p else p)) [lhs, rhs] (IntegerType 1) g)
      else if p = tok_eq then genAssign target lhs rhs g
      else emitError ''invalid binary operator'' g)"

text \<open>
  \<^verbatim>\<open>getConstantAttr\<close> of a struct literal: numbers and nested struct literals, with the casts of the
  source as assertions.
\<close>

fun constElem :: "location expr option \<Rightarrow> gen \<Rightarrow> (attr \<times> ty, gen) outcome"
  and getConstantAttr :: "location expr option list \<Rightarrow> gen \<Rightarrow> (attr list \<times> ty list, gen) outcome" where
  "constElem None g = Crash NullDeref"
| "constElem (Some (NumberExpr l v)) g = Ok (IntAttr (to_signed64 v), AnyType) g"
| "constElem (Some (StructLiteralExpr l vs)) g =
     thenP (getConstantAttr vs g) (\<lambda>(as, ts) g. Ok (ArrayAttr as, StructType False ts '''') g)"
| "constElem (Some e) g = Crash AssertFail"
| "getConstantAttr [] g = Ok ([], []) g"
| "getConstantAttr (v # vs) g =
     thenP (constElem v g) (\<lambda>(a, t) g.
     thenP (getConstantAttr vs g) (\<lambda>(as, ts) g. Ok (a # as, t # ts) g))"

definition genStructLiteral :: "location expr option list \<Rightarrow> gen \<Rightarrow> (val option, gen) outcome" where
  "genStructLiteral vs g =
     thenP (getConstantAttr vs g) (\<lambda>(as, ts) g.
     thenP (create1 (StructConstantOp (ArrayAttr as)) [] (StructType False ts '''') g) (\<lambda>v g.
       Ok (Some v) g))"

text \<open>A null value cannot be an operand.\<close>

fun all_values :: "val option list \<Rightarrow> gen \<Rightarrow> (val list, gen) outcome" where
  "all_values [] g = Ok [] g"
| "all_values (None # vs) g = Crash NullDeref"
| "all_values (Some v # vs) g = thenP (all_values vs g) (\<lambda>vs g. Ok (v # vs) g)"

definition port_value :: "gen \<Rightarrow> string \<Rightarrow> val option" where
  "port_value g k = map_option sym_value (lookup g k)"

fun commandAttr :: "location expr \<Rightarrow> attr list" where
  "commandAttr (NumberExpr l v) = [IntAttr (to_signed64 v)]"
| "commandAttr (PathExpr l (x # xs)) = [StrAttr (var_name x)]"
| "commandAttr e = []"

definition genNop :: "gen \<Rightarrow> (val option, gen) outcome" where
  "genNop g = thenP (create1 NopOp [] NoneType g) (\<lambda>v g. Ok (Some v) g)"

definition genCommand ::
    "string \<Rightarrow> location expr list \<Rightarrow> string list \<Rightarrow> string list \<Rightarrow> gen \<Rightarrow> (val option, gen) outcome" where
  "genCommand callee args ins outs g =
     thenP (all_values (map (port_value g) ins @ map (port_value g) outs) g) (\<lambda>ports g.
     thenP (create (ConnectOp callee (length ins) (concat (map commandAttr args))) ports [] [] g) (\<lambda>_ g.
     genNop g))"

text \<open>The offset operand of \<^verbatim>\<open>set\<close> and \<^verbatim>\<open>get\<close> must be an integer constant.\<close>

definition constant_int :: "gen \<Rightarrow> val \<Rightarrow> int option" where
  "constant_int g v = (case defining_op g v of Some (ConstantOp (IntAttr i), _) \<Rightarrow> Some i | _ \<Rightarrow> None)"

definition is_integer_type :: "ty \<Rightarrow> bool" where
  "is_integer_type t = (case t of IntegerType w \<Rightarrow> True | _ \<Rightarrow> False)"

definition ret_value :: "(val, gen) outcome \<Rightarrow> (val option, gen) outcome" where
  "ret_value m = thenP m (\<lambda>v g. Ok (Some v) g)"

text \<open>The builtins, with the operand of the call's path and the evaluated arguments.\<close>

fun genExtract :: "location expr list \<Rightarrow> val option \<Rightarrow> val list \<Rightarrow> gen \<Rightarrow> (val option, gen) outcome" where
  "genExtract args (Some buf) [target] g =
     thenP (create1 ExtractOp [buf] (value_type g target) g) (\<lambda>v g.
     thenP (update_expr (hd args) v g) (\<lambda>_ g. Ok (Some v) g))"
| "genExtract args caller operands g = emitError ''callop: invalid extract'' g"

fun genEmit :: "val option \<Rightarrow> val list \<Rightarrow> gen \<Rightarrow> (val option, gen) outcome" where
  "genEmit (Some buf) [target] g =
     thenP (toRValue target None g) (\<lambda>target g.
     thenP (create EmitOp [buf, target] [] [] g) (\<lambda>_ g. genNop g))"
| "genEmit caller operands g = emitError ''callop: invalid emit'' g"

fun table_value_type :: "ty \<Rightarrow> ty option option" where
  "table_value_type (TableType kt vt n) = Some vt"
| "table_value_type t = None"

fun genLookup :: "val option \<Rightarrow> val list \<Rightarrow> gen \<Rightarrow> (val option, gen) outcome" where
  "genLookup (Some table) [key] g = (case table_value_type (value_type g table) of
     None \<Rightarrow> emitError ''callop: invalid lookup'' g
   | Some vt \<Rightarrow>
       thenP (toRValue table None g) (\<lambda>table g.
       thenP (toRValue key None g) (\<lambda>key g. case vt of
         None \<Rightarrow> Crash AssertFail
       | Some vt \<Rightarrow> ret_value (create1 LookupOp [table, key] vt g))))"
| "genLookup caller operands g = emitError ''callop: invalid lookup'' g"

fun genUpdate :: "val option \<Rightarrow> val list \<Rightarrow> gen \<Rightarrow> (val option, gen) outcome" where
  "genUpdate (Some table) [key, value] g =
     thenP (toRValue table None g) (\<lambda>table g.
     thenP (toRValue key None g) (\<lambda>key g.
     thenP (toRValue value None g) (\<lambda>value g.
     thenP (create UpdateOp [table, key, value] [] [] g) (\<lambda>_ g. genNop g))))"
| "genUpdate caller operands g = emitError ''callop: invalid update'' g"

fun genBitSet ::
    "location \<Rightarrow> location var_expr list \<Rightarrow> val option \<Rightarrow> val list \<Rightarrow> gen \<Rightarrow> (val option, gen) outcome" where
  "genBitSet pl path (Some bits) [target, value] g = (case constant_int g target of
     None \<Rightarrow> emitError ''callop: invalid bitget operand'' g
   | Some off \<Rightarrow>
       if \<not> is_integer_type (value_type g value) then emitError ''callop: invalid operand'' g
       else thenP (toRValue value (Some (IntegerType 1)) g) (\<lambda>value g.
            thenP (create1 (BitSetOp off) [bits, value] (value_type g bits) g) (\<lambda>v g.
            thenP (update_expr (PathExpr pl path) v g) (\<lambda>_ g. Ok (Some v) g))))"
| "genBitSet pl path caller operands g = emitError ''callop: invalid bitset'' g"

fun genBitGet :: "val option \<Rightarrow> val list \<Rightarrow> gen \<Rightarrow> (val option, gen) outcome" where
  "genBitGet (Some bits) [target] g = (case constant_int g target of
     None \<Rightarrow> emitError ''callop: invalid bitget operand'' g
   | Some off \<Rightarrow> ret_value (create1 (BitGetOp off) [bits] (IntegerType 1) g))"
| "genBitGet caller operands g = emitError ''callop: invalid bitget'' g"

text \<open>A function without results has no result \<open>0\<close> to take the type of.\<close>

definition genUserCall :: "string \<Rightarrow> val list \<Rightarrow> gen \<Rightarrow> (val option, gen) outcome" where
  "genUserCall callee operands g = (case map_of (functionMap g) callee of
     None \<Rightarrow> emitError ''no defined function found'' g
   | Some [] \<Rightarrow> Crash AssertFail
   | Some (t # ts) \<Rightarrow> ret_value (create1 (CallOp callee) operands t g))"

definition genCallee ::
    "location \<Rightarrow> location var_expr list \<Rightarrow> location expr list \<Rightarrow> string \<Rightarrow> val option \<Rightarrow> val list \<Rightarrow>
     gen \<Rightarrow> (val option, gen) outcome" where
  "genCallee pl path args callee caller operands g =
     (if callee = ''extract'' then genExtract args caller operands g
      else if callee = ''emit'' then genEmit caller operands g
      else if callee = ''lookup'' then genLookup caller operands g
      else if callee = ''update'' then genUpdate caller operands g
      else if callee = ''set'' then genBitSet pl path caller operands g
      else if callee = ''get'' then genBitGet caller operands g
      else genUserCall callee operands g)"

text \<open>
  The expression forms. The subexpressions are given by their generators, so that the recursion
  is that of \<open>genExpr\<close> below. Arguments of a C++ call are generated from left to right.
\<close>

definition genBinaryExpr ::
    "int \<Rightarrow> location expr \<Rightarrow> (gen \<Rightarrow> (val option, gen) outcome) \<Rightarrow> (gen \<Rightarrow> (val option, gen) outcome) \<Rightarrow>
     gen \<Rightarrow> (val option, gen) outcome" where
  "genBinaryExpr p target genLHS genRHS g =
     thenP (genLHS g) (\<lambda>lhs g. case lhs of None \<Rightarrow> Ok None g | Some lhs \<Rightarrow>
     thenP (if p \<noteq> tok_eq then toRValue lhs None g else Ok lhs g) (\<lambda>lhs g.
     thenP (genRHS g) (\<lambda>rhs g. case rhs of None \<Rightarrow> Ok None g | Some rhs \<Rightarrow>
     thenP (toRValue rhs (Some (value_type g lhs)) g) (\<lambda>rhs g.
     thenP (castConstants lhs rhs g) (\<lambda>(lhs, rhs) g. genBinary p target lhs rhs g)))))"

definition genCallExpr ::
    "location \<Rightarrow> location var_expr list \<Rightarrow> location expr list \<Rightarrow> string list \<Rightarrow> string list \<Rightarrow>
     (gen \<Rightarrow> (val list option, gen) outcome) \<Rightarrow> gen \<Rightarrow> (val option, gen) outcome" where
  "genCallExpr pl path args ins outs genOperands g =
     thenP (getPath path True g) (\<lambda>caller g.
     if path = [] then Crash AssertFail
     else let callee = var_name (last path) in
       if isCommand ins outs then genCommand callee args ins outs g
       else thenP (genOperands g) (\<lambda>operands g. case operands of
           None \<Rightarrow> Ok None g
         | Some operands \<Rightarrow> genCallee pl path args callee caller operands g))"

definition genInitExpr ::
    "var_type \<Rightarrow> (gen \<Rightarrow> (val list, gen) outcome) \<Rightarrow> gen \<Rightarrow> (val option, gen) outcome" where
  "genInitExpr t genValues g =
     thenP (getVarType t g) (\<lambda>type g. case type of
       None \<Rightarrow> emitError ''do not get a type for default initialization'' g
     | Some type \<Rightarrow> thenP (genValues g) (\<lambda>values g. ret_value (create1 InitOp values type g)))"

definition genNumber :: "int \<Rightarrow> gen \<Rightarrow> (val option, gen) outcome" where
  "genNumber v g = ret_value (create1 (ConstantOp (IntAttr (to_signed64 v))) [] I64 g)"

definition genAtomLiteral :: "string \<Rightarrow> gen \<Rightarrow> (val option, gen) outcome" where
  "genAtomLiteral a g = ret_value (create1 (ConstantOp (StrAttr a)) [] AtomType g)"

definition genPortLiteral :: "string \<Rightarrow> string \<Rightarrow> int \<Rightarrow> gen \<Rightarrow> (val option, gen) outcome" where
  "genPortLiteral ev a i g = ret_value (create1 (ConstantOp (PortAttr ev a i)) [] (PortType False False) g)"

fun genExpr :: "location expr \<Rightarrow> gen \<Rightarrow> (val option, gen) outcome"
  and genArgs :: "location expr list \<Rightarrow> gen \<Rightarrow> (val list option, gen) outcome"
  and genInits :: "location expr list \<Rightarrow> gen \<Rightarrow> (val list, gen) outcome" where
  "genExpr (BinaryExpr l p a b) g = genBinaryExpr p a (genExpr a) (genExpr b) g"
| "genExpr (VarExpr l name) g = genVariable name g"
| "genExpr (AtomLiteralExpr l a) g = genAtomLiteral a g"
| "genExpr (StructLiteralExpr l vs) g = genStructLiteral vs g"
| "genExpr (PortLiteralExpr l ev a i) g = genPortLiteral ev a i g"
| "genExpr (CallExpr l pl path args ins outs) g = genCallExpr pl path args ins outs (genArgs args) g"
| "genExpr (NumberExpr l v) g = genNumber v g"
| "genExpr (PathExpr l path) g = getPath path False g"
| "genExpr (InitExpr l t vs) g = genInitExpr t (genInits vs) g"
| "genExpr (VarDeclExpr l n t i) g = emitError ''MLIR codegen encountered an unhandled expr kind'' g"
| "genExpr (ReturnExpr l r) g = emitError ''MLIR codegen encountered an unhandled expr kind'' g"
| "genExpr (LiteralExpr l vs ds) g = emitError ''MLIR codegen encountered an unhandled expr kind'' g"
| "genExpr (IfElseExpr l c t e) g = emitError ''MLIR codegen encountered an unhandled expr kind'' g"
| "genArgs [] g = Ok (Some []) g"
| "genArgs (e # es) g =
     thenP (genExpr e g) (\<lambda>v g. case v of None \<Rightarrow> Ok None g | Some v \<Rightarrow>
     thenP (genArgs es g) (\<lambda>vs g. Ok (map_option (\<lambda>vs. v # vs) vs) g))"
| "genInits [] g = Ok [] g"
| "genInits (e # es) g =
     thenP (genExpr e g) (\<lambda>v g. case v of None \<Rightarrow> Crash NullDeref | Some v \<Rightarrow>
     thenP (toRValue v None g) (\<lambda>v g.
     thenP (genInits es g) (\<lambda>vs g. Ok (v # vs) g)))"

section \<open>Statements\<close>

text \<open>A port value takes the declared port type; any other type must match.\<close>

definition retype_port :: "ty \<Rightarrow> val \<Rightarrow> gen \<Rightarrow> gen" where
  "retype_port type value g = (case (value_type g value, type) of
     (PortType a b, PortType c d) \<Rightarrow> g\<lparr>vinfo := (vinfo g)[value := (type, defining_op g value)]\<rparr>
   | _ \<Rightarrow> g)"

definition checkDeclType :: "var_type \<Rightarrow> val \<Rightarrow> gen \<Rightarrow> (unit option, gen) outcome" where
  "checkDeclType vt value g =
     (if ty_name vt = [] then Ok (Some ()) g
      else thenP (getVarType vt g) (\<lambda>type g. case type of None \<Rightarrow> Ok None g | Some type \<Rightarrow>
        let g = retype_port type value g in
        if type \<noteq> value_type g value
        then emitError ''struct type of initializer is different than the variable declaration'' g
        else Ok (Some ()) g))"

definition genInitializer :: "var_type \<Rightarrow> location expr option \<Rightarrow> gen \<Rightarrow> (val option, gen) outcome" where
  "genInitializer vt init g = (case init of
     None \<Rightarrow> thenP (getVarType vt g) (\<lambda>type g. case type of
         None \<Rightarrow> emitError ''do not get a type for default initialization'' g
       | Some type \<Rightarrow> ret_value (create1 InitOp [] type g))
   | Some e \<Rightarrow> genExpr e g)"

definition genVarDecl ::
    "string \<Rightarrow> var_type \<Rightarrow> location expr option \<Rightarrow> gen \<Rightarrow> (val option, gen) outcome" where
  "genVarDecl name vt init g =
     thenP (genInitializer vt init g) (\<lambda>value g. case value of None \<Rightarrow> Ok None g | Some value \<Rightarrow>
     thenP (checkDeclType vt value g) (\<lambda>ok g. case ok of None \<Rightarrow> Ok None g | Some _ \<Rightarrow>
     thenP (declare_var name vt value g) (\<lambda>ok g. Ok (if ok then Some value else None) g)))"

text \<open>The result says whether generation succeeded; the caller ignores it.\<close>

fun genReturn :: "location expr option option \<Rightarrow> gen \<Rightarrow> (bool, gen) outcome" where
  "genReturn None g = thenP (create ReturnOp [] [] [] g) (\<lambda>_ g. Ok True g)"
| "genReturn (Some None) g = Crash NullDeref"
| "genReturn (Some (Some e)) g =
     thenP (genExpr e g) (\<lambda>v g. case v of
       None \<Rightarrow> Ok False g
     | Some v \<Rightarrow> thenP (create ReturnOp [v] [] [] g) (\<lambda>_ g. Ok True g))"

text \<open>\<^verbatim>\<open>merge\<close>: names updated on one side only get their value from before the statement.\<close>

definition merge :: "gen \<Rightarrow> val option smap \<Rightarrow> val option smap \<Rightarrow> val option smap" where
  "merge g from to =
     fold (\<lambda>(k, v) t. if map_of t k \<noteq> None then t
                      else insert_or_assign k (map_option sym_value (lookup g k)) t) from to"

fun update_all :: "string list \<Rightarrow> val list \<Rightarrow> gen \<Rightarrow> (unit, gen) outcome" where
  "update_all (k # ks) (v # vs) g = thenP (update_var k v g) (\<lambda>_ g. update_all ks vs g)"
| "update_all _ _ g = Ok () g"

text \<open>
  The part of \<^verbatim>\<open>mlirGen(IfElseExprAST &)\<close> after both branches were generated, with the insertion
  point back at the block \<open>ip\<close>. A null result type fails an assertion of \<^verbatim>\<open>Operation::create\<close>.
\<close>

definition finishIf ::
    "val \<Rightarrow> bool \<Rightarrow> op list \<Rightarrow> op list \<Rightarrow> val option smap \<Rightarrow> op list \<Rightarrow> val option smap \<Rightarrow> gen \<Rightarrow>
     (bool, gen) outcome" where
  "finishIf cond hasElseAst ip thenOps thenTable elseOps elseTable g =
     (let elseTable = merge g thenTable elseTable;
          thenTable = merge g elseTable thenTable;
          keys = map fst thenTable;
          hasElse = (hasElseAst \<or> keys \<noteq> []);
          types = map (\<lambda>k. case lookup g k of None \<Rightarrow> None | Some e \<Rightarrow> sym_type e) keys
      in if None \<in> set types then Crash AssertFail
         else thenP (all_values (map (\<lambda>k. the (map_of thenTable k)) keys) g) (\<lambda>thenYields g.
              thenP (if hasElse then all_values (map (\<lambda>k. the (map_of elseTable k)) keys) g else Ok [] g)
                (\<lambda>elseYields g.
              thenP (create IfOp [cond] (map the types)
                       ((thenOps @ [Op YieldOp thenYields [] []]) #
                        (if hasElse then [(if hasElseAst then elseOps else []) @ [Op YieldOp elseYields [] []]]
                         else []))
                       (g\<lparr>block := ip\<rparr>)) (\<lambda>results g.
              thenP (update_all keys results g) (\<lambda>_ g. Ok True g)))))"

text \<open>
  A branch has its own block, update table and scope. Its scope is closed on every exit, but when
  a branch fails its update table stays on the stack and the insertion point stays in its block.
\<close>

definition open_branch :: "gen \<Rightarrow> gen" where
  "open_branch g = g\<lparr>block := [], updtabs := [] # updtabs g, symtab := [] # symtab g\<rparr>"

definition close_scope :: "gen \<Rightarrow> gen" where
  "close_scope g = g\<lparr>symtab := tl (symtab g)\<rparr>"

definition close_branch :: "gen \<Rightarrow> gen" where
  "close_branch g = close_scope (g\<lparr>updtabs := tl (updtabs g)\<rparr>)"

function (sequential) genStmts :: "location expr list \<Rightarrow> gen \<Rightarrow> (bool, gen) outcome"
  and genIf :: "location expr \<Rightarrow> location expr list option \<Rightarrow> location expr list option \<Rightarrow> gen \<Rightarrow> (bool, gen) outcome" where
  "genStmts [] g = Ok True g"
| "genStmts (e # es) g =
     thenP (case e of
         VarDeclExpr l n t i \<Rightarrow> thenP (genVarDecl n t i g) (\<lambda>v g. Ok (v \<noteq> None) g)
       | ReturnExpr l r \<Rightarrow> thenP (genReturn r g) (\<lambda>_ g. Ok True g)
       | IfElseExpr l c t f \<Rightarrow> genIf c t f g
       | _ \<Rightarrow> thenP (genExpr e g) (\<lambda>v g. Ok (v \<noteq> None) g))
       (\<lambda>ok g. if ok then genStmts es g else Ok False g)"
| "genIf c thenExprs elseExprs g =
     thenP (genExpr c g) (\<lambda>cond g. case cond of None \<Rightarrow> Ok False g | Some cond \<Rightarrow>
     (case thenExprs of None \<Rightarrow> Crash NullDeref | Some ts \<Rightarrow>
      thenP (genStmts ts (open_branch g)) (\<lambda>ok g1.
      if \<not> ok then Ok False (close_scope g1)
      else
        thenP (case elseExprs of
            None \<Rightarrow> Ok True (open_branch (close_branch g1))
          | Some es \<Rightarrow> genStmts es (open_branch (close_branch g1))) (\<lambda>ok g2.
        if \<not> ok then Ok False (close_scope g2)
        else finishIf cond (elseExprs \<noteq> None) (block g) (block g1) (hd (updtabs g1))
               (block g2) (hd (updtabs g2)) (close_branch g2)))))"
  by pat_completeness auto
termination
  by (relation "measure (case_sum (\<lambda>(es, g). size_list size es)
        (\<lambda>(c, t, f, g). Suc (size_option (size_list size) t + size_option (size_list size) f)))") auto

definition genBlock :: "location expr list \<Rightarrow> gen \<Rightarrow> (bool, gen) outcome" where
  "genBlock es g =
     thenP (genStmts es (g\<lparr>symtab := [] # symtab g\<rparr>)) (\<lambda>ok g. Ok ok (close_scope g))"

section \<open>Records and modules\<close>

fun genMembers :: "location var_decl list \<Rightarrow> gen \<Rightarrow> (ty list option, gen) outcome" where
  "genMembers [] g = Ok (Some []) g"
| "genMembers (d # ds) g =
     (if decl_init d \<noteq> None
      then emitError ''error: variables within a struct definition must not have initializers'' g
      else thenP (getVarType (decl_type d) g) (\<lambda>t g. case t of None \<Rightarrow> Ok None g | Some t \<Rightarrow>
           thenP (genMembers ds g) (\<lambda>ts g. Ok (map_option (\<lambda>ts. t # ts) ts) g)))"

definition genStruct ::
    "bool \<Rightarrow> string \<Rightarrow> location var_decl list \<Rightarrow> gen \<Rightarrow> (bool, gen) outcome" where
  "genStruct isEvent name variables g =
     (if map_of (structMap g) name \<noteq> None
      then thenP (emitError ''error: struct type already exists'' g) (\<lambda>r g. Ok (r \<noteq> (None :: unit option)) g)
      else thenP (genMembers variables g) (\<lambda>ts g. case ts of None \<Rightarrow> Ok False g | Some ts \<Rightarrow>
           Ok True (g\<lparr>structMap := (name, StructType isEvent ts name, variables) # structMap g\<rparr>)))"

fun genArgTypes :: "location var_decl list \<Rightarrow> gen \<Rightarrow> (ty list option, gen) outcome" where
  "genArgTypes [] g = Ok (Some []) g"
| "genArgTypes (d # ds) g =
     thenP (getVarType (decl_type d) g) (\<lambda>t g. case t of None \<Rightarrow> Ok None g | Some t \<Rightarrow>
     thenP (genArgTypes ds g) (\<lambda>ts g. Ok (map_option (\<lambda>ts. t # ts) ts) g))"

definition protoAttrs :: "location prototype \<Rightarrow> attr smap" where
  "protoAttrs p =
     insert_or_assign ''type'' (StrAttr (getFunctionTypeName (proto_type p)))
       (case proto_atom p of
          None \<Rightarrow> insert_or_assign ''event'' (StrAttr (proto_name p)) []
        | Some a \<Rightarrow> insert_or_assign ''atom'' (StrAttr a) (insert_or_assign ''event'' (StrAttr (proto_name p)) []))"

text \<open>The function operation of a prototype: its body is empty, its entry block has the arguments.\<close>

definition genProto :: "location prototype \<Rightarrow> gen \<Rightarrow> (func_op option, gen) outcome" where
  "genProto p g =
     thenP (genArgTypes (proto_args p) g) (\<lambda>ts g. case ts of None \<Rightarrow> Ok None g | Some ts \<Rightarrow>
       let n = length (vinfo g) in
       Ok (Some \<lparr>fn_name = getMangledName p, fn_attrs = protoAttrs p, fn_private = False,
                 fn_args = [n..<n + length ts], fn_body = []\<rparr>)
          (g\<lparr>vinfo := vinfo g @ map (\<lambda>t. (t, None)) ts\<rparr>))"

fun declareArgs :: "location var_decl list \<Rightarrow> val list \<Rightarrow> gen \<Rightarrow> (bool, gen) outcome" where
  "declareArgs (d # ds) (v # vs) g =
     thenP (declare_var (decl_name d) (decl_type d) v g) (\<lambda>ok g.
       if ok then declareArgs ds vs g else Ok False g)"
| "declareArgs _ _ g = Ok True g"

definition ends_with_terminate :: "op list \<Rightarrow> bool" where
  "ends_with_terminate ops \<longleftrightarrow> ops \<noteq> [] \<and> op_kind (last ops) = TerminateOp"

text \<open>
  A failed function is never looked at again (\<^verbatim>\<open>mlirGen(ModuleAST &)\<close> returns null at once), so it
  joins the module only when it is complete.
\<close>

definition genFunction ::
    "location prototype \<Rightarrow> location expr list \<Rightarrow> gen \<Rightarrow> (func_op option, gen) outcome" where
  "genFunction p body g =
     thenP (genProto p (g\<lparr>symtab := [] # symtab g, block := []\<rparr>)) (\<lambda>f g. case f of
       None \<Rightarrow> Ok None (close_scope g)
     | Some f \<Rightarrow>
         thenP (declareArgs (proto_args p) (fn_args f) g) (\<lambda>ok g. if \<not> ok then Ok None (close_scope g) else
         thenP (genBlock body g) (\<lambda>ok g. if \<not> ok then Ok None (close_scope g) else
         thenP (if ends_with_terminate (block g) then Ok [] g else create TerminateOp [] [] [] g) (\<lambda>_ g.
         Ok (Some (f\<lparr>fn_body := block g, fn_private := (proto_name p \<noteq> ''main'')\<rparr>)) (close_scope g)))))"

text \<open>The attributes of a record; \<^verbatim>\<open>sync\<close> names a scope.\<close>

fun setAttributes :: "attributes \<Rightarrow> attr smap \<Rightarrow> attr smap \<Rightarrow> gen \<Rightarrow> (attr smap option, gen) outcome" where
  "setAttributes [] scopes as g = Ok (Some as) g"
| "setAttributes ((k, BoolAttr b) # m) scopes as g =
     setAttributes m scopes (insert_or_assign k (BooleanAttr b) as) g"
| "setAttributes ((k, StringAttr s) # m) scopes as g =
     (if k = ''sync'' then
        (case map_of scopes s of
           None \<Rightarrow> emitError ''error: scope does not exist'' g
         | Some a \<Rightarrow> setAttributes m scopes (insert_or_assign ''scope'' a as) g)
      else setAttributes m scopes (insert_or_assign k (StrAttr s) as) g)"
| "setAttributes ((k, ListAttr l) # m) scopes as g =
     setAttributes m scopes (insert_or_assign k (StrArrayAttr l) as) g"

definition genGlobal :: "location var_decl \<Rightarrow> gen \<Rightarrow> (global_op option, gen) outcome" where
  "genGlobal d g =
     thenP (getVarType (decl_type d) g) (\<lambda>t g. case t of None \<Rightarrow> Crash AssertFail | Some t \<Rightarrow>
       let v = length (vinfo g); name = decl_name d;
           g = g\<lparr>vinfo := vinfo g @ [(t, Some (GlobalRef name, []))]\<rparr>
       in thenP (declare_var name (decl_type d) v g) (\<lambda>ok g.
            if ok then Ok (Some \<lparr>gl_name = name, gl_attrs = [], gl_value = v\<rparr>) g
            else emitError ''error: global variable already exists'' g))"

definition add_module_op :: "module_op \<Rightarrow> gen \<Rightarrow> gen" where
  "add_module_op m g = g\<lparr>module_ops := module_ops g @ [m]\<rparr>"

definition genRecord ::
    "location record_ast \<Rightarrow> attr smap \<Rightarrow> gen \<Rightarrow> (attr smap option, gen) outcome" where
  "genRecord r scopes g = (case rec_node r of
     FunctionNode p body \<Rightarrow>
       thenP (genFunction p body g) (\<lambda>f g. case f of None \<Rightarrow> Ok None g | Some f \<Rightarrow>
       let g = (if map_of (functionMap g) (fn_name f) = None
                then g\<lparr>functionMap := (fn_name f, []) # functionMap g\<rparr> else g) in
       thenP (setAttributes (rec_attrs r) scopes (fn_attrs f) g) (\<lambda>as g. case as of None \<Rightarrow> Ok None g | Some as \<Rightarrow>
       Ok (Some scopes) (add_module_op (FuncM (f\<lparr>fn_attrs := as\<rparr>)) g)))
   | StructNode ev l name vs \<Rightarrow>
       thenP (genStruct ev name vs g) (\<lambda>ok g. Ok (if ok then Some scopes else None) g)
   | ScopeNode l name handlers key \<Rightarrow>
       Ok (Some (insert_or_assign name (ScopeAttr handlers key) scopes)) g
   | GlobalNode l name d \<Rightarrow>
       thenP (genGlobal d g) (\<lambda>o' g. case o' of None \<Rightarrow> Ok None g | Some gl \<Rightarrow>
       thenP (setAttributes (rec_attrs r) scopes (gl_attrs gl) g) (\<lambda>as g. case as of None \<Rightarrow> Ok None g | Some as \<Rightarrow>
       Ok (Some scopes) (add_module_op (GlobalM (gl\<lparr>gl_attrs := as\<rparr>)) g))))"

fun genRecords :: "location module_ast \<Rightarrow> attr smap \<Rightarrow> gen \<Rightarrow> (bool, gen) outcome" where
  "genRecords [] scopes g = Ok True g"
| "genRecords (r # rs) scopes g =
     thenP (genRecord r scopes g) (\<lambda>s g. case s of None \<Rightarrow> Ok False g | Some scopes \<Rightarrow> genRecords rs scopes g)"

text \<open>\<^verbatim>\<open>mlirGen(ModuleAST &)\<close>: the operations of the module, or null.\<close>

definition mlirGen :: "location module_ast \<Rightarrow> (module_op list option, gen) outcome" where
  "mlirGen m =
     thenP (genRecords m [] (MLIRGenImpl\<lparr>symtab := [[]]\<rparr>)) (\<lambda>ok g.
       Ok (if ok then Some (module_ops g) else None) (close_scope g))"

end
