(* ===== verification/Ep2_SSA.thy ===== *)
theory Ep2_SSA
  imports Ep2_MLIRGen
begin

text \<open>
  What the code generator produces: an invariant of its state, a rule for each of its functions
  that says the invariant is kept and the returned value is visible, and from them the form of every
  generated module.
\<close>

named_theorems gen_rules \<open>rules that take a generator step\<close>

section \<open>The invariant of the generator\<close>

text \<open>
  \<open>D\<close> are the values defined before the current block, \<open>lo\<close> the number of values there were
  when it was opened.
\<close>

definition all_results :: "op list \<Rightarrow> val list" where
  "all_results ops = concat (map op_results (walk_ops ops))"

definition vis :: "val set \<Rightarrow> gen \<Rightarrow> val set" where
  "vis D g = D \<union> block_defs (block g)"

definition syms_in :: "val set \<Rightarrow> (string \<times> sym) list list \<Rightarrow> bool" where
  "syms_in V ss \<longleftrightarrow> (\<forall>s \<in> set ss. \<forall>e \<in> set s. sym_value (snd e) \<in> V)"

definition table_in :: "val set \<Rightarrow> val option smap \<Rightarrow> bool" where
  "table_in V t \<longleftrightarrow> (\<forall>e \<in> set t. \<forall>v. snd e = Some v \<longrightarrow> v \<in> V)"

definition is_access :: "opkind \<Rightarrow> bool" where
  "is_access k \<longleftrightarrow> (\<exists>i. k = StructAccessOp i)"

text \<open>Kinds of operations that need no regions and end no block.\<close>

definition plain :: "opkind \<Rightarrow> val list \<Rightarrow> bool" where
  [simp]: "plain k xs \<longleftrightarrow> (case k of TerminateOp \<Rightarrow> False | YieldOp \<Rightarrow> False | IfOp \<Rightarrow> False
     | StructAccessOp i \<Rightarrow> xs \<noteq> [] | _ \<Rightarrow> True)"

definition closed_in :: "val set \<Rightarrow> gen \<Rightarrow> bool" where
  "closed_in V g \<longleftrightarrow> (\<forall>v \<in> V. \<forall>k xs. defining_op g v = Some (k, xs) \<longrightarrow>
     set xs \<subseteq> V \<and> (is_access k \<longrightarrow> xs \<noteq> []))"

definition gen_inv :: "val set \<Rightarrow> nat \<Rightarrow> gen \<Rightarrow> bool" where
  "gen_inv D lo g \<longleftrightarrow>
     ssa_ops D (block g) \<and> list_all wf_op (block g) \<and> distinct (all_results (block g)) \<and>
     set (all_results (block g)) \<subseteq> {lo..<length (vinfo g)} \<and>
     D \<subseteq> {..<lo} \<and> lo \<le> length (vinfo g) \<and>
     syms_in (vis D g) (symtab g) \<and> (\<forall>t ts. updtabs g = t # ts \<longrightarrow> table_in (vis D g) t) \<and>
     closed_in (vis D g) g \<and> symtab g \<noteq> []"

text \<open>What a step leaves alone: outer scopes and tables, the definitions of existing values.\<close>

definition frame :: "gen \<Rightarrow> gen \<Rightarrow> bool" where
  "frame g0 g \<longleftrightarrow>
     tl (symtab g) = tl (symtab g0) \<and> tl (updtabs g) = tl (updtabs g0) \<and>
     (updtabs g = []) = (updtabs g0 = []) \<and>
     length (vinfo g0) \<le> length (vinfo g) \<and>
     (\<forall>v < length (vinfo g0). defining_op g v = defining_op g0 v) \<and>
     structMap g = structMap g0 \<and> functionMap g = functionMap g0 \<and> module_ops g = module_ops g0"

definition st :: "val set \<Rightarrow> nat \<Rightarrow> gen \<Rightarrow> gen \<Rightarrow> bool" where
  "st D lo g0 g \<longleftrightarrow> gen_inv D lo g \<and> frame g0 g \<and> vis D g0 \<subseteq> vis D g"

lemma frame_refl [simp]: "frame g g"
  by (simp add: frame_def)

lemma st_refl: "gen_inv D lo g \<Longrightarrow> st D lo g g"
  by (simp add: st_def)

lemma walk_ops_append [simp]: "walk_ops (ps @ qs) = walk_ops ps @ walk_ops qs"
  by (induction ps) auto

lemma all_results_append [simp]: "all_results (ps @ qs) = all_results ps @ all_results qs"
  by (simp add: all_results_def)

lemma block_defs_append [simp]: "block_defs (ps @ qs) = block_defs ps \<union> block_defs qs"
  by (simp add: block_defs_def)

lemma block_defs_single [simp]: "block_defs [Op k xs rs regs] = set rs"
  by (simp add: block_defs_def)

lemma in_walk_op: "p \<in> set (walk_op p)"
  by (cases p) auto

lemma block_defs_results: "block_defs ops \<subseteq> set (all_results ops)"
proof (induction ops)
  case (Cons p ops)
  then show ?case
    using in_walk_op [of p] by (auto simp: block_defs_def all_results_def)
qed (simp add: block_defs_def)

lemma vis_less:
  assumes "gen_inv D lo g" and "v \<in> vis D g"
  shows "v < length (vinfo g)"
proof -
  have "block_defs (block g) \<subseteq> {lo..<length (vinfo g)}"
    using block_defs_results assms(1) unfolding gen_inv_def by (blast dest: subset_trans)
  with assms show ?thesis
    by (auto simp: gen_inv_def vis_def)
qed

definition op_results_of :: "op list list \<Rightarrow> val list" where
  "op_results_of regs = concat (map all_results regs)"

lemma walk_regions_results: "concat (map op_results (walk_regions regs)) = op_results_of regs"
  by (induction regs) (auto simp: op_results_of_def all_results_def)

lemma all_results_single [simp]: "all_results [Op k xs rs regs] = op_results_of regs @ rs"
  by (simp add: all_results_def walk_regions_results)

lemma op_results_of_simps [simp]:
  "op_results_of [] = []" "op_results_of (r # rs) = all_results r @ op_results_of rs"
  by (auto simp: op_results_of_def)

text \<open>An operation with regions whose values were numbered after those of the block.\<close>

lemma create_regions:
  assumes st: "st D lo g0 g" and later: "frame g g'" and same: "block g' = block g"
    and tabs: "symtab g' = symtab g" "updtabs g' = updtabs g"
    and ops: "set xs \<subseteq> vis D g" "is_access k \<Longrightarrow> xs \<noteq> []" "\<And>rs. length rs = length ts \<Longrightarrow> wf_op (Op k xs rs regs)"
    and regs: "ssa_regions (vis D g) regs" "distinct (op_results_of regs)"
      "set (op_results_of regs) \<subseteq> {length (vinfo g)..<length (vinfo g')}"
    and Q: "\<And>rs g''. st D lo g0 g'' \<Longrightarrow> vis D g \<subseteq> vis D g'' \<Longrightarrow> set rs \<subseteq> vis D g'' \<Longrightarrow>
      length rs = length ts \<Longrightarrow> Q rs g''"
  shows "safe (create k xs ts regs g') Q"
proof -
  let ?n = "length (vinfo g')"
  let ?rs = "[?n..<?n + length ts]"
  let ?g = "g'\<lparr>vinfo := vinfo g' @ map (\<lambda>t. (t, Some (k, xs))) ts, block := block g' @ [Op k xs ?rs regs]\<rparr>"
  from st have inv: "gen_inv D lo g" by (simp add: st_def)
  have vis: "vis D ?g = vis D g \<union> set ?rs"
    by (auto simp: vis_def same)
  have len: "length (vinfo g) \<le> ?n"
    using later by (simp add: frame_def)
  have old: "defining_op ?g v = defining_op g v" if "v \<in> vis D g" for v
    using vis_less [OF inv that] len later by (simp add: defining_op_def frame_def nth_append)
  have new: "defining_op ?g v = Some (k, xs)" if "v \<in> set ?rs" for v
    using that by (auto simp: defining_op_def nth_append)
  have "set ?rs \<inter> vis D g = {}"
    using vis_less [OF inv] len by fastforce
  then have "ssa_ops D (block ?g)"
    using inv ops regs by (auto simp: gen_inv_def ssa_ops_append same vis_def)
  moreover have "list_all wf_op (block ?g)"
    using inv ops(3) by (simp add: gen_inv_def same)
  moreover have "distinct (all_results (block ?g))" "set (all_results (block ?g)) \<subseteq> {lo..<length (vinfo ?g)}"
    using inv regs len by (fastforce simp: gen_inv_def same)+
  moreover have "closed_in (vis D ?g) ?g"
    using inv ops unfolding vis gen_inv_def closed_in_def
    by (smt (verit) Un_iff new old option.inject prod.inject sup.coboundedI1)
  moreover have "syms_in (vis D ?g) (symtab ?g)"
    using inv unfolding vis by (auto simp: gen_inv_def syms_in_def tabs)
  moreover have "\<forall>t ts. updtabs ?g = t # ts \<longrightarrow> table_in (vis D ?g) t"
    using inv unfolding vis by (fastforce simp: gen_inv_def table_in_def tabs)
  ultimately have "gen_inv D lo ?g"
    using inv len unfolding gen_inv_def by (simp add: tabs)
  moreover have "frame g0 ?g"
  proof -
    have "defining_op ?g v = defining_op g' v" if "v < ?n" for v
      using that by (simp add: defining_op_def nth_append)
    then show ?thesis
      using st later by (auto simp: st_def frame_def)
  qed
  ultimately have "st D lo g0 ?g"
    using st by (auto simp: st_def vis)
  then show ?thesis
    using Q [of ?g ?rs] by (simp add: create_def Let_def vis)
qed

lemma create_rule [gen_rules]:
  assumes "st D lo g0 g" and "set xs \<subseteq> vis D g" and "plain k xs"
    and "\<And>rs g''. st D lo g0 g'' \<Longrightarrow> vis D g \<subseteq> vis D g'' \<Longrightarrow> set rs \<subseteq> vis D g'' \<Longrightarrow>
      length rs = length ts \<Longrightarrow> Q rs g''"
  shows "safe (create k xs ts [] g) Q"
proof (rule create_regions [OF assms(1)])
  show "wf_op (Op k xs rs [])" for rs
    using assms(3) by (auto split: opkind.splits)
qed (use assms in \<open>auto simp: is_access_def\<close>)

lemma create1_rule [gen_rules]:
  assumes "st D lo g0 g" and "set xs \<subseteq> vis D g" and "plain k xs"
    and "\<And>v g''. st D lo g0 g'' \<Longrightarrow> vis D g \<subseteq> vis D g'' \<Longrightarrow> v \<in> vis D g'' \<Longrightarrow> Q v g''"
  shows "safe (create1 k xs t g) Q"
  unfolding create1_def safe_thenP
  by (rule create_rule [OF assms(1-3)]) (auto simp: length_Suc_conv intro: assms(4))

section \<open>Steps keep the invariant\<close>

text \<open>
  A rule per function: from a state reached within \<open>st D lo g0\<close>, it reaches another one, no
  visible value is lost and the value it returns is visible.
\<close>

lemma st_gen_inv: "st D lo g0 g \<Longrightarrow> gen_inv D lo g"
  by (simp add: st_def)

lemma lookup_scopes_in: "lookup_scopes ss k = Some e \<Longrightarrow> syms_in V ss \<Longrightarrow> sym_value e \<in> V"
  by (induction ss) (auto simp: syms_in_def split: option.splits dest!: map_of_SomeD)

lemma lookup_vis: "st D lo g0 g \<Longrightarrow> lookup g k = Some e \<Longrightarrow> sym_value e \<in> vis D g"
  using lookup_scopes_in by (auto simp: lookup_def st_def gen_inv_def)

lemma st_gerrs: "st D lo g0 g \<Longrightarrow> st D lo g0 (g\<lparr>gerrs := es\<rparr>)"
  by (simp add: st_def gen_inv_def frame_def vis_def closed_in_def defining_op_def)

lemma vis_gerrs [simp]: "vis D (g\<lparr>gerrs := es\<rparr>) = vis D g"
  by (simp add: vis_def)

lemma vis_symtab [simp]: "vis D (g\<lparr>symtab := es\<rparr>) = vis D g"
  by (simp add: vis_def)

lemma vis_updtabs [simp]: "vis D (g\<lparr>updtabs := es\<rparr>) = vis D g"
  by (simp add: vis_def)

lemma emitError_rule [gen_rules]:
  assumes "st D lo g0 g" and "\<And>g'. st D lo g0 g' \<Longrightarrow> vis D g \<subseteq> vis D g' \<Longrightarrow> Q None g'"
  shows "safe (emitError msg g) Q"
  using assms st_gerrs by (auto simp: emitError_def)

lemma st_insert_sym:
  assumes "st D lo g0 g" and "sym_value e \<in> vis D g"
  shows "st D lo g0 (insert_sym k e g)" and "vis D (insert_sym k e g) = vis D g"
proof -
  obtain s ss where "symtab g = s # ss"
    using assms(1) by (cases "symtab g") (auto simp: st_def gen_inv_def)
  with assms show "st D lo g0 (insert_sym k e g)"
    by (auto simp: st_def gen_inv_def frame_def insert_sym_def vis_def closed_in_def defining_op_def syms_in_def)
qed (simp add: insert_sym_def)

lemma set_insert_or_assign: "set (insert_or_assign k v m) \<subseteq> insert (k, v) (set m)"
  by (induction m) (auto split: if_splits)

lemma st_insert_table:
  assumes "st D lo g0 g" and "v \<in> vis D g" and "updtabs g = t # ts"
  shows "st D lo g0 (g\<lparr>updtabs := insert_or_assign k (Some v) t # ts\<rparr>)"
proof -
  have "table_in (vis D g) (insert_or_assign k (Some v) t)"
    using assms set_insert_or_assign [of k "Some v" t] by (fastforce simp: st_def gen_inv_def table_in_def)
  with assms show ?thesis
    by (auto simp: st_def gen_inv_def frame_def vis_def closed_in_def defining_op_def)
qed

lemma declare_rule [gen_rules]:
  assumes "st D lo g0 g" and "v \<in> vis D g"
    and "\<And>ok g'. st D lo g0 g' \<Longrightarrow> vis D g \<subseteq> vis D g' \<Longrightarrow> Q ok g'"
  shows "safe (declare_var n t v g) Q"
  using assms by (auto simp: declare_var_def st_insert_sym)

lemma tryCast_rule [gen_rules]:
  assumes "st D lo g0 g" and "v \<in> vis D g"
    and "\<And>v g'. st D lo g0 g' \<Longrightarrow> vis D g \<subseteq> vis D g' \<Longrightarrow> v \<in> vis D g' \<Longrightarrow> Q v g'"
  shows "safe (tryCast v t g) Q"
  using assms unfolding tryCast_def
  by (auto split: ty.splits option.splits intro!: create1_rule)

lemma update_var_rule [gen_rules]:
  assumes "st D lo g0 g" and "v \<in> vis D g"
    and "\<And>g'. st D lo g0 g' \<Longrightarrow> vis D g \<subseteq> vis D g' \<Longrightarrow> Q () g'"
  shows "safe (update_var n v g) Q"
  unfolding update_var_def Let_def case_prod_unfold safe_thenP
proof (rule tryCast_rule [OF assms(1,2)], unfold safe_Ok)
  fix v' g' and t d
  assume a: "st D lo g0 g'" "vis D g \<subseteq> vis D g'" "v' \<in> vis D g'"
  let ?g = "insert_sym n \<lparr>sym_value = v', sym_type = t, sym_decl = d\<rparr> g'"
  have "st D lo g0 ?g" "vis D ?g = vis D g'"
    using a by (simp_all add: st_insert_sym)
  then have "Q () (case updtabs ?g of [] \<Rightarrow> ?g
      | t # ts \<Rightarrow> ?g\<lparr>updtabs := insert_or_assign n (Some v') t # ts\<rparr>)"
    using a by (auto split: list.split intro!: assms(3) st_insert_table)
  then show "Q () (case updtabs ?g of [] \<Rightarrow> ?g
      | t # ts \<Rightarrow> ?g\<lparr>updtabs := insert_or_assign n (Some v') t # ts\<rparr>)" .
qed

lemma update_expr_rule [gen_rules]:
  assumes "st D lo g0 g" and "v \<in> vis D g"
    and "\<And>g'. st D lo g0 g' \<Longrightarrow> vis D g \<subseteq> vis D g' \<Longrightarrow> Q () g'"
  shows "safe (update_expr e v g) Q"
  using assms by (cases "(e, v, g)" rule: update_expr.cases) (auto intro!: update_var_rule)

text \<open>\<^verbatim>\<open>getVarType\<close> only reports errors.\<close>

lemma getVarType_state: "safe (getVarType t g) (\<lambda>r g'. \<exists>es. g' = g\<lparr>gerrs := es\<rparr>)"
proof (induction "size t" arbitrary: t g rule: less_induct)
  case less
  obtain name params where t: "t = VarType name params"
    by (cases t)
  have self: "\<exists>es. g = g\<lparr>gerrs := es\<rparr>"
    by (rule exI [of _ "gerrs g"]) simp
  have sub: "safe (getVarType u h) R"
    if "TypeParam (Some u) \<in> set params" "\<And>r es. R r (h\<lparr>gerrs := es\<rparr>)" for u h R
    using that size_list_estimation' [of "TypeParam (Some u)" params "size (TypeParam (Some u))" size] t
    by (intro safe_mono [OF less.hyps]) auto
  show ?case
    unfolding t using self
    by (auto simp: emitError_def split: list.split var_param.split option.split intro!: sub)
qed

lemma getVarType_rule [gen_rules]:
  assumes "st D lo g0 g" and "\<And>t g'. st D lo g0 g' \<Longrightarrow> vis D g \<subseteq> vis D g' \<Longrightarrow> Q t g'"
  shows "safe (getVarType t g) Q"
  using assms st_gerrs by (intro safe_mono [OF getVarType_state]) fastforce

lemma toRValue_rule [gen_rules]:
  assumes "st D lo g0 g" and "v \<in> vis D g"
    and "\<And>v g'. st D lo g0 g' \<Longrightarrow> vis D g \<subseteq> vis D g' \<Longrightarrow> v \<in> vis D g' \<Longrightarrow> Q v g'"
  shows "safe (toRValue v t g) Q"
  using assms unfolding toRValue_def
  by (auto split: ty.splits option.splits opkind.splits intro!: create1_rule)

lemma genVariable_rule [gen_rules]:
  assumes "st D lo g0 g"
    and "\<And>v g'. st D lo g0 g' \<Longrightarrow> vis D g \<subseteq> vis D g' \<Longrightarrow> v \<in> vis D g' \<Longrightarrow> Q (Some v) g'"
    and "\<And>g'. st D lo g0 g' \<Longrightarrow> vis D g \<subseteq> vis D g' \<Longrightarrow> Q None g'"
  shows "safe (genVariable n g) Q"
  using assms lookup_vis unfolding genVariable_def
  by (auto split: option.splits intro!: emitError_rule)

lemma getStructForName_rule [gen_rules]:
  assumes "st D lo g0 g" and "\<And>s. Q s g"
  shows "safe (getStructForName n g) Q"
  using assms unfolding getStructForName_def by (auto split: option.splits)

lemma buildStructAccess_rule [gen_rules]:
  assumes "st D lo g0 g" and "v \<in> vis D g"
    and "\<And>v g'. st D lo g0 g' \<Longrightarrow> vis D g \<subseteq> vis D g' \<Longrightarrow> v \<in> vis D g' \<Longrightarrow> Q v g'"
  shows "safe (buildStructAccess v i g) Q"
  using assms unfolding buildStructAccess_def by (auto split: ty.splits intro!: create1_rule)

lemma getPathLoop_rule:
  assumes "st D lo g0 g" and "v \<in> vis D g"
    and "\<And>v g'. st D lo g0 g' \<Longrightarrow> vis D g \<subseteq> vis D g' \<Longrightarrow> v \<in> vis D g' \<Longrightarrow> Q (Some v) g'"
    and "\<And>g'. st D lo g0 g' \<Longrightarrow> vis D g \<subseteq> vis D g' \<Longrightarrow> Q None g'"
  shows "safe (getPathLoop prev xs v g) Q"
  using assms
proof (induction xs arbitrary: prev v g)
  case (Cons x xs)
  have step: "safe (getPathLoop x xs v' g') Q" if "st D lo g0 g'" "vis D g \<subseteq> vis D g'" "v' \<in> vis D g'" for v' g'
    using that Cons.prems by (intro Cons.IH) auto
  show ?case
    using Cons.prems(1,2,4)
    by (auto split: option.split
        intro!: create1_rule getStructForName_rule emitError_rule buildStructAccess_rule step)
qed auto

lemma getPath_rule [gen_rules]:
  assumes "st D lo g0 g"
    and "\<And>v g'. st D lo g0 g' \<Longrightarrow> vis D g \<subseteq> vis D g' \<Longrightarrow> v \<in> vis D g' \<Longrightarrow> Q (Some v) g'"
    and "\<And>g'. st D lo g0 g' \<Longrightarrow> vis D g \<subseteq> vis D g' \<Longrightarrow> Q None g'"
  shows "safe (getPath p l g) Q"
  using assms unfolding getPath_def
  by (auto split: list.split intro!: emitError_rule genVariable_rule getPathLoop_rule)

section \<open>Expressions and statements keep the invariant\<close>

lemma constElem_state:
  "safe (constElem v g) (\<lambda>r g'. g' = g)"
  "safe (getConstantAttr vs g) (\<lambda>r g'. g' = g)"
proof (induction v g and vs g rule: constElem_getConstantAttr.induct)
  case (6 v vs g)
  show ?case
  proof (cases "constElem v g")
    case (Ok at g')
    with "6.IH"(1) have "g' = g"
      by simp
    with "6.IH"(2) [of at g' "fst at" "snd at" g'] show ?thesis
      by (auto simp: Ok split: prod.split elim!: safe_mono)
  qed (use "6.IH"(1) in auto)
qed (auto elim!: safe_mono)

lemma getConstantAttr_rule [gen_rules]: "(\<And>r. Q r g) \<Longrightarrow> safe (getConstantAttr vs g) Q"
  by (rule safe_mono [OF constElem_state(2)]) simp

lemma all_values_rule [gen_rules]:
  assumes "\<And>vs. xs = map Some vs \<Longrightarrow> Q vs g"
  shows "safe (all_values xs g) Q"
  using assms
proof (induction xs arbitrary: Q)
  case (Cons x xs)
  show ?case
    using Cons.prems by (cases x) (auto intro!: Cons.IH)
qed simp

lemma ret_value_rule [gen_rules]: "safe m (\<lambda>v g. Q (Some v) g) \<Longrightarrow> safe (ret_value m) Q"
  by (simp add: ret_value_def)

lemma genNop_rule [gen_rules]:
  assumes "st D lo g0 g"
    and "\<And>v g'. st D lo g0 g' \<Longrightarrow> vis D g \<subseteq> vis D g' \<Longrightarrow> v \<in> vis D g' \<Longrightarrow> Q (Some v) g'"
  shows "safe (genNop g) Q"
  using assms unfolding genNop_def by (auto intro!: create1_rule)

lemma genStructLiteral_rule [gen_rules]:
  assumes "st D lo g0 g"
    and "\<And>v g'. st D lo g0 g' \<Longrightarrow> vis D g \<subseteq> vis D g' \<Longrightarrow> v \<in> vis D g' \<Longrightarrow> Q (Some v) g'"
  shows "safe (genStructLiteral vs g) Q"
  using assms unfolding genStructLiteral_def
  by (auto intro!: getConstantAttr_rule create1_rule)

lemma castConstants_rule [gen_rules]:
  assumes "st D lo g0 g" and "l \<in> vis D g" and "r \<in> vis D g"
    and "\<And>l r g'. st D lo g0 g' \<Longrightarrow> vis D g \<subseteq> vis D g' \<Longrightarrow> l \<in> vis D g' \<Longrightarrow> r \<in> vis D g' \<Longrightarrow> Q (l, r) g'"
  shows "safe (castConstants l r g) Q"
  using assms unfolding castConstants_def by (auto intro!: tryCast_rule)

lemma access_operand:
  "st D lo g0 g \<Longrightarrow> v \<in> vis D g \<Longrightarrow> defining_op g v = Some (StructAccessOp i, xs) \<Longrightarrow> hd xs \<in> vis D g"
  by (cases xs) (fastforce simp: st_def gen_inv_def closed_in_def is_access_def)+

lemma genAssign_rule [gen_rules]:
  assumes "st D lo g0 g" and "l \<in> vis D g" and "r \<in> vis D g"
    and "\<And>v g'. st D lo g0 g' \<Longrightarrow> vis D g \<subseteq> vis D g' \<Longrightarrow> v \<in> vis D g' \<Longrightarrow> Q (Some v) g'"
  shows "safe (genAssign e l r g) Q"
  using assms(1-3) access_operand [OF assms(1,2)] unfolding genAssign_def
  by (auto split: option.split opkind.split
      intro!: create1_rule create_rule update_expr_rule assms(4))

lemma genBinary_rule [gen_rules]:
  assumes "st D lo g0 g" and "l \<in> vis D g" and "r \<in> vis D g"
    and "\<And>v g'. st D lo g0 g' \<Longrightarrow> vis D g \<subseteq> vis D g' \<Longrightarrow> v \<in> vis D g' \<Longrightarrow> Q (Some v) g'"
    and "\<And>g'. st D lo g0 g' \<Longrightarrow> vis D g \<subseteq> vis D g' \<Longrightarrow> Q None g'"
  shows "safe (genBinary p e l r g) Q"
  using assms unfolding genBinary_def Let_def
  by (auto intro!: create1_rule genAssign_rule emitError_rule)

lemma port_values_vis:
  assumes "st D lo g0 g" and "map (port_value g) ks = map Some vs"
  shows "set vs \<subseteq> vis D g"
proof
  fix v assume "v \<in> set vs"
  then have "Some v \<in> set (map (port_value g) ks)"
    using assms(2) by simp
  then show "v \<in> vis D g"
    using lookup_vis [OF assms(1)] by (auto simp: port_value_def eq_commute [of "Some v"])
qed

lemma genCommand_rule [gen_rules]:
  assumes "st D lo g0 g"
    and "\<And>v g'. st D lo g0 g' \<Longrightarrow> vis D g \<subseteq> vis D g' \<Longrightarrow> v \<in> vis D g' \<Longrightarrow> Q (Some v) g'"
  shows "safe (genCommand c args ins outs g) Q"
  unfolding genCommand_def safe_thenP
  by (rule all_values_rule, rule create_rule [OF assms(1)])
    (auto dest!: port_values_vis [OF assms(1), of "ins @ outs", simplified]
      intro!: genNop_rule assms(2))

lemma genExtract_rule [gen_rules]:
  assumes "st D lo g0 g" and "\<And>v. caller = Some v \<Longrightarrow> v \<in> vis D g" and "set operands \<subseteq> vis D g"
    and "\<And>v g'. st D lo g0 g' \<Longrightarrow> vis D g \<subseteq> vis D g' \<Longrightarrow> v \<in> vis D g' \<Longrightarrow> Q (Some v) g'"
    and "\<And>g'. st D lo g0 g' \<Longrightarrow> vis D g \<subseteq> vis D g' \<Longrightarrow> Q None g'"
  shows "safe (genExtract args caller operands g) Q"
  using assms(1-3)
  by (cases "(args, caller, operands, g)" rule: genExtract.cases)
    (auto split: option.split intro!: emitError_rule create1_rule create_rule update_expr_rule toRValue_rule
      genNop_rule ret_value_rule assms(4,5))

lemma genEmit_rule [gen_rules]:
  assumes "st D lo g0 g" and "\<And>v. caller = Some v \<Longrightarrow> v \<in> vis D g" and "set operands \<subseteq> vis D g"
    and "\<And>v g'. st D lo g0 g' \<Longrightarrow> vis D g \<subseteq> vis D g' \<Longrightarrow> v \<in> vis D g' \<Longrightarrow> Q (Some v) g'"
    and "\<And>g'. st D lo g0 g' \<Longrightarrow> vis D g \<subseteq> vis D g' \<Longrightarrow> Q None g'"
  shows "safe (genEmit caller operands g) Q"
  using assms(1-3)
  by (cases "(caller, operands, g)" rule: genEmit.cases)
    (auto split: option.split intro!: emitError_rule create1_rule create_rule update_expr_rule toRValue_rule
      genNop_rule ret_value_rule assms(4,5))

lemma genLookup_rule [gen_rules]:
  assumes "st D lo g0 g" and "\<And>v. caller = Some v \<Longrightarrow> v \<in> vis D g" and "set operands \<subseteq> vis D g"
    and "\<And>v g'. st D lo g0 g' \<Longrightarrow> vis D g \<subseteq> vis D g' \<Longrightarrow> v \<in> vis D g' \<Longrightarrow> Q (Some v) g'"
    and "\<And>g'. st D lo g0 g' \<Longrightarrow> vis D g \<subseteq> vis D g' \<Longrightarrow> Q None g'"
  shows "safe (genLookup caller operands g) Q"
  using assms(1-3)
  by (cases "(caller, operands, g)" rule: genLookup.cases)
    (auto split: option.split intro!: emitError_rule create1_rule create_rule update_expr_rule toRValue_rule
      genNop_rule ret_value_rule assms(4,5))

lemma genUpdate_rule [gen_rules]:
  assumes "st D lo g0 g" and "\<And>v. caller = Some v \<Longrightarrow> v \<in> vis D g" and "set operands \<subseteq> vis D g"
    and "\<And>v g'. st D lo g0 g' \<Longrightarrow> vis D g \<subseteq> vis D g' \<Longrightarrow> v \<in> vis D g' \<Longrightarrow> Q (Some v) g'"
    and "\<And>g'. st D lo g0 g' \<Longrightarrow> vis D g \<subseteq> vis D g' \<Longrightarrow> Q None g'"
  shows "safe (genUpdate caller operands g) Q"
  using assms(1-3)
  by (cases "(caller, operands, g)" rule: genUpdate.cases)
    (auto split: option.split intro!: emitError_rule create1_rule create_rule update_expr_rule toRValue_rule
      genNop_rule ret_value_rule assms(4,5), (blast dest: subsetD)+)

lemma genBitSet_rule [gen_rules]:
  assumes "st D lo g0 g" and "\<And>v. caller = Some v \<Longrightarrow> v \<in> vis D g" and "set operands \<subseteq> vis D g"
    and "\<And>v g'. st D lo g0 g' \<Longrightarrow> vis D g \<subseteq> vis D g' \<Longrightarrow> v \<in> vis D g' \<Longrightarrow> Q (Some v) g'"
    and "\<And>g'. st D lo g0 g' \<Longrightarrow> vis D g \<subseteq> vis D g' \<Longrightarrow> Q None g'"
  shows "safe (genBitSet pl path caller operands g) Q"
  using assms(1-3)
  by (cases "(pl, path, caller, operands, g)" rule: genBitSet.cases)
    (auto split: option.split intro!: emitError_rule create1_rule create_rule update_expr_rule toRValue_rule
      genNop_rule ret_value_rule assms(4,5))

lemma genBitGet_rule [gen_rules]:
  assumes "st D lo g0 g" and "\<And>v. caller = Some v \<Longrightarrow> v \<in> vis D g" and "set operands \<subseteq> vis D g"
    and "\<And>v g'. st D lo g0 g' \<Longrightarrow> vis D g \<subseteq> vis D g' \<Longrightarrow> v \<in> vis D g' \<Longrightarrow> Q (Some v) g'"
    and "\<And>g'. st D lo g0 g' \<Longrightarrow> vis D g \<subseteq> vis D g' \<Longrightarrow> Q None g'"
  shows "safe (genBitGet caller operands g) Q"
  using assms(1-3)
  by (cases "(caller, operands, g)" rule: genBitGet.cases)
    (auto split: option.split intro!: emitError_rule create1_rule create_rule update_expr_rule toRValue_rule
      genNop_rule ret_value_rule assms(4,5))

lemma genUserCall_rule [gen_rules]:
  assumes "st D lo g0 g" and "set operands \<subseteq> vis D g"
    and "\<And>v g'. st D lo g0 g' \<Longrightarrow> vis D g \<subseteq> vis D g' \<Longrightarrow> v \<in> vis D g' \<Longrightarrow> Q (Some v) g'"
    and "\<And>g'. st D lo g0 g' \<Longrightarrow> vis D g \<subseteq> vis D g' \<Longrightarrow> Q None g'"
  shows "safe (genUserCall callee operands g) Q"
  using assms(1,2) unfolding genUserCall_def
  by (auto split: option.split list.split intro!: emitError_rule create1_rule ret_value_rule assms(3,4))

lemma genCallee_rule [gen_rules]:
  assumes "st D lo g0 g" and "\<And>v. caller = Some v \<Longrightarrow> v \<in> vis D g" and "set operands \<subseteq> vis D g"
    and "\<And>v g'. st D lo g0 g' \<Longrightarrow> vis D g \<subseteq> vis D g' \<Longrightarrow> v \<in> vis D g' \<Longrightarrow> Q (Some v) g'"
    and "\<And>g'. st D lo g0 g' \<Longrightarrow> vis D g \<subseteq> vis D g' \<Longrightarrow> Q None g'"
  shows "safe (genCallee pl path args callee caller operands g) Q"
  unfolding genCallee_def
  by (simp add: assms genExtract_rule [OF assms] genEmit_rule [OF assms] genLookup_rule [OF assms]
      genUpdate_rule [OF assms] genBitSet_rule [OF assms] genBitGet_rule [OF assms]
      genUserCall_rule [OF assms(1,3-5)])

lemma genArgs_rule:
  assumes "st D lo g0 g"
    and "\<And>e g Q. e \<in> set es \<Longrightarrow> st D lo g0 g \<Longrightarrow>
      (\<And>v g'. st D lo g0 g' \<Longrightarrow> vis D g \<subseteq> vis D g' \<Longrightarrow> v \<in> vis D g' \<Longrightarrow> Q (Some v) g') \<Longrightarrow>
      (\<And>g'. st D lo g0 g' \<Longrightarrow> vis D g \<subseteq> vis D g' \<Longrightarrow> Q None g') \<Longrightarrow> safe (genExpr e g) Q"
    and "\<And>vs g'. st D lo g0 g' \<Longrightarrow> vis D g \<subseteq> vis D g' \<Longrightarrow> set vs \<subseteq> vis D g' \<Longrightarrow> Q (Some vs) g'"
    and "\<And>g'. st D lo g0 g' \<Longrightarrow> vis D g \<subseteq> vis D g' \<Longrightarrow> Q None g'"
  shows "safe (genArgs es g) Q"
  using assms
proof (induction es arbitrary: g Q)
  case (Cons e es)
  show ?case
    unfolding genArgs.simps safe_thenP
  proof (rule Cons.prems(2) [of e, OF _ Cons.prems(1)])
    fix v g' assume a: "st D lo g0 g'" "vis D g \<subseteq> vis D g'" "v \<in> vis D g'"
    have "safe (genArgs es g') (\<lambda>vs g. safe (Ok (map_option (\<lambda>vs. v # vs) vs) g) Q)"
      by (rule Cons.IH [OF a(1)]) (use a in \<open>auto intro!: Cons.prems(2-4)\<close>)
    then show "safe (case Some v of None \<Rightarrow> Ok None g'
        | Some v \<Rightarrow> thenP (genArgs es g') (\<lambda>vs g. Ok (map_option (\<lambda>vs. v # vs) vs) g)) Q"
      by simp
  qed (use Cons.prems(4) in auto)
qed simp

lemma genInits_rule:
  assumes "st D lo g0 g"
    and "\<And>e g Q. e \<in> set es \<Longrightarrow> st D lo g0 g \<Longrightarrow>
      (\<And>v g'. st D lo g0 g' \<Longrightarrow> vis D g \<subseteq> vis D g' \<Longrightarrow> v \<in> vis D g' \<Longrightarrow> Q (Some v) g') \<Longrightarrow>
      (\<And>g'. st D lo g0 g' \<Longrightarrow> vis D g \<subseteq> vis D g' \<Longrightarrow> Q None g') \<Longrightarrow> safe (genExpr e g) Q"
    and "\<And>vs g'. st D lo g0 g' \<Longrightarrow> vis D g \<subseteq> vis D g' \<Longrightarrow> set vs \<subseteq> vis D g' \<Longrightarrow> Q vs g'"
  shows "safe (genInits es g) Q"
  using assms
proof (induction es arbitrary: g Q)
  case (Cons e es)
  have rest: "safe (genInits es g') (\<lambda>vs g. Q (v # vs) g)"
    if "st D lo g0 g'" "vis D g \<subseteq> vis D g'" "v \<in> vis D g'" for v g'
    by (rule Cons.IH [OF that(1)]) (use that in \<open>auto intro!: Cons.prems(2,3)\<close>)
  show ?case
    unfolding genInits.simps safe_thenP
    by (rule Cons.prems(2) [of e, OF _ Cons.prems(1)]) (auto intro!: toRValue_rule rest)
qed simp

lemma genExpr_rule [gen_rules]:
  assumes "st D lo g0 g"
    and "\<And>v g'. st D lo g0 g' \<Longrightarrow> vis D g \<subseteq> vis D g' \<Longrightarrow> v \<in> vis D g' \<Longrightarrow> Q (Some v) g'"
    and "\<And>g'. st D lo g0 g' \<Longrightarrow> vis D g \<subseteq> vis D g' \<Longrightarrow> Q None g'"
  shows "safe (genExpr e g) Q"
  using assms
proof (induction e arbitrary: g Q)
  case (BinaryExpr l p a b)
  have rhs: "safe (genExpr b g1) (\<lambda>rhs g. safe (case rhs of None \<Rightarrow> Ok None g | Some rhs \<Rightarrow>
      thenP (toRValue rhs (Some (value_type g lhs)) g) (\<lambda>rhs g.
      thenP (castConstants lhs rhs g) (\<lambda>(lhs, rhs) g. genBinary q a lhs rhs g))) Q)"
    if "st D lo g0 g1" "vis D g \<subseteq> vis D g1" "lhs \<in> vis D g1" for lhs g1 q
    by (rule BinaryExpr.IH(2) [OF that(1)])
      (use that in \<open>auto intro!: toRValue_rule castConstants_rule genBinary_rule BinaryExpr.prems(2,3), (blast dest: subsetD)+\<close>)
  show ?case
    unfolding genExpr.simps genBinaryExpr_def safe_thenP
    by (rule BinaryExpr.IH(1) [OF BinaryExpr.prems(1)])
      (use BinaryExpr.prems(3) in \<open>auto intro!: toRValue_rule rhs\<close>)
next
  case (CallExpr l pl path args ins outs)
  have call: "safe (genArgs args g1) (\<lambda>ops g. safe (case ops of None \<Rightarrow> Ok None g | Some ops \<Rightarrow>
      genCallee pl path args callee caller ops g) Q)"
    if "st D lo g0 g1" "vis D g \<subseteq> vis D g1" "\<And>v. caller = Some v \<Longrightarrow> v \<in> vis D g1" for callee caller g1
    by (rule genArgs_rule [OF that(1) CallExpr.IH])
      (use that in \<open>auto intro!: genCallee_rule CallExpr.prems(2,3)\<close>)
  show ?case
    unfolding genExpr.simps genCallExpr_def safe_thenP Let_def
    by (rule getPath_rule [OF CallExpr.prems(1)])
      (auto intro!: genCommand_rule call CallExpr.prems(2,3))
next
  case (InitExpr l t vs)
  have inits: "safe (genInits vs g1) (\<lambda>values g. safe (ret_value (create1 InitOp values type g)) Q)"
    if "st D lo g0 g1" "vis D g \<subseteq> vis D g1" for type g1
    by (rule genInits_rule [OF that(1) InitExpr.IH])
      (use that in \<open>auto intro!: ret_value_rule create1_rule InitExpr.prems(2)\<close>)
  show ?case
    unfolding genExpr.simps genInitExpr_def safe_thenP
    by (rule getVarType_rule [OF InitExpr.prems(1)])
      (use InitExpr.prems(3) in \<open>auto split: option.split intro!: emitError_rule inits\<close>)
qed (auto simp: genNumber_def genAtomLiteral_def genPortLiteral_def intro!: emitError_rule ret_value_rule create1_rule
      genStructLiteral_rule genVariable_rule getPath_rule)

lemma defining_op_retype [simp]:
  "defining_op (g\<lparr>vinfo := (vinfo g)[v := (t, defining_op g v)]\<rparr>) u = defining_op g u"
  by (cases "u = v"; cases "v < length (vinfo g)") (auto simp: defining_op_def list_update_beyond)

lemma st_retype:
  "st D lo g0 g \<Longrightarrow> st D lo g0 (retype_port t v g)" "vis D (retype_port t v g) = vis D g"
  by (auto simp: st_def gen_inv_def frame_def vis_def closed_in_def retype_port_def split: ty.split)

lemma checkDeclType_rule [gen_rules]:
  assumes "st D lo g0 g" and "\<And>ok g'. st D lo g0 g' \<Longrightarrow> vis D g \<subseteq> vis D g' \<Longrightarrow> Q ok g'"
  shows "safe (checkDeclType t v g) Q"
  using assms(1) unfolding checkDeclType_def Let_def
  by (auto simp: st_retype split: option.split intro!: getVarType_rule emitError_rule assms(2)) blast

lemma genInitializer_rule [gen_rules]:
  assumes "st D lo g0 g"
    and "\<And>v g'. st D lo g0 g' \<Longrightarrow> vis D g \<subseteq> vis D g' \<Longrightarrow> v \<in> vis D g' \<Longrightarrow> Q (Some v) g'"
    and "\<And>g'. st D lo g0 g' \<Longrightarrow> vis D g \<subseteq> vis D g' \<Longrightarrow> Q None g'"
  shows "safe (genInitializer t i g) Q"
  using assms(1) unfolding genInitializer_def
  by (auto split: option.split intro!: getVarType_rule emitError_rule ret_value_rule create1_rule
        genExpr_rule assms(2,3))

lemma genVarDecl_rule [gen_rules]:
  assumes "st D lo g0 g"
    and "\<And>v g'. st D lo g0 g' \<Longrightarrow> vis D g \<subseteq> vis D g' \<Longrightarrow> Q v g'"
  shows "safe (genVarDecl n t i g) Q"
  using assms(1) unfolding genVarDecl_def
  by (auto split: option.split intro!: genInitializer_rule checkDeclType_rule declare_rule assms(2))

lemma genReturn_rule [gen_rules]:
  assumes "st D lo g0 g"
    and "\<And>ok g'. st D lo g0 g' \<Longrightarrow> vis D g \<subseteq> vis D g' \<Longrightarrow> Q ok g'"
  shows "safe (genReturn r g) Q"
  using assms(1) by (cases "(r, g)" rule: genReturn.cases)
    (auto split: option.split intro!: create_rule genExpr_rule assms(2))

lemma update_all_rule:
  assumes "st D lo g0 g" and "set vs \<subseteq> vis D g"
    and "\<And>g'. st D lo g0 g' \<Longrightarrow> vis D g \<subseteq> vis D g' \<Longrightarrow> Q () g'"
  shows "safe (update_all ks vs g) Q"
  using assms
proof (induction ks arbitrary: vs g)
  case (Cons k ks)
  show ?case
    using Cons.prems(1,2) by (cases vs) (auto intro!: update_var_rule Cons.IH Cons.prems(3))
qed auto

section \<open>Conditionals\<close>

lemma st_open:
  assumes "st D lo g0 g"
  shows "st (vis D g) (length (vinfo g)) (open_branch g) (open_branch g)"
proof -
  have "vis (vis D g) (open_branch g) = vis D g"
    by (simp add: vis_def open_branch_def block_defs_def)
  with assms vis_less [OF st_gen_inv [OF assms]] show ?thesis
    by (auto simp: st_def gen_inv_def open_branch_def all_results_def syms_in_def table_in_def closed_in_def
        defining_op_def)
qed

text \<open>After a branch the tables and scopes of the enclosing block are back.\<close>

lemma st_branch:
  assumes "st V n (open_branch g) g1"
  shows "frame g (close_branch g1)" "symtab (close_branch g1) = symtab g" "updtabs (close_branch g1) = updtabs g"
  using assms by (auto simp: st_def frame_def close_branch_def close_scope_def open_branch_def defining_op_def)

lemma st_back:
  assumes "st D lo g0 g" and "frame g h" and "symtab h = symtab g" and "updtabs h = updtabs g"
  shows "st D lo g0 (h\<lparr>block := block g\<rparr>)" "vis D (h\<lparr>block := block g\<rparr>) = vis D g"
proof -
  show vis: "vis D (h\<lparr>block := block g\<rparr>) = vis D g"
    by (simp add: vis_def)
  have old: "defining_op (h\<lparr>block := block g\<rparr>) v = defining_op g v" if "v \<in> vis D g" for v
    using vis_less [OF st_gen_inv [OF assms(1)] that] assms(2) by (auto simp: frame_def defining_op_def)
  have "gen_inv D lo (h\<lparr>block := block g\<rparr>)"
    using st_gen_inv [OF assms(1)] assms(2-4) unfolding gen_inv_def vis closed_in_def frame_def
    by (auto simp: old subset_iff)
  moreover have "frame g0 (h\<lparr>block := block g\<rparr>)"
    using assms by (auto simp: st_def frame_def defining_op_def)
  ultimately show "st D lo g0 (h\<lparr>block := block g\<rparr>)"
    using assms(1) by (simp add: st_def vis)
qed

lemma keys_merge: "fst ` set (merge g from to) = fst ` set from \<union> fst ` set to"
  unfolding merge_def
proof (induction "from" arbitrary: to)
  case (Cons p "from")
  obtain k v where p: "p = (k, v)"
    by (cases p)
  show ?case
  proof (cases "map_of to k = None")
    case True
    then show ?thesis
      by (simp add: p Cons.IH keys_insert_or_assign del: not_None_eq)
  next
    case False
    then have "k \<in> fst ` set to"
      by (simp add: map_of_eq_None_iff)
    with False show ?thesis
      by (simp add: p Cons.IH insert_absorb del: not_None_eq)
  qed
qed simp

lemma table_in_insert: "table_in V t \<Longrightarrow> (\<And>v. x = Some v \<Longrightarrow> v \<in> V) \<Longrightarrow> table_in V (insert_or_assign k x t)"
  using set_insert_or_assign [of k x t] by (fastforce simp: table_in_def)

lemma table_in_merge:
  assumes "\<And>k e. lookup g k = Some e \<Longrightarrow> sym_value e \<in> V" and "table_in V to"
  shows "table_in V (merge g from to)"
  using assms(2) unfolding merge_def
proof (induction "from" arbitrary: to)
  case (Cons p "from")
  show ?case
    using assms(1) Cons.prems by (cases p) (auto intro!: Cons.IH table_in_insert simp del: not_None_eq)
qed simp

lemma yields_in:
  assumes "map (\<lambda>k. the (map_of t k)) ks = map Some vs" and "set ks \<subseteq> fst ` set t" and "table_in V t"
  shows "set vs \<subseteq> V"
proof
  fix v assume "v \<in> set vs"
  then have "Some v \<in> set (map (\<lambda>k. the (map_of t k)) ks)"
    using assms(1) by simp
  then obtain k where k: "k \<in> set ks" "the (map_of t k) = Some v"
    by auto
  with assms(2) have "map_of t k \<noteq> None"
    by (auto simp: map_of_eq_None_iff)
  with k have "(k, Some v) \<in> set t"
    by (auto dest: map_of_SomeD)
  with assms(3) show "v \<in> V"
    by (force simp: table_in_def)
qed

text \<open>What a finished branch contributes: its block and its update table.\<close>

definition branch_ok :: "val set \<Rightarrow> nat \<Rightarrow> nat \<Rightarrow> op list \<Rightarrow> val option smap \<Rightarrow> bool" where
  "branch_ok V n m ops t \<longleftrightarrow> ssa_ops V ops \<and> list_all wf_op ops \<and> distinct (all_results ops) \<and>
     set (all_results ops) \<subseteq> {n..<m} \<and> table_in (V \<union> block_defs ops) t"

lemma branch_region:
  assumes "branch_ok V n m ops t" and "set ys \<subseteq> V \<union> block_defs ops"
  shows "ssa_ops V (ops @ [Op YieldOp ys [] []])"
  using assms by (simp add: branch_ok_def ssa_ops_append)

lemma table_in_mono: "table_in V t \<Longrightarrow> V \<subseteq> W \<Longrightarrow> table_in W t"
  by (auto simp: table_in_def)

lemma safe_If: "(p \<Longrightarrow> safe a Q) \<Longrightarrow> (\<not> p \<Longrightarrow> safe b Q) \<Longrightarrow> safe (if p then a else b) Q"
  by simp

lemma finishIf_rule:
  assumes st: "st D lo g0 g" and cond: "cond \<in> vis D g"
    and h: "frame g h" "symtab h = symtab g" "updtabs h = updtabs g"
    and thn: "branch_ok (vis D g) (length (vinfo g)) n1 thenOps thenTable"
    and els: "branch_ok (vis D g) n1 (length (vinfo h)) elseOps elseTable"
    and n1: "length (vinfo g) \<le> n1" "n1 \<le> length (vinfo h)"
    and none: "\<not> hasElse \<Longrightarrow> elseOps = []"
    and Q: "\<And>g'. st D lo g0 g' \<Longrightarrow> vis D g \<subseteq> vis D g' \<Longrightarrow> Q True g'"
  shows "safe (finishIf cond hasElse (block g) thenOps thenTable elseOps elseTable h) Q"
proof -
  define et where "et = merge h thenTable elseTable"
  define tt where "tt = merge h et thenTable"
  define ks where "ks = map fst tt"
  have look: "\<And>k e. lookup h k = Some e \<Longrightarrow> sym_value e \<in> vis D g"
    using lookup_vis [OF st] h by (simp add: lookup_def)
  have tt: "table_in (vis D g \<union> block_defs thenOps) tt"
    using thn look unfolding tt_def by (auto simp: branch_ok_def intro!: table_in_merge)
  have et: "table_in (vis D g \<union> block_defs elseOps) et"
    using els look unfolding et_def by (auto simp: branch_ok_def intro!: table_in_merge)
  have keys: "set ks \<subseteq> fst ` set tt" "set ks \<subseteq> fst ` set et"
    by (auto simp: ks_def tt_def et_def keys_merge)
  define b where "b \<longleftrightarrow> hasElse \<or> ks \<noteq> []"
  have els_ops: "(if hasElse then elseOps else []) = elseOps"
    using none by auto
  have step: "safe (create IfOp [cond] ts
        ((thenOps @ [Op YieldOp ty [] []]) # (if b then [elseOps @ [Op YieldOp ey [] []]] else []))
        (h\<lparr>block := block g\<rparr>))
      (\<lambda>results g. safe (thenP (update_all ks results g) (\<lambda>_ g. Ok True g)) Q)"
    if "set ty \<subseteq> vis D g \<union> block_defs thenOps" and "set ey \<subseteq> vis D g \<union> block_defs elseOps"
      and "length ts = length ks" "length ty = length ks" "b \<Longrightarrow> length ey = length ks" for ts ty ey
  proof (rule create_regions [OF st])
    let ?regs = "(thenOps @ [Op YieldOp ty [] []]) # (if b then [elseOps @ [Op YieldOp ey [] []]] else [])"
    show "ssa_regions (vis D g) ?regs"
      using branch_region [OF thn that(1)] branch_region [OF els that(2)] by simp
    show "wf_op (Op IfOp [cond] rs ?regs)" if "length rs = length ts" for rs
      using that \<open>length ts = length ks\<close> \<open>length ty = length ks\<close> \<open>b \<Longrightarrow> length ey = length ks\<close> thn els
      by (auto simp: wf_region_snoc branch_ok_def b_def)
    show "distinct (op_results_of ?regs)"
      using thn els by (auto simp: branch_ok_def) (meson atLeastLessThan_iff leD subsetD)
    have "set (all_results thenOps) \<subseteq> {length (vinfo g)..<length (vinfo h)}"
      "set (all_results elseOps) \<subseteq> {length (vinfo g)..<length (vinfo h)}"
      using thn els n1 unfolding branch_ok_def by (meson ivl_subset order_refl subset_trans)+
    then show "set (op_results_of ?regs) \<subseteq> {length (vinfo g)..<length (vinfo (h\<lparr>block := block g\<rparr>))}"
      by simp
    show "frame g (h\<lparr>block := block g\<rparr>)"
      using h by (simp add: frame_def defining_op_def)
  qed (use cond h in \<open>auto intro!: update_all_rule Q\<close>)
  have elseYields: "safe (if b then all_values (map (\<lambda>k. the (map_of et k)) ks) h else Ok [] h) R"
    if "\<And>ey. set ey \<subseteq> vis D g \<union> block_defs elseOps \<Longrightarrow> (b \<Longrightarrow> length ey = length ks) \<Longrightarrow> R ey h" for R
    by (rule safe_If, rule all_values_rule)
      (use that yields_in [OF _ keys(2) et] in \<open>auto dest!: map_eq_imp_length_eq\<close>)
  have thenYields: "safe (all_values (map (\<lambda>k. the (map_of tt k)) ks) h) R"
    if "\<And>ty. set ty \<subseteq> vis D g \<union> block_defs thenOps \<Longrightarrow> length ty = length ks \<Longrightarrow> R ty h" for R
    by (rule all_values_rule, rule that)
      (use yields_in [OF _ keys(1) tt] in \<open>auto dest!: map_eq_imp_length_eq\<close>)
  show ?thesis
    unfolding finishIf_def Let_def et_def [symmetric]
    unfolding tt_def [symmetric]
    unfolding ks_def [symmetric]
    unfolding b_def [symmetric] els_ops safe_thenP
    by (rule safe_If, simp, unfold safe_thenP, intro thenYields elseYields step [unfolded safe_thenP])
      simp_all
qed

text \<open>A finished branch, read off its last state.\<close>

lemma branch_ok_state:
  assumes "st V n (open_branch g) g1" and "updtabs g1 \<noteq> []"
  shows "branch_ok V n (length (vinfo g1)) (block g1) (hd (updtabs g1))"
  using assms by (cases "updtabs g1") (auto simp: st_def gen_inv_def branch_ok_def vis_def)

lemma branch_tabs: "st V n (open_branch g) g1 \<Longrightarrow> updtabs g1 \<noteq> []"
  by (auto simp: st_def frame_def open_branch_def)

lemma st_reopen:
  assumes "st D lo g0 g" and "st V n (open_branch g) g1"
  shows "st (vis D g) (length (vinfo g1)) (open_branch (close_branch g1)) (open_branch (close_branch g1))"
proof -
  note prior = st_back [OF assms(1) st_branch [OF assms(2)]]
  have "open_branch ((close_branch g1)\<lparr>block := block g\<rparr>) = open_branch (close_branch g1)"
    by (simp add: open_branch_def close_branch_def close_scope_def)
  moreover have "vinfo ((close_branch g1)\<lparr>block := block g\<rparr>) = vinfo g1"
    by (simp add: close_branch_def close_scope_def)
  ultimately show ?thesis
    using st_open [OF prior(1)] prior(2) by simp
qed

lemma close_branch_vinfo [simp]: "vinfo (close_branch g) = vinfo g"
  by (simp add: close_branch_def close_scope_def)

lemma frame_trans: "frame a b \<Longrightarrow> frame b c \<Longrightarrow> frame a c"
  by (auto simp: frame_def)

lemma finish_branches:
  assumes st: "st D lo g0 g" and cond: "cond \<in> vis D g"
    and thn: "st (vis D g) (length (vinfo g)) (open_branch g) g1"
    and els: "st (vis D g) (length (vinfo g1)) (open_branch (close_branch g1)) g2"
    and none: "\<not> hasElse \<Longrightarrow> block g2 = []"
    and Q: "\<And>g'. st D lo g0 g' \<Longrightarrow> vis D g \<subseteq> vis D g' \<Longrightarrow> Q True g'"
  shows "safe (finishIf cond hasElse (block g) (block g1) (hd (updtabs g1)) (block g2) (hd (updtabs g2))
            (close_branch g2)) Q"
proof (rule finishIf_rule [OF st cond])
  show "frame g (close_branch g2)"
    using st_branch(1) [OF thn] st_branch(1) [OF els] by (rule frame_trans)
  show "symtab (close_branch g2) = symtab g" "updtabs (close_branch g2) = updtabs g"
    using st_branch(2,3) [OF thn] st_branch(2,3) [OF els] by simp_all
  show "branch_ok (vis D g) (length (vinfo g)) (length (vinfo g1)) (block g1) (hd (updtabs g1))"
    using thn branch_tabs by (blast intro: branch_ok_state)
  show "branch_ok (vis D g) (length (vinfo g1)) (length (vinfo (close_branch g2))) (block g2) (hd (updtabs g2))"
    using els branch_tabs branch_ok_state by fastforce
  show "length (vinfo g) \<le> length (vinfo g1)" "length (vinfo g1) \<le> length (vinfo (close_branch g2))"
    using st_branch(1) [OF thn] st_branch(1) [OF els] by (simp_all add: frame_def)
qed (use none Q in auto)

definition stmts_ok :: "location expr list \<Rightarrow> bool" where
  "stmts_ok es \<longleftrightarrow> (\<forall>D lo g0 g Q. st D lo g0 g \<longrightarrow>
     (\<forall>g'. st D lo g0 g' \<longrightarrow> vis D g \<subseteq> vis D g' \<longrightarrow> Q True g') \<longrightarrow> (\<forall>g'. Q False g') \<longrightarrow>
     safe (genStmts es g) Q)"

lemma genIf_rule:
  assumes "st D lo g0 g" and "\<And>ts. t = Some ts \<Longrightarrow> stmts_ok ts" and "\<And>es. f = Some es \<Longrightarrow> stmts_ok es"
    and Q: "\<And>g'. st D lo g0 g' \<Longrightarrow> vis D g \<subseteq> vis D g' \<Longrightarrow> Q True g'" "\<And>g'. Q False g'"
  shows "safe (genIf c t f g) Q"
  unfolding genIf.simps safe_thenP
proof (rule genExpr_rule [OF assms(1)])
  fix cond g' assume g': "st D lo g0 g'" "vis D g \<subseteq> vis D g'" "cond \<in> vis D g'"
  have elseBranch: "safe (case f of
            None \<Rightarrow> Ok True (open_branch (close_branch g1))
          | Some es \<Rightarrow> genStmts es (open_branch (close_branch g1))) (\<lambda>ok g2.
        safe (if \<not> ok then Ok False (close_scope g2)
        else finishIf cond (f \<noteq> None) (block g') (block g1) (hd (updtabs g1))
               (block g2) (hd (updtabs g2)) (close_branch g2)) Q)"
    if g1: "st (vis D g') (length (vinfo g')) (open_branch g') g1" for g1
  proof (cases f)
    case None
    then show ?thesis
      using finish_branches [OF g'(1,3) g1 st_reopen [OF g'(1) g1]] Q(1) g'(2)
      by (simp add: open_branch_def)
  next
    case (Some es)
    have "safe (finishIf cond True (block g') (block g1) (hd (updtabs g1)) (block g2) (hd (updtabs g2))
        (close_branch g2)) Q"
      if "st (vis D g') (length (vinfo g1)) (open_branch (close_branch g1)) g2" for g2
      by (rule finish_branches [OF g'(1,3) g1 that]) (use Q(1) g'(2) in auto)
    then show ?thesis
      using assms(3) [OF Some] st_reopen [OF g'(1) g1] Q(2) unfolding stmts_ok_def
      by (simp add: Some)
  qed
  show "safe (case Some cond of None \<Rightarrow> Ok False g' | Some cond \<Rightarrow>
     (case t of None \<Rightarrow> Crash NullDeref | Some ts \<Rightarrow>
      thenP (genStmts ts (open_branch g')) (\<lambda>ok g1.
      if \<not> ok then Ok False (close_scope g1)
      else
        thenP (case f of
            None \<Rightarrow> Ok True (open_branch (close_branch g1))
          | Some es \<Rightarrow> genStmts es (open_branch (close_branch g1))) (\<lambda>ok g2.
        if \<not> ok then Ok False (close_scope g2)
        else finishIf cond (f \<noteq> None) (block g') (block g1) (hd (updtabs g1))
               (block g2) (hd (updtabs g2)) (close_branch g2))))) Q"
    using assms(2) st_open [OF g'(1)] Q(2) elseBranch unfolding stmts_ok_def
    by (auto split: option.split)
qed (simp add: Q(2))

lemma stmts_okI: "stmts_ok es"
proof (induction "size_list size es" arbitrary: es rule: less_induct)
  case less
  show ?case
  proof (cases es)
    case Nil
    then show ?thesis
      by (simp add: stmts_ok_def)
  next
    case (Cons e es')
    have tail: "safe (genStmts es' g') Q"
      if "st D lo g0 g'" "\<And>g'. st D lo g0 g' \<Longrightarrow> vis D g \<subseteq> vis D g' \<Longrightarrow> Q True g'" "\<And>g'. Q False g'"
        "vis D g \<subseteq> vis D g'" for D lo g0 g g' Q
      using less [of es'] that unfolding stmts_ok_def by (simp add: Cons) (meson subset_trans)
    have stmt: "safe (case e of
         VarDeclExpr l n t i \<Rightarrow> thenP (genVarDecl n t i g) (\<lambda>v g. Ok (v \<noteq> None) g)
       | ReturnExpr l r \<Rightarrow> thenP (genReturn r g) (\<lambda>_ g. Ok True g)
       | IfElseExpr l c t f \<Rightarrow> genIf c t f g
       | _ \<Rightarrow> thenP (genExpr e g) (\<lambda>v g. Ok (v \<noteq> None) g)) R"
      if "st D lo g0 g" "\<And>g'. st D lo g0 g' \<Longrightarrow> vis D g \<subseteq> vis D g' \<Longrightarrow> R True g'" "\<And>g'. R False g'"
      for D lo g0 g R
    proof -
      have truth: "R b g'" if "st D lo g0 g'" "vis D g \<subseteq> vis D g'" for b g'
        using \<open>\<And>g'. st D lo g0 g' \<Longrightarrow> vis D g \<subseteq> vis D g' \<Longrightarrow> R True g'\<close> \<open>\<And>g'. R False g'\<close> that by (cases b) auto
      show ?thesis
        using that(1) less [of ts for ts]
        by (cases e) (auto simp: Cons simp del: genExpr.simps genIf.simps
              intro!: genVarDecl_rule genReturn_rule genExpr_rule genIf_rule truth that(3))
    qed
    show ?thesis
      unfolding stmts_ok_def Cons genStmts.simps safe_thenP
      by (intro allI impI, rule stmt) (auto intro!: tail)
  qed
qed

section \<open>Functions and modules\<close>

definition func_ok :: "val set \<Rightarrow> func_op \<Rightarrow> bool" where
  "func_ok G f \<longleftrightarrow>
     ssa_ops (G \<union> set (fn_args f)) (fn_body f) \<and>
     distinct (fn_args f @ all_results (fn_body f)) \<and>
     list_all wf_op (butlast (fn_body f)) \<and> ends_with_terminate (fn_body f)"

text \<open>
  A module is checked in order; \<open>G\<close> are the values of the globals before. A function may use them
  in its body (through \<^verbatim>\<open>ep2.global_import\<close>, but see the header of the development).
\<close>

fun module_ok :: "val set \<Rightarrow> module_op list \<Rightarrow> bool" where
  "module_ok G [] \<longleftrightarrow> True"
| "module_ok G (FuncM f # ms) \<longleftrightarrow> func_ok G f \<and> module_ok G ms"
| "module_ok G (GlobalM gl # ms) \<longleftrightarrow> gl_value gl \<notin> G \<and> module_ok (insert (gl_value gl) G) ms"

fun global_values :: "module_op list \<Rightarrow> val set" where
  "global_values [] = {}"
| "global_values (FuncM f # ms) = global_values ms"
| "global_values (GlobalM gl # ms) = insert (gl_value gl) (global_values ms)"

lemma global_values_append [simp]: "global_values (ms @ ns) = global_values ms \<union> global_values ns"
  by (induction ms rule: global_values.induct) auto

lemma module_ok_append:
  "module_ok G (ms @ ns) \<longleftrightarrow> module_ok G ms \<and> module_ok (G \<union> global_values ms) ns"
  by (induction G ms rule: module_ok.induct) auto

definition mod_inv :: "val set \<Rightarrow> gen \<Rightarrow> bool" where
  "mod_inv G g \<longleftrightarrow> (\<exists>s. symtab g = [s]) \<and> syms_in G (symtab g) \<and> updtabs g = [] \<and>
     G \<subseteq> {..<length (vinfo g)} \<and> (\<forall>v \<in> G. \<exists>n. defining_op g v = Some (GlobalRef n, []))"

text \<open>Prototypes only report errors and number the arguments.\<close>

lemma genArgTypes_state: "safe (genArgTypes ds g) (\<lambda>r g'. \<exists>es. g' = g\<lparr>gerrs := es\<rparr>)"
proof (induction ds arbitrary: g)
  case Nil
  show ?case
    by (auto intro: exI [of _ "gerrs g"])
next
  case (Cons d ds)
  have "safe (genArgTypes ds (g\<lparr>gerrs := es\<rparr>)) (\<lambda>r g'. \<exists>es. g' = g\<lparr>gerrs := es\<rparr>)" for es
    by (rule safe_mono [OF Cons.IH]) auto
  then show ?case
    unfolding genArgTypes.simps safe_thenP
    by (intro safe_mono [OF getVarType_state]) (auto split: option.split)
qed

lemma genProto_state:
  "safe (genProto p g) (\<lambda>r g'. \<forall>f. r = Some f \<longrightarrow>
     (\<exists>es ts. g' = g\<lparr>gerrs := es, vinfo := vinfo g @ map (\<lambda>t. (t, None)) ts\<rparr> \<and>
        fn_args f = [length (vinfo g)..<length (vinfo g) + length ts]))"
  unfolding genProto_def safe_thenP Let_def
  by (rule safe_mono [OF genArgTypes_state]) (auto split: option.split, blast)

lemma st_args:
  assumes "mod_inv G g" and "genProto p (g\<lparr>symtab := [] # symtab g, block := []\<rparr>) = Ok (Some f) g'"
  shows "st (G \<union> set (fn_args f)) (length (vinfo g')) g' g'" and "tl (symtab g') = symtab g"
    and "updtabs g' = []" and "structMap g' = structMap g" and "functionMap g' = functionMap g"
    and "module_ops g' = module_ops g" and "length (vinfo g) \<le> length (vinfo g')"
    and "\<forall>v < length (vinfo g). defining_op g' v = defining_op g v"
    and "block g' = []" and "distinct (fn_args f)" and "set (fn_args f) \<subseteq> {..<length (vinfo g')}"
proof -
  obtain es ts where *: "g' = g\<lparr>symtab := [] # symtab g, block := [], gerrs := es,
      vinfo := vinfo g @ map (\<lambda>t. (t, None)) ts\<rparr>"
    "fn_args f = [length (vinfo g)..<length (vinfo g) + length ts]"
    using genProto_state [of p "g\<lparr>symtab := [] # symtab g, block := []\<rparr>"] assms(2) by auto
  have "gen_inv (G \<union> set (fn_args f)) (length (vinfo g')) g'"
    using assms(1) unfolding mod_inv_def *
    by (auto simp: gen_inv_def all_results_def vis_def block_defs_def syms_in_def closed_in_def
        defining_op_def nth_append split: if_splits) (fastforce simp: is_access_def)
  then show "st (G \<union> set (fn_args f)) (length (vinfo g')) g' g'"
    by (rule st_refl)
  show "tl (symtab g') = symtab g" "updtabs g' = []" "structMap g' = structMap g" "functionMap g' = functionMap g"
    "module_ops g' = module_ops g" "length (vinfo g) \<le> length (vinfo g')" "block g' = []"
    "distinct (fn_args f)" "set (fn_args f) \<subseteq> {..<length (vinfo g')}"
    using assms(1) by (auto simp: * mod_inv_def)
  show "\<forall>v < length (vinfo g). defining_op g' v = defining_op g v"
    by (simp add: *(1) defining_op_def nth_append)
qed

lemma declareArgs_rule:
  assumes "st D lo g0 g" and "set vs \<subseteq> vis D g"
    and "\<And>ok g'. st D lo g0 g' \<Longrightarrow> vis D g \<subseteq> vis D g' \<Longrightarrow> Q ok g'"
  shows "safe (declareArgs ds vs g) Q"
  using assms
proof (induction ds arbitrary: vs g)
  case (Cons d ds)
  show ?case
    using Cons.prems(1,2) by (cases vs) (auto intro!: declare_rule Cons.IH Cons.prems(3))
qed auto

lemma st_scope:
  assumes "st D lo g0 g"
  shows "st D lo (g\<lparr>symtab := [] # symtab g\<rparr>) (g\<lparr>symtab := [] # symtab g\<rparr>)"
  using assms by (auto simp: st_def gen_inv_def syms_in_def closed_in_def defining_op_def)

lemma st_close_scope:
  assumes "st D lo g0 g" and "st D lo (g\<lparr>symtab := [] # symtab g\<rparr>) g'"
  shows "st D lo g0 (close_scope g')" "vis D (close_scope g') = vis D g'"
proof -
  have "symtab g \<noteq> []" "syms_in (vis D g') (symtab g)" "tl (symtab g') = symtab g"
    using assms by (fastforce simp: st_def gen_inv_def frame_def syms_in_def)+
  with assms show "st D lo g0 (close_scope g')"
    by (auto simp: st_def gen_inv_def frame_def close_scope_def closed_in_def defining_op_def)
qed (simp add: close_scope_def)

lemma genBlock_rule:
  assumes "st D lo g0 g" and Q: "\<And>g'. st D lo g0 g' \<Longrightarrow> vis D g \<subseteq> vis D g' \<Longrightarrow> Q True g'" "\<And>g'. Q False g'"
  shows "safe (genBlock es g) Q"
  using stmts_okI [of es] st_scope [OF assms(1)] st_close_scope [OF assms(1)] Q
  unfolding genBlock_def stmts_ok_def by simp

lemma mod_inv_frame:
  assumes "mod_inv G g" and "frame g1 g'" and "tl (symtab g1) = symtab g" and "updtabs g1 = []"
    and "length (vinfo g) \<le> length (vinfo g1)" and "\<forall>v < length (vinfo g). defining_op g1 v = defining_op g v"
  shows "mod_inv G (close_scope g')"
proof -
  have "defining_op (close_scope g') v = defining_op g v" if "v < length (vinfo g)" for v
    using that assms(2,5,6) by (simp add: frame_def close_scope_def defining_op_def)
  with assms show ?thesis
    by (auto simp: mod_inv_def frame_def close_scope_def)
qed

lemma not_terminated: "list_all wf_op ops \<Longrightarrow> \<not> ends_with_terminate ops"
proof
  assume "list_all wf_op ops" "ends_with_terminate ops"
  then have "wf_op (last ops)" "op_kind (last ops) = TerminateOp"
    by (auto simp: ends_with_terminate_def list_all_iff)
  then show False
    by (cases "last ops") simp
qed

lemma genFunction_rule:
  assumes "mod_inv G g"
    and Q: "\<And>f g'. func_ok G f \<Longrightarrow> mod_inv G g' \<Longrightarrow> module_ops g' = module_ops g \<Longrightarrow> Q (Some f) g'" "\<And>g'. Q None g'"
  shows "safe (genFunction p body g) Q"
proof (cases "genProto p (g\<lparr>symtab := [] # symtab g, block := []\<rparr>)")
  case (Ok fo g1)
  show ?thesis
  proof (cases fo)
    case (Some f)
    note args = st_args [OF assms(1) Ok [unfolded Some]]
    let ?D = "G \<union> set (fn_args f)"
    have no_term: "\<not> ends_with_terminate (block g')" if "st ?D (length (vinfo g1)) g1 g'" for g'
      using that by (simp add: st_def gen_inv_def not_terminated)
    have finish: "Q (Some (f\<lparr>fn_body := block g' @ [Op TerminateOp [] [] []], fn_private := b\<rparr>))
        (close_scope (g'\<lparr>block := block g' @ [Op TerminateOp [] [] []]\<rparr>))"
      if g': "st ?D (length (vinfo g1)) g1 g'" for g' b
    proof (rule Q(1))
      have "set (fn_args f) \<inter> set (all_results (block g')) = {}"
        using g' args(11) by (fastforce simp: st_def gen_inv_def)
      then show "func_ok G (f\<lparr>fn_body := block g' @ [Op TerminateOp [] [] []], fn_private := b\<rparr>)"
        using g' args(10) by (auto simp: func_ok_def st_def gen_inv_def ssa_ops_append ends_with_terminate_def)
      have "frame g1 (g'\<lparr>block := block g' @ [Op TerminateOp [] [] []]\<rparr>)"
        using g' by (simp add: st_def frame_def defining_op_def)
      then show "mod_inv G (close_scope (g'\<lparr>block := block g' @ [Op TerminateOp [] [] []]\<rparr>))"
        by (rule mod_inv_frame [OF assms(1) _ args(2,3,7,8)])
      show "module_ops (close_scope (g'\<lparr>block := block g' @ [Op TerminateOp [] [] []]\<rparr>)) = module_ops g"
        using g' args(6) by (simp add: st_def frame_def close_scope_def)
    qed
    have "safe (genBlock body g') (\<lambda>ok g'. safe (if \<not> ok then Ok None (close_scope g') else
         thenP (if ends_with_terminate (block g') then Ok [] g' else create TerminateOp [] [] [] g') (\<lambda>_ g.
         Ok (Some (f\<lparr>fn_body := block g, fn_private := (proto_name p \<noteq> ''main'')\<rparr>)) (close_scope g))) Q)"
      if "st ?D (length (vinfo g1)) g1 g'" for g'
      by (rule genBlock_rule [OF that]) (use finish no_term Q(2) in \<open>simp_all add: create_def\<close>)
    then have "safe (declareArgs (proto_args p) (fn_args f) g1) (\<lambda>ok g'. safe (if \<not> ok then Ok None (close_scope g') else
         thenP (genBlock body g') (\<lambda>ok g'. if \<not> ok then Ok None (close_scope g') else
         thenP (if ends_with_terminate (block g') then Ok [] g' else create TerminateOp [] [] [] g') (\<lambda>_ g.
         Ok (Some (f\<lparr>fn_body := block g, fn_private := (proto_name p \<noteq> ''main'')\<rparr>)) (close_scope g)))) Q)"
      by (intro declareArgs_rule [OF args(1)]) (auto simp: vis_def Q(2))
    then show ?thesis
      unfolding genFunction_def Ok Some by simp
  qed (simp add: genFunction_def Ok Q)
qed (use genProto_state [of p "g\<lparr>symtab := [] # symtab g, block := []\<rparr>"] in \<open>simp add: genFunction_def\<close>)

text \<open>Records and the module.\<close>

lemma setAttributes_rule:
  assumes "\<And>r es. Q r (g\<lparr>gerrs := es\<rparr>)"
  shows "safe (setAttributes as scopes m g) Q"
  using assms
proof (induction as scopes m g rule: setAttributes.induct)
  case (1 scopes as g)
  then show ?case
    using "1" [of _ "gerrs g"] by simp
qed (auto simp: emitError_def split: option.split)

lemma mod_inv_gerrs [simp]: "mod_inv G (g\<lparr>gerrs := es\<rparr>) = mod_inv G g"
  by (simp add: mod_inv_def defining_op_def)

lemma mod_inv_ops [simp]: "mod_inv G (add_module_op m g) = mod_inv G g"
  by (simp add: mod_inv_def defining_op_def add_module_op_def)

lemma mod_inv_functionMap [simp]: "mod_inv G (g\<lparr>functionMap := fm\<rparr>) = mod_inv G g"
  by (simp add: mod_inv_def defining_op_def)

lemma mod_inv_structMap [simp]: "mod_inv G (g\<lparr>structMap := sm\<rparr>) = mod_inv G g"
  by (simp add: mod_inv_def defining_op_def)

lemma func_ok_attrs [simp]: "func_ok G (f\<lparr>fn_attrs := as\<rparr>) = func_ok G f"
  by (simp add: func_ok_def)

text \<open>The state between records: the module so far is well formed and its globals are the symbols.\<close>

definition between :: "gen \<Rightarrow> bool" where
  "between g \<longleftrightarrow> module_ok {} (module_ops g) \<and> mod_inv (global_values (module_ops g)) g"

lemma between_gerrs [simp]: "between (g\<lparr>gerrs := es\<rparr>) = between g"
  by (simp add: between_def)

lemma genMembers_state: "safe (genMembers ds g) (\<lambda>r g'. \<exists>es. g' = g\<lparr>gerrs := es\<rparr>)"
proof (induction ds arbitrary: g)
  case Nil
  show ?case
    by (auto intro: exI [of _ "gerrs g"])
next
  case (Cons d ds)
  have "safe (genMembers ds (g\<lparr>gerrs := es\<rparr>)) (\<lambda>r g'. \<exists>es. g' = g\<lparr>gerrs := es\<rparr>)" for es
    by (rule safe_mono [OF Cons.IH]) auto
  then show ?case
    unfolding genMembers.simps
    by (auto simp: emitError_def split: option.split intro!: safe_mono [OF getVarType_state])
qed

lemma genStruct_rule:
  assumes "between g" and "\<And>ok g'. between g' \<Longrightarrow> Q ok g'"
  shows "safe (genStruct ev n vs g) Q"
proof -
  have "safe (genMembers vs g) (\<lambda>ts g. safe (case ts of None \<Rightarrow> Ok False g | Some ts \<Rightarrow>
           Ok True (g\<lparr>structMap := (n, StructType ev ts n, vs) # structMap g\<rparr>)) Q)"
    by (rule safe_mono [OF genMembers_state])
      (use assms in \<open>auto split: option.split intro!: assms(2) simp: between_def\<close>)
  then show ?thesis
    using assms by (auto simp: genStruct_def emitError_def)
qed

lemma genGlobal_rule:
  assumes "between g"
    and "\<And>gl g'. between (add_module_op (GlobalM gl) g') \<Longrightarrow> Q (Some gl) g'" and "\<And>g'. Q None g'"
  shows "safe (genGlobal d g) Q"
proof (cases "getVarType (decl_type d) g")
  case (Ok t g1)
  then obtain es where g1: "g1 = g\<lparr>gerrs := es\<rparr>"
    using getVarType_state [of "decl_type d" g] by auto
  let ?v = "length (vinfo g)"
  have "between (add_module_op (GlobalM \<lparr>gl_name = decl_name d, gl_attrs = [], gl_value = ?v\<rparr>)
          (insert_sym (decl_name d) \<lparr>sym_value = ?v, sym_type = ty, sym_decl = dt\<rparr>
             (g1\<lparr>vinfo := vinfo g1 @ [(t', Some (GlobalRef (decl_name d), []))]\<rparr>)))" for ty dt t'
    using assms(1) unfolding between_def g1
    by (auto simp: add_module_op_def insert_sym_def mod_inv_def module_ok_append syms_in_def defining_op_def nth_append) force
  then show ?thesis
    using assms(3) unfolding genGlobal_def Ok Let_def
    by (auto simp: declare_var_def emitError_def g1 split: option.split intro!: assms(2))
qed (use getVarType_state [of "decl_type d" g] in \<open>simp add: genGlobal_def\<close>)

lemma genRecord_rule:
  assumes "between g" and "\<And>r g'. between g' \<Longrightarrow> Q (Some r) g'" and "\<And>g'. Q None g'"
  shows "safe (genRecord r scopes g) Q"
proof (cases "rec_node r")
  case (FunctionNode p body)
  have "safe (setAttributes (rec_attrs r) scopes (fn_attrs f)
          (if map_of (functionMap g') (fn_name f) = None
           then g'\<lparr>functionMap := (fn_name f, []) # functionMap g'\<rparr> else g'))
        (\<lambda>as g. safe (case as of None \<Rightarrow> Ok None g
           | Some as \<Rightarrow> Ok (Some scopes) (add_module_op (FuncM (f\<lparr>fn_attrs := as\<rparr>)) g)) Q)"
    if "func_ok (global_values (module_ops g)) f" "mod_inv (global_values (module_ops g)) g'"
      "module_ops g' = module_ops g" for f g'
    by (rule setAttributes_rule)
      (use that assms in \<open>auto split: option.split intro!: assms(2)
        simp: between_def module_ok_append add_module_op_def mod_inv_def defining_op_def\<close>)
  then show ?thesis
    using assms(1,3) by (auto simp: genRecord_def FunctionNode Let_def between_def intro!: genFunction_rule)
next
  case (GlobalNode l n d)
  have "safe (setAttributes (rec_attrs r) scopes (gl_attrs gl) g')
        (\<lambda>as g. safe (case as of None \<Rightarrow> Ok None g
           | Some as \<Rightarrow> Ok (Some scopes) (add_module_op (GlobalM (gl\<lparr>gl_attrs := as\<rparr>)) g)) Q)"
    if "between (add_module_op (GlobalM gl) g')" for gl g'
    by (rule setAttributes_rule)
      (use that assms(3) in \<open>auto split: option.split intro!: assms(2)
        simp: between_def module_ok_append add_module_op_def mod_inv_def defining_op_def\<close>)
  then show ?thesis
    using assms(1,3) by (auto simp: genRecord_def GlobalNode intro!: genGlobal_rule)
qed (use assms in \<open>auto simp: genRecord_def intro!: genStruct_rule\<close>)

lemma genRecords_rule:
  assumes "between g" and "\<And>g'. between g' \<Longrightarrow> Q True g'" and "\<And>g'. Q False g'"
  shows "safe (genRecords rs scopes g) Q"
  using assms(1)
  by (induction rs arbitrary: scopes g) (auto intro!: genRecord_rule assms(2,3))

lemma between_init: "between (MLIRGenImpl\<lparr>symtab := [[]]\<rparr>)"
  by (simp add: between_def MLIRGenImpl_def mod_inv_def syms_in_def)

lemma mlirGen_safe:
  "safe (mlirGen m) (\<lambda>r g. \<forall>ops. r = Some ops \<longrightarrow> module_ok {} ops \<and> symtab g = [] \<and> updtabs g = [])"
  unfolding mlirGen_def
  by (auto intro!: genRecords_rule [OF between_init] simp: between_def mod_inv_def close_scope_def)

end
