(* ===== verification/Ep2_Parser.thy ===== *)
theory Ep2_Parser
  imports Ep2_AST
begin

text \<open>
  The recursive-descent parser (\<^verbatim>\<open>include/ep2/lang/Parser.h\<close>). A parsing function maps the
  lexer state to an outcome: \<open>Ok (Some x) lx\<close> is a returned node, \<open>Ok None lx\<close> a
  returned null pointer (the caller goes on from \<open>lx\<close>), \<open>Crash\<close> an abort. Loops and
  recursion take fuel; \<open>Ep2_Parser_Total\<close> proves how much is enough.

  The functions that call back into \<^verbatim>\<open>parseExpression\<close> take it as the argument \<open>pe\<close>; the
  knot is tied in \<open>parseExpression\<close> itself.
\<close>

type_synonym 'a parser = "lexer \<Rightarrow> ('a option, lexer) outcome"
type_synonym lexpr = "location expr"

section \<open>Helpers\<close>

definition parseError :: "string \<Rightarrow> string \<Rightarrow> 'a parser" where
  "parseError expected context lx =
     Ok None (lx\<lparr>errs := errs lx @ [ParseError (lastLocation lx) expected context (curTok lx)]\<rparr>)"

text \<open>Narrowing of a token to \<^verbatim>\<open>char\<close>, and the precedence table indexed by it.\<close>

definition static_cast_char :: "token \<Rightarrow> int" where
  "static_cast_char t = (t + 128) mod 256 - 128"

definition getTokPrecedence :: "token \<Rightarrow> int" where
  "getTokPrecedence t =
     (let c = static_cast_char t in
      if c = tok_eq then 10
      else if c = tok_minus then 20
      else if c = tok_plus then 20
      else if c = tok_star then 40
      else if c = tok_slash then 40
      else if c = tok_cmp_eq \<or> c = tok_cmp_le \<or> c = tok_cmp_ge
            \<or> c = tok_angle_bracket_open \<or> c = tok_angle_bracket_close then 15
      else -1)"

text \<open>Conversions of the lexer's double to the integer types the parser stores it in.\<close>

definition to_unsigned_long :: "dbl \<Rightarrow> lexer \<Rightarrow> (int, lexer) outcome" where
  "to_unsigned_long d lx = (if dbl_trunc d < 2 ^ 64 then Ok (dbl_trunc d) lx else Crash BadConversion)"

definition to_int64 :: "dbl \<Rightarrow> lexer \<Rightarrow> (int, lexer) outcome" where
  "to_int64 d lx = (if dbl_trunc d < 2 ^ 63 then Ok (dbl_trunc d) lx else Crash BadConversion)"

definition to_int32 :: "dbl \<Rightarrow> lexer \<Rightarrow> (int, lexer) outcome" where
  "to_int32 d lx = (if dbl_trunc d < 2 ^ 31 then Ok (dbl_trunc d) lx else Crash BadConversion)"

text \<open>
  \<^verbatim>\<open>separateBy\<close>: \<open>f\<close> is the element callback, which updates the captured state \<open>x\<close>
  and returns a pointer; a non-null one ends the loop.
\<close>

fun separateBy_loop :: "nat \<Rightarrow> token \<Rightarrow> token \<Rightarrow>
    (token \<Rightarrow> 'x \<Rightarrow> lexer \<Rightarrow> ('t option \<times> 'x, lexer) outcome) \<Rightarrow>
    'x \<Rightarrow> lexer \<Rightarrow> ('t option \<times> 'x, lexer) outcome" where
  "separateBy_loop 0 close sep f x lx = Crash OutOfFuel"
| "separateBy_loop (Suc n) close sep f x lx =
     (let lx1 = getNextToken lx in
      thenP (f (curTok lx1) x lx1) (\<lambda>(ret, x) lx.
        if ret \<noteq> None then Ok (ret, x) lx
        else if curTok lx = sep then separateBy_loop n close sep f x lx
        else if curTok lx \<noteq> close then
          thenP (parseError '']'' ''to close attribute list'' lx) (\<lambda>r lx. Ok (r, x) lx)
        else thenP (consume close lx) (\<lambda>_ lx. Ok (None, x) lx)))"

definition separateBy :: "nat \<Rightarrow> token \<Rightarrow> token \<Rightarrow> token \<Rightarrow>
    (token \<Rightarrow> 'x \<Rightarrow> lexer \<Rightarrow> ('t option \<times> 'x, lexer) outcome) \<Rightarrow>
    'x \<Rightarrow> lexer \<Rightarrow> ('t option \<times> 'x, lexer) outcome" where
  "separateBy n open_tok close sep f x lx =
     (if curTok lx \<noteq> open_tok then
        thenP (parseError ''['' ''to close attribute list'' lx) (\<lambda>r lx. Ok (r, x) lx)
      else separateBy_loop n close sep f x lx)"

section \<open>Leaves\<close>

definition parseNumberExpr :: "lexpr parser" where
  "parseNumberExpr lx =
     (let loc = lastLocation lx in
      thenP (getValue lx) (\<lambda>v lx.
      thenP (to_unsigned_long v lx) (\<lambda>val lx.
      thenP (consume tok_number lx) (\<lambda>_ lx. Ok (Some (NumberExpr loc val)) lx))))"

definition parseAtom :: "lexpr parser" where
  "parseAtom lx =
     (let loc = lastLocation lx in
      if curTok lx \<noteq> tok_colon then parseError '':'' ''in atom literal'' lx
      else thenP (consume tok_colon lx) (\<lambda>_ lx.
        if curTok lx \<noteq> tok_identifier then parseError ''identifier'' ''in atom literal'' lx
        else thenP (getId lx) (\<lambda>atom lx.
          thenP (consume tok_identifier lx) (\<lambda>_ lx. Ok (Some (AtomLiteralExpr loc atom)) lx))))"

fun parseStructLiteralExpr :: "nat \<Rightarrow> lexpr parser"
  and structLiteralLoop :: "nat \<Rightarrow> location \<Rightarrow> lexpr option list \<Rightarrow> lexpr parser" where
  "parseStructLiteralExpr 0 lx = Crash OutOfFuel"
| "parseStructLiteralExpr (Suc n) lx =
     (let loc = lastLocation lx in
      thenP (consume tok_bracket_open lx) (\<lambda>_ lx. structLiteralLoop n loc [] lx))"
| "structLiteralLoop 0 loc values lx = Crash OutOfFuel"
| "structLiteralLoop (Suc n) loc values lx =
     (let step = (\<lambda>values lx.
        if curTok lx = tok_bracket_close then
          (if values = [] then parseError ''<something>'' ''to fill struct literal expression'' lx
           else Ok (Some (StructLiteralExpr loc values)) (getNextToken lx))
        else if curTok lx \<noteq> tok_comma then
          parseError ''} or ,'' ''in struct literal expression'' lx
        else structLiteralLoop n loc values (getNextToken lx))
      in if curTok lx = tok_number then
           thenP (parseNumberExpr lx) (\<lambda>v lx.
             if v = None then Ok None lx else step (values @ [v]) lx)
         else if curTok lx \<noteq> tok_bracket_open then
           parseError ''{, [, or number'' ''in struct literal expression'' lx
         else thenP (parseStructLiteralExpr n lx) (\<lambda>v lx. step (values @ [v]) lx))"

definition parseParenExpr :: "lexpr parser \<Rightarrow> lexpr parser" where
  "parseParenExpr pe lx =
     thenP (pe (getNextToken lx)) (\<lambda>v lx.
       if v = None then Ok None lx
       else if curTok lx \<noteq> tok_parenthese_close then
         parseError '')'' ''to close expression with parentheses'' lx
       else thenP (consume tok_parenthese_close lx) (\<lambda>_ lx. Ok v lx))"

definition parsePortLiteralExpr :: "lexpr parser" where
  "parsePortLiteralExpr lx =
     thenP (consume tok_sbracket_open lx) (\<lambda>_ lx.
     if curTok lx \<noteq> tok_identifier then parseError ''identifier'' ''of event name'' lx
     else thenP (getId lx) (\<lambda>event lx.
       thenP (consume tok_identifier lx) (\<lambda>_ lx.
       let finish = (\<lambda>atom lx.
         thenP (checkConsume tok_comma lx) (\<lambda>_ lx.
         let close = (\<lambda>instance lx.
           thenP (checkConsume tok_sbracket_close lx) (\<lambda>_ lx.
           Ok (Some (PortLiteralExpr (lastLocation lx) event atom instance)) lx))
         in if curTok lx = tok_number then
              thenP (getValue lx) (\<lambda>v lx.
              thenP (to_int32 v lx) (\<lambda>instance lx.
              if instance < 0 then parseError ''instance should be positive'' '''' lx
              else thenP (consume tok_number lx) (\<lambda>_ lx. close instance lx)))
            else if curTok lx = tok_star then
              thenP (consume tok_star lx) (\<lambda>_ lx. close (-1) lx)
            else parseError ''number'' ''of instance'' lx))
       in if curTok lx = tok_colon then
            (let lx = getNextToken lx in
             if curTok lx \<noteq> tok_identifier then parseError ''identifier'' ''of atom name'' lx
             else thenP (getId lx) (\<lambda>atom lx.
               thenP (consume tok_identifier lx) (\<lambda>_ lx. finish atom lx)))
          else finish '''' lx)))"

section \<open>Calls, identifiers and constructions\<close>

fun callArgs :: "nat \<Rightarrow> lexpr parser \<Rightarrow> lexpr list \<Rightarrow> lexpr list parser" where
  "callArgs 0 pe args lx = Crash OutOfFuel"
| "callArgs (Suc n) pe args lx =
     thenP (pe lx) (\<lambda>arg lx.
       case arg of None \<Rightarrow> Ok None lx
       | Some a \<Rightarrow>
         if curTok lx = tok_parenthese_close then Ok (Some (args @ [a])) lx
         else if curTok lx \<noteq> tok_comma then parseError '', or )'' ''in argument list'' lx
         else callArgs n pe (args @ [a]) (getNextToken lx))"

text \<open>The port list of a command: identifiers or stars, until no comma follows.\<close>

fun portNames :: "nat \<Rightarrow> string list \<Rightarrow> lexer \<Rightarrow> (string list, lexer) outcome" where
  "portNames 0 names lx = Crash OutOfFuel"
| "portNames (Suc n) names lx =
     (let lx = getNextToken lx;
          again = (\<lambda>names lx. if curTok lx = tok_comma then portNames n names lx else Ok names lx)
      in if curTok lx = tok_identifier then
           thenP (getId lx) (\<lambda>name lx.
           thenP (consume tok_identifier lx) (\<lambda>_ lx. again (names @ [name]) lx))
         else if curTok lx = tok_star then
           thenP (consume tok_star lx) (\<lambda>_ lx. again (names @ [''*'']) lx)
         else again names lx)"

definition parseCallExpr ::
    "nat \<Rightarrow> lexpr parser \<Rightarrow> location \<Rightarrow> location var_expr list \<Rightarrow> location \<Rightarrow> lexpr parser" where
  "parseCallExpr n pe path_loc path loc lx =
     thenP (consume tok_parenthese_open lx) (\<lambda>_ lx.
     thenP (if curTok lx \<noteq> tok_parenthese_close then callArgs n pe [] lx else Ok (Some []) lx)
       (\<lambda>args lx. case args of None \<Rightarrow> Ok None lx
       | Some args \<Rightarrow>
     thenP (consume tok_parenthese_close lx) (\<lambda>_ lx.
     if curTok lx = tok_sbracket_open then
       thenP (portNames n [] lx) (\<lambda>ins lx.
       thenP (consume tok_sbracket_close lx) (\<lambda>_ lx.
       if curTok lx \<noteq> tok_sbracket_open then parseError ''['' ''in output port list'' lx
       else thenP (portNames n [] lx) (\<lambda>outs lx.
         thenP (consume tok_sbracket_close lx) (\<lambda>_ lx.
         Ok (Some (CallExpr loc path_loc path args ins outs)) lx))))
     else Ok (Some (CallExpr loc path_loc path args [] [])) lx)))"

text \<open>The dots of a path: \<open>None\<close> when a dot is not followed by an identifier.\<close>

fun pathLoop :: "nat \<Rightarrow> location var_expr list \<Rightarrow> location var_expr list parser" where
  "pathLoop 0 path lx = Crash OutOfFuel"
| "pathLoop (Suc n) path lx =
     (if curTok lx = tok_dot then
        thenP (consume tok_dot lx) (\<lambda>_ lx.
        if curTok lx \<noteq> tok_identifier then parseError ''identifier'' ''parse struct access'' lx
        else thenP (getId lx) (\<lambda>name lx.
          let v = Variable (lastLocation lx) name in
          thenP (consume tok_identifier lx) (\<lambda>_ lx. pathLoop n (path @ [v]) lx)))
      else Ok (Some path) lx)"

fun initValues :: "nat \<Rightarrow> lexpr parser \<Rightarrow> lexpr list \<Rightarrow> lexpr list parser" where
  "initValues 0 pe values lx = Crash OutOfFuel"
| "initValues (Suc n) pe values lx =
     thenP (pe lx) (\<lambda>expr lx.
       case expr of None \<Rightarrow> parseError ''expr'' ''Parsing Initiliazaiton'' lx
       | Some e \<Rightarrow>
         if curTok lx = tok_bracket_close then
           thenP (consume tok_bracket_close lx) (\<lambda>_ lx. Ok (Some (values @ [e])) lx)
         else if curTok lx \<noteq> tok_comma then parseError ''comma'' ''parsing init list'' lx
         else thenP (consume tok_comma lx) (\<lambda>_ lx. initValues n pe (values @ [e]) lx))"

definition parseIdentifierExpr :: "nat \<Rightarrow> lexpr parser \<Rightarrow> lexpr parser" where
  "parseIdentifierExpr n pe lx =
     thenP (getId lx) (\<lambda>name lx.
     let variable = Variable (lastLocation lx) name;
         lx = getNextToken lx;
         path_loc = lastLocation lx
     in thenP (pathLoop n [variable] lx) (\<lambda>path lx. case path of None \<Rightarrow> Ok None lx
     | Some path \<Rightarrow>
     thenP (if curTok lx = tok_colon then parseAtom lx else Ok None lx) (\<lambda>atom lx.
     if curTok lx = tok_parenthese_open then
       parseCallExpr n pe path_loc path (lastLocation lx) lx
     else if curTok lx = tok_bracket_open then
       thenP (consume tok_bracket_open lx) (\<lambda>_ lx.
       if length path \<noteq> 1 then parseError ''name error'' ''parse init'' lx
       else thenP (initValues n pe (case atom of None \<Rightarrow> [] | Some a \<Rightarrow> [a]) lx) (\<lambda>values lx.
         case values of None \<Rightarrow> Ok None lx
         | Some values \<Rightarrow> Ok (Some (InitExpr (lastLocation lx) (VarType name []) values)) lx))
     else Ok (Some (PathExpr path_loc path)) lx)))"

definition parsePrimary :: "nat \<Rightarrow> lexpr parser \<Rightarrow> lexpr parser" where
  "parsePrimary n pe lx =
     (let t = curTok lx in
      if t = tok_identifier then parseIdentifierExpr n pe lx
      else if t = tok_colon then parseAtom lx
      else if t = tok_number then parseNumberExpr lx
      else if t = tok_parenthese_open then parseParenExpr pe lx
      else if t = tok_sbracket_open then parsePortLiteralExpr lx
      else if t = tok_bracket_open then parseStructLiteralExpr n lx
      else if t = tok_semicolon then Ok None lx
      else if t = tok_bracket_close then Ok None lx
      else Ok None (lx\<lparr>errs := errs lx @ [UnknownToken t]\<rparr>))"

section \<open>Expressions\<close>

text \<open>Operator precedence parsing; \<open>pp\<close> is \<^verbatim>\<open>parsePrimary\<close>.\<close>

fun parseBinOpRHS :: "nat \<Rightarrow> lexpr parser \<Rightarrow> int \<Rightarrow> lexpr \<Rightarrow> lexpr parser" where
  "parseBinOpRHS 0 pp exprPrec lhs lx = Crash OutOfFuel"
| "parseBinOpRHS (Suc n) pp exprPrec lhs lx =
     (let tokPrec = getTokPrecedence (curTok lx) in
      if tokPrec < exprPrec then Ok (Some lhs) lx
      else
        (let binOp = curTok lx in
         thenP (consume binOp lx) (\<lambda>_ lx.
         let loc = lastLocation lx in
         thenP (pp lx) (\<lambda>rhs lx. case rhs of
           None \<Rightarrow> parseError ''expression'' ''to complete binary operator'' lx
         | Some rhs \<Rightarrow>
           thenP (if tokPrec < getTokPrecedence (curTok lx)
                  then parseBinOpRHS n pp (tokPrec + 1) rhs lx else Ok (Some rhs) lx)
             (\<lambda>rhs lx. case rhs of None \<Rightarrow> Ok None lx
              | Some rhs \<Rightarrow>
                parseBinOpRHS n pp exprPrec
                  (BinaryExpr loc (static_cast_char binOp) lhs rhs) lx)))))"

fun parseExpression :: "nat \<Rightarrow> lexpr parser" where
  "parseExpression 0 lx = Crash OutOfFuel"
| "parseExpression (Suc n) lx =
     thenP (parsePrimary n (parseExpression n) lx) (\<lambda>lhs lx. case lhs of
       None \<Rightarrow> Ok None lx
     | Some lhs \<Rightarrow> parseBinOpRHS n (parsePrimary n (parseExpression n)) 0 lhs lx)"

definition parseReturn :: "nat \<Rightarrow> token \<Rightarrow> lexpr parser" where
  "parseReturn n token lx =
     (let loc = lastLocation lx in
      thenP (consume token lx) (\<lambda>_ lx.
      if curTok lx \<noteq> tok_semicolon then
        thenP (parseExpression n lx) (\<lambda>expr lx. Ok (Some (ReturnExpr loc (Some expr))) lx)
      else Ok (Some (ReturnExpr loc None)) lx))"

section \<open>Declarations\<close>

fun parseType :: "nat \<Rightarrow> var_type parser"
  and typeParams :: "nat \<Rightarrow> string \<Rightarrow> var_param list \<Rightarrow> var_type parser" where
  "parseType 0 lx = Crash OutOfFuel"
| "parseType (Suc n) lx =
     (if curTok lx \<noteq> tok_identifier then parseError ''type name'' ''in variable declaration'' lx
      else thenP (getId lx) (\<lambda>typeName lx.
        let lx = getNextToken lx in
        if curTok lx = tok_angle_bracket_open then typeParams n typeName [] lx
        else Ok (Some (VarType typeName [])) lx))"
| "typeParams 0 typeName params lx = Crash OutOfFuel"
| "typeParams (Suc n) typeName params lx =
     (let lx = getNextToken lx;
          again = (\<lambda>params lx.
            if curTok lx = tok_comma then typeParams n typeName params lx
            else thenP (consume tok_angle_bracket_close lx) (\<lambda>_ lx.
              Ok (Some (VarType typeName params)) lx))
      in if curTok lx = tok_number then
           thenP (getValue lx) (\<lambda>v lx.
           thenP (to_int64 v lx) (\<lambda>value lx.
           thenP (consume tok_number lx) (\<lambda>_ lx. again (params @ [IntegerParam value]) lx)))
         else if curTok lx = tok_identifier then
           thenP (parseType n lx) (\<lambda>t lx. again (params @ [TypeParam t]) lx)
         else parseError ''template parameter'' ''in variable declaration'' lx)"

definition parseTypedDeclaration ::
    "nat \<Rightarrow> var_type option \<Rightarrow> bool \<Rightarrow> location \<Rightarrow> location var_decl parser" where
  "parseTypedDeclaration n type requiresInitializer loc lx =
     (if curTok lx \<noteq> tok_identifier then parseError ''name'' ''in variable declaration'' lx
      else thenP (getId lx) (\<lambda>id lx.
        let lx = getNextToken lx in
        if requiresInitializer \<and> curTok lx \<noteq> tok_eq then
          parseError ''initializer'' ''in variable declaration'' lx
        else
          thenP (if curTok lx = tok_eq
                 then thenP (consume tok_eq lx) (\<lambda>_ lx. parseExpression n lx)
                 else Ok None lx)
            (\<lambda>expr lx. case type of
               None \<Rightarrow> Crash NullDeref
             | Some t \<Rightarrow>
                 Ok (Some \<lparr>decl_loc = loc, decl_name = id, decl_type = t, decl_init = expr\<rparr>) lx)))"

definition parseDeclaration :: "nat \<Rightarrow> bool \<Rightarrow> location var_decl parser" where
  "parseDeclaration n requiresInitializer lx =
     (let loc = lastLocation lx in
      thenP (parseType n lx) (\<lambda>type lx.
        parseTypedDeclaration n type requiresInitializer loc lx))"

definition declExpr :: "'l var_decl \<Rightarrow> 'l expr" where
  "declExpr d = VarDeclExpr (decl_loc d) (decl_name d) (decl_type d) (decl_init d)"

section \<open>Blocks\<close>

fun swallowSemicolons :: "nat \<Rightarrow> lexer \<Rightarrow> (unit, lexer) outcome" where
  "swallowSemicolons 0 lx = Crash OutOfFuel"
| "swallowSemicolons (Suc n) lx =
     (if curTok lx = tok_semicolon
      then thenP (consume tok_semicolon lx) (\<lambda>_ lx. swallowSemicolons n lx)
      else Ok () lx)"

text \<open>
  The test that a statement starting with an identifier is a declaration. Both look-aheads
  go through \<^verbatim>\<open>peekNextToken\<close>, the second only when the first does not decide.
\<close>

definition isDeclarationAhead :: "lexer \<Rightarrow> bool \<times> lexer" where
  "isDeclarationAhead lx =
     (if curTok lx \<noteq> tok_identifier then (False, lx)
      else let (t1, lx) = peekNextToken lx in
        if t1 = tok_identifier then (True, lx)
        else let (t2, lx) = peekNextToken lx in (t2 = tok_angle_bracket_open, lx))"

text \<open>
  One statement of a block, without the separator: the node and whether it is a block
  statement. The argument \<open>pb\<close> is \<^verbatim>\<open>parseBlock\<close>. A null then-block is stored in the node, a
  null else-block makes the statement null.
\<close>

definition parseStatement ::
    "nat \<Rightarrow> lexpr list parser \<Rightarrow> (lexpr \<times> bool) parser" where
  "parseStatement n pb lx =
     (if curTok lx = tok_var then
        thenP (parseDeclaration n True lx) (\<lambda>d lx.
          Ok (map_option (\<lambda>d. (declExpr d, False)) d) lx)
      else if curTok lx = tok_return \<or> curTok lx = tok_generate then
        thenP (parseReturn n (curTok lx) lx) (\<lambda>r lx. Ok (map_option (\<lambda>e. (e, False)) r) lx)
      else let (isDecl, lx) = isDeclarationAhead lx in
      if isDecl then
        thenP (parseDeclaration n False lx) (\<lambda>d lx.
          Ok (map_option (\<lambda>d. (declExpr d, False)) d) lx)
      else if curTok lx = tok_if then
        thenP (consume tok_if lx) (\<lambda>_ lx.
        thenP (checkConsume tok_parenthese_open lx) (\<lambda>_ lx.
        thenP (parseExpression n lx) (\<lambda>cond lx. case cond of None \<Rightarrow> Ok None lx
        | Some cond \<Rightarrow>
        thenP (checkConsume tok_parenthese_close lx) (\<lambda>_ lx.
        thenP (pb lx) (\<lambda>thenBlock lx.
        if curTok lx = tok_else then
          thenP (consume tok_else lx) (\<lambda>_ lx.
          thenP (pb lx) (\<lambda>elseBlock lx.
          if elseBlock = None then Ok None lx
          else Ok (Some (IfElseExpr (lastLocation lx) cond thenBlock elseBlock, True)) lx))
        else Ok (Some (IfElseExpr (lastLocation lx) cond thenBlock None, True)) lx)))))
      else
        thenP (parseExpression n lx) (\<lambda>e lx. Ok (map_option (\<lambda>e. (e, False)) e) lx))"

fun parseBlock :: "nat \<Rightarrow> lexpr list parser"
  and parseBlockLoop :: "nat \<Rightarrow> lexpr list \<Rightarrow> lexpr list parser" where
  "parseBlock 0 lx = Crash OutOfFuel"
| "parseBlock (Suc n) lx =
     (if curTok lx \<noteq> tok_bracket_open then parseError ''{'' ''to begin block'' lx
      else thenP (consume tok_bracket_open lx) (\<lambda>_ lx.
        thenP (swallowSemicolons n lx) (\<lambda>_ lx. parseBlockLoop n [] lx)))"
| "parseBlockLoop 0 exprList lx = Crash OutOfFuel"
| "parseBlockLoop (Suc n) exprList lx =
     (if curTok lx \<noteq> tok_bracket_close \<and> curTok lx \<noteq> tok_eof then
        thenP (parseStatement n (parseBlock n) lx) (\<lambda>st lx. case st of None \<Rightarrow> Ok None lx
        | Some (e, isBlock) \<Rightarrow>
          if \<not> isBlock \<and> curTok lx \<noteq> tok_semicolon then
            parseError '';'' ''after expression'' lx
          else thenP (swallowSemicolons n lx) (\<lambda>_ lx. parseBlockLoop n (exprList @ [e]) lx))
      else if curTok lx \<noteq> tok_bracket_close then parseError ''}'' ''to close block'' lx
      else thenP (consume tok_bracket_close lx) (\<lambda>_ lx. Ok (Some exprList) lx))"

section \<open>Top-level definitions\<close>

fun protoArgs :: "nat \<Rightarrow> location var_decl list \<Rightarrow> location var_decl list parser" where
  "protoArgs 0 args lx = Crash OutOfFuel"
| "protoArgs (Suc n) args lx =
     (let lx = getNextToken lx in
      thenP (parseType n lx) (\<lambda>type lx. case type of
        None \<Rightarrow> parseError ''type'' ''in function parameter list'' lx
      | Some t \<Rightarrow>
        if curTok lx \<noteq> tok_identifier then
          parseError ''identifier'' ''in function parameter list'' lx
        else thenP (getId lx) (\<lambda>name lx.
          thenP (checkConsume tok_identifier lx) (\<lambda>_ lx.
          let args = args @ [\<lparr>decl_loc = lastLocation lx, decl_name = name, decl_type = t,
                              decl_init = None\<rparr>]
          in if curTok lx = tok_comma then protoArgs n args lx else Ok (Some args) lx))))"

definition parsePrototype :: "nat \<Rightarrow> token \<Rightarrow> location prototype parser" where
  "parsePrototype n token lx =
     (let loc = lastLocation lx in
      if curTok lx \<noteq> token then parseError ''def|event|controller'' ''in prototype'' lx
      else
        (let type = (if token = tok_controller then Function_Controller else Function_Handler) in
         thenP (consume token lx) (\<lambda>_ lx.
         if curTok lx \<noteq> tok_identifier then parseError ''function name'' ''in prototype'' lx
         else thenP (getId lx) (\<lambda>fnName lx.
         thenP (consume tok_identifier lx) (\<lambda>_ lx.
         thenP (if token = tok_handler \<and> curTok lx = tok_colon
                then thenP (parseAtom lx) (\<lambda>a lx. case a of
                  Some (AtomLiteralExpr l atom) \<Rightarrow> Ok (Some atom) lx
                | _ \<Rightarrow> Crash NullDeref)
                else Ok None lx) (\<lambda>atom lx.
         if curTok lx \<noteq> tok_parenthese_open then parseError ''('' ''in prototype'' lx
         else
           (let (t, lx) = peekNextToken lx in
            thenP (if t \<noteq> tok_parenthese_close then protoArgs n [] lx
                   else thenP (consume tok_parenthese_open lx) (\<lambda>_ lx. Ok (Some []) lx))
              (\<lambda>args lx. case args of None \<Rightarrow> Ok None lx
              | Some args \<Rightarrow>
                if curTok lx \<noteq> tok_parenthese_close then
                  parseError '')'' ''to end function prototype'' lx
                else thenP (consume tok_parenthese_close lx) (\<lambda>_ lx.
                  Ok (Some \<lparr>proto_loc = loc, proto_name = fnName, proto_args = args,
                            proto_atom = atom, proto_type = type\<rparr>) lx))))))))) "

definition parseDefinition :: "nat \<Rightarrow> token \<Rightarrow> location record_node parser" where
  "parseDefinition n token lx =
     thenP (parsePrototype n token lx) (\<lambda>proto lx. case proto of None \<Rightarrow> Ok None lx
     | Some proto \<Rightarrow>
       thenP (parseBlock n lx) (\<lambda>block lx.
         Ok (map_option (\<lambda>body. FunctionNode proto body) block) lx))"

fun structDecls :: "nat \<Rightarrow> location var_decl list \<Rightarrow> location var_decl list parser" where
  "structDecls 0 decls lx = Crash OutOfFuel"
| "structDecls (Suc n) decls lx =
     (if curTok lx \<noteq> tok_bracket_close then
        thenP (parseDeclaration n False lx) (\<lambda>d lx. case d of None \<Rightarrow> Ok None lx
        | Some d \<Rightarrow>
          if curTok lx \<noteq> tok_semicolon then
            parseError '';'' ''after variable in struct definition'' lx
          else thenP (consume tok_semicolon lx) (\<lambda>_ lx. structDecls n (decls @ [d]) lx))
      else Ok (Some decls) lx)"

definition parseStruct :: "nat \<Rightarrow> token \<Rightarrow> location record_node parser" where
  "parseStruct n token_type lx =
     (let loc = lastLocation lx in
      thenP (consume token_type lx) (\<lambda>_ lx.
      if curTok lx \<noteq> tok_identifier then parseError ''name'' ''in struct definition'' lx
      else thenP (getId lx) (\<lambda>name lx.
      thenP (consume tok_identifier lx) (\<lambda>_ lx.
      if curTok lx \<noteq> tok_bracket_open then parseError ''{'' ''in struct definition'' lx
      else thenP (consume tok_bracket_open lx) (\<lambda>_ lx.
      thenP (structDecls n [] lx) (\<lambda>decls lx. case decls of None \<Rightarrow> Ok None lx
      | Some decls \<Rightarrow>
        thenP (consume tok_bracket_close lx) (\<lambda>_ lx.
          Ok (Some (StructNode (token_type = tok_event) loc name decls)) lx)))))))"

section \<open>Modules\<close>

text \<open>
  The two callbacks of the attribute list. Both return the result of \<^verbatim>\<open>parseError\<close> or a null
  pointer, that is, always null: an error inside the brackets is reported and the list goes
  on.
\<close>

definition attrTupleElem ::
    "token \<Rightarrow> string list \<Rightarrow> lexer \<Rightarrow> (location module_ast option \<times> string list, lexer) outcome" where
  "attrTupleElem tok names lx =
     (if tok \<noteq> tok_identifier then
        thenP (parseError ''identifier'' ''in attribute tuple'' lx) (\<lambda>r lx. Ok (r, names) lx)
      else thenP (getId lx) (\<lambda>name lx.
        thenP (consume tok_identifier lx) (\<lambda>_ lx. Ok (None, names @ [name]) lx)))"

definition attrElem ::
    "nat \<Rightarrow> token \<Rightarrow> attributes \<Rightarrow> lexer \<Rightarrow> (location module_ast option \<times> attributes, lexer) outcome" where
  "attrElem n tok attrs lx =
     (if curTok lx \<noteq> tok_identifier then
        thenP (parseError ''identifier'' ''in attribute key'' lx) (\<lambda>r lx. Ok (r, attrs) lx)
      else thenP (getId lx) (\<lambda>attrKey lx.
        thenP (consume tok_identifier lx) (\<lambda>_ lx.
        if curTok lx = tok_eq then
          thenP (consume tok_eq lx) (\<lambda>_ lx.
          if curTok lx = tok_identifier then
            thenP (getId lx) (\<lambda>v lx.
            thenP (consume tok_identifier lx) (\<lambda>_ lx.
              Ok (None, insert_or_assign attrKey (StringAttr v) attrs) lx))
          else if curTok lx = tok_parenthese_open then
            thenP (separateBy n tok_parenthese_open tok_parenthese_close tok_comma attrTupleElem [] lx)
              (\<lambda>(ret, names) lx.
                 if ret \<noteq> None then Ok (ret, attrs) lx
                 else Ok (None, insert_or_assign attrKey (ListAttr names) attrs) lx)
          else Ok (None, insert_or_assign attrKey (StringAttr []) attrs) lx)
        else Ok (None, insert_or_assign attrKey (BoolAttr True) attrs) lx)))"

text \<open>A \<^verbatim>\<open>scope\<close> record; a null result makes \<^verbatim>\<open>parseModule\<close> return null.\<close>

fun scopeHandlers :: "nat \<Rightarrow> string list \<Rightarrow> string list parser" where
  "scopeHandlers 0 handlers lx = Crash OutOfFuel"
| "scopeHandlers (Suc n) handlers lx =
     (let lx = getNextToken lx;
          again = (\<lambda>handlers lx.
            if curTok lx = tok_comma then scopeHandlers n handlers lx
            else if curTok lx \<noteq> tok_angle_bracket_close then
              parseError ''>'' ''to close scope handler list'' lx
            else thenP (consume tok_angle_bracket_close lx) (\<lambda>_ lx. Ok (Some handlers) lx))
      in if curTok lx \<noteq> tok_identifier then
           parseError ''handler name identifier'' ''in scope handler list'' lx
         else thenP (getId lx) (\<lambda>handler lx.
           thenP (consume tok_identifier lx) (\<lambda>_ lx.
           if curTok lx = tok_colon then
             thenP (consume tok_colon lx) (\<lambda>_ lx.
             if curTok lx \<noteq> tok_identifier then
               parseError ''handler name atom'' ''in scope handler list'' lx
             else thenP (getId lx) (\<lambda>atom lx.
               thenP (consume tok_identifier lx) (\<lambda>_ lx.
                 again (handlers @ [handler @ '':'' @ atom]) lx)))
           else again (handlers @ [handler]) lx)))"

definition parseScope :: "nat \<Rightarrow> location record_node parser" where
  "parseScope n lx =
     thenP (consume tok_scope lx) (\<lambda>_ lx.
     if curTok lx \<noteq> tok_identifier then parseError ''name identifier'' ''in scope declaration'' lx
     else thenP (getId lx) (\<lambda>name lx.
     thenP (consume tok_identifier lx) (\<lambda>_ lx.
     thenP (if curTok lx = tok_angle_bracket_open then scopeHandlers n [] lx else Ok (Some []) lx)
       (\<lambda>handlers lx. case handlers of None \<Rightarrow> Ok None lx
       | Some handlers \<Rightarrow>
     let finish = (\<lambda>partitionKey lx.
           let node = ScopeNode (lastLocation lx) name handlers partitionKey in
           thenP (consume tok_semicolon lx) (\<lambda>_ lx. Ok (Some node) lx))
     in if curTok lx = tok_sbracket_open then
          thenP (consume tok_sbracket_open lx) (\<lambda>_ lx.
          if curTok lx \<noteq> tok_identifier then
            parseError ''identifier'' ''in scope partition key'' lx
          else thenP (getId lx) (\<lambda>key lx.
            thenP (consume tok_identifier lx) (\<lambda>_ lx.
            if curTok lx \<noteq> tok_sbracket_close then
              parseError '']'' ''to close scope partition key'' lx
            else thenP (consume tok_sbracket_close lx) (\<lambda>_ lx. finish key lx))))
        else finish [] lx))))"

definition parseGlobal :: "nat \<Rightarrow> lexer \<Rightarrow> (location record_node, lexer) outcome" where
  "parseGlobal n lx =
     thenP (consume tok_global lx) (\<lambda>_ lx.
     thenP (parseDeclaration n False lx) (\<lambda>decl lx. case decl of
       None \<Rightarrow> Crash NullDeref
     | Some d \<Rightarrow>
       thenP (consume tok_semicolon lx) (\<lambda>_ lx. Ok (GlobalNode (decl_loc d) (decl_name d) d) lx)))"

text \<open>
  The loop of \<^verbatim>\<open>parseModule\<close>. A null record from \<^verbatim>\<open>parseDefinition\<close> or \<^verbatim>\<open>parseStruct\<close> leaves the
  loop, and whether the module is returned then depends on the current token alone.
\<close>

definition finishModule :: "location module_ast \<Rightarrow> location module_ast parser" where
  "finishModule records lx =
     (if curTok lx \<noteq> tok_eof then parseError ''nothing'' ''at end of module'' lx
      else Ok (Some records) lx)"

fun parseModuleLoop ::
    "nat \<Rightarrow> location module_ast \<Rightarrow> attributes \<Rightarrow> location module_ast parser" where
  "parseModuleLoop 0 records attributes lx = Crash OutOfFuel"
| "parseModuleLoop (Suc n) records attributes lx =
     (let tok = curTok lx;
          emit = (\<lambda>node lx. case node of
              None \<Rightarrow> finishModule records lx
            | Some node \<Rightarrow>
                parseModuleLoop n (records @ [\<lparr>rec_node = node, rec_attrs = attributes\<rparr>]) [] lx)
      in if tok = tok_eof then finishModule records lx
         else if tok = tok_def \<or> tok = tok_handler \<or> tok = tok_controller then
           thenP (parseDefinition n tok lx) emit
         else if tok = tok_struct \<or> tok = tok_event then
           thenP (parseStruct n tok lx) emit
         else if tok = tok_extern then
           (let attributes = insert_or_assign ''extern'' (BoolAttr True) attributes in
            thenP (consume tok_extern lx) (\<lambda>_ lx. parseModuleLoop n records attributes lx))
         else if tok = tok_sbracket_open then
           thenP (separateBy n tok_sbracket_open tok_sbracket_close tok_comma (attrElem n) attributes lx)
             (\<lambda>(ret, attributes) lx.
                if ret \<noteq> None then Ok ret lx else parseModuleLoop n records attributes lx)
         else if tok = tok_scope then
           thenP (parseScope n lx) (\<lambda>node lx. if node = None then Ok None lx else emit node lx)
         else if tok = tok_global then
           thenP (parseGlobal n lx) (\<lambda>node lx. emit (Some node) lx)
         else parseError ''Top level definitions (struct, function, global Ops)''
                ''when parsing top level module records'' lx)"

definition parseModule :: "nat \<Rightarrow> location module_ast parser" where
  "parseModule n lx = parseModuleLoop n [] [] (getNextToken lx)"

text \<open>\<^verbatim>\<open>parseInputFile\<close> of \<^verbatim>\<open>ep2c.cpp\<close>, on the contents of the file it has read.\<close>

definition parseInputFile :: "nat \<Rightarrow> string \<Rightarrow> string \<Rightarrow> (location module_ast option, lexer) outcome" where
  "parseInputFile n filename buffer = parseModule n (LexerBuffer buffer filename)"

end
