(* ===== verification/Ep2_Codegen.thy ===== *)
theory Ep2_Codegen
  imports Ep2_SSA Ep2_Parser
begin

text \<open>
  The claims on the code generator: the form of every module it returns, and the programs it
  rejects or crashes on.
\<close>

section \<open>The generated module\<close>

text \<open>Parsing and generation together, for the examples.\<close>

definition compile :: "string \<Rightarrow> (module_op list option, gen) outcome" where
  "compile buffer = (case parseInputFile (2 * length buffer + 8) ''f'' buffer of
     Ok (Some m) lx \<Rightarrow> mlirGen m
   | Ok None lx \<Rightarrow> Ok None MLIRGenImpl
   | Crash c \<Rightarrow> Crash c)"

definition module_of :: "string \<Rightarrow> location module_ast" where
  "module_of buffer = (case parseInputFile (2 * length buffer + 8) ''f'' buffer of
     Ok (Some m) lx \<Rightarrow> m | _ \<Rightarrow> [])"

definition branching_source :: string where
  "branching_source =
     ''handler EV:a (buf b, int n) { int x; x = 1; if (n < 3) { x = n + x; } else { int y; } return x; }''"

text \<open>
  C1: every module the generator returns is in single-assignment form: in each handler and
  controller every operand is an argument, a global or the result of an operation that dominates
  the use, no value is defined twice, the body ends in its only terminator, and a conditional
  yields on every branch exactly one value for each of its results.
\<close>

theorem mlirGen_module_ok:
  assumes "mlirGen m = Ok (Some ops) g"
  shows "module_ok {} ops"
  using mlirGen_safe [of m] assms by simp

theorem mlirGen_module_ok_witness:
  "\<exists>ops g. mlirGen (module_of branching_source) = Ok (Some ops) g \<and> length ops = 1 \<and> module_ok {} ops"
proof -
  have "case mlirGen (module_of branching_source) of Ok (Some ops) g \<Rightarrow> length ops = 1 | _ \<Rightarrow> False"
    by code_simp
  then obtain ops g where "mlirGen (module_of branching_source) = Ok (Some ops) g" "length ops = 1"
    by (auto split: outcome.splits option.splits)
  with mlirGen_module_ok [OF this(1)] show ?thesis
    by blast
qed

section \<open>Programs the generator rejects or crashes on\<close>

text \<open>
  a declaration \<^verbatim>\<open>int x = 3\<close> is always rejected. A literal has type \<^verbatim>\<open>i64\<close>, and the declaration
  compares its type with \<^verbatim>\<open>i32\<close> without the cast that an assignment inserts.
\<close>

theorem int_initialiser_rejected:
  "\<exists>g'. genVarDecl name (VarType ''int'' []) (Some (NumberExpr l v)) g = Ok None g' \<and>
     gerrs g' = gerrs g @ [''struct type of initializer is different than the variable declaration'']"
  by (simp add: genVarDecl_def genInitializer_def genNumber_def ret_value_def create1_def create_def checkDeclType_def
      retype_port_def builtin_type_def emitError_def value_type_def I64_def Let_def)

text \<open>
  an assignment to a handler parameter crashes: the generator asks which operation defines
  the value, and a parameter has none.
\<close>

theorem parameter_assignment_crashes:
  assumes "lookup g name = Some e" and "defining_op g (sym_value e) = None" and "sym_value e < length (vinfo g)"
    and "value_type g (sym_value e) = IntegerType w"
  shows "genExpr (BinaryExpr l tok_eq (PathExpr l [Variable l name]) (NumberExpr l v)) g = Crash NullDeref"
proof -
  define g1 where "g1 = g\<lparr>vinfo := vinfo g @ [(I64, Some (ConstantOp (IntAttr (to_signed64 v)), []))],
    block := block g @ [Op (ConstantOp (IntAttr (to_signed64 v))) [] [length (vinfo g)] []]\<rparr>"
  have const: "genExpr (NumberExpr l v) g = Ok (Some (length (vinfo g))) g1"
    by (simp add: genNumber_def ret_value_def create1_def create_def g1_def Let_def)
  have g1: "defining_op g1 (sym_value e) = None" "value_type g1 (sym_value e) = IntegerType w"
    "defining_op g1 (length (vinfo g)) = Some (ConstantOp (IntAttr (to_signed64 v)), [])"
    "value_type g1 (length (vinfo g)) = I64" "sym_value e < length (vinfo g1)"
    using assms by (simp_all add: g1_def defining_op_def value_type_def nth_append)
  have rv: "toRValue (length (vinfo g)) t g1 = Ok (length (vinfo g)) g1" for t
    by (simp add: toRValue_def g1 I64_def)
  have "genAssign t (sym_value e) r g2 = Crash NullDeref" if "defining_op g2 (sym_value e) = None" for t r g2
    using that by (simp add: genAssign_def)
  moreover have "\<exists>r g2. castConstants (sym_value e) (length (vinfo g)) g1 = Ok (sym_value e, r) g2 \<and>
      defining_op g2 (sym_value e) = None"
    using g1 by (auto simp: castConstants_def is_constant_def tryCast_def I64_def create1_def create_def
        Let_def defining_op_def nth_append)
  ultimately show ?thesis
    using assms(1) const rv g1(2)
    by (auto simp del: genExpr.simps(7) simp: genBinaryExpr_def getPath_def genVariable_def genBinary_def)
qed

theorem parameter_assignment_crashes_witness:
  "genExpr (BinaryExpr \<lparr>loc_file = '''', loc_line = 1, loc_col = 1\<rparr> tok_eq
       (PathExpr \<lparr>loc_file = '''', loc_line = 1, loc_col = 1\<rparr>
         [Variable \<lparr>loc_file = '''', loc_line = 1, loc_col = 1\<rparr> ''n''])
       (NumberExpr \<lparr>loc_file = '''', loc_line = 1, loc_col = 1\<rparr> 7))
     (MLIRGenImpl\<lparr>vinfo := [(IntegerType 32, None)],
        symtab := [[(''n'', \<lparr>sym_value = 0, sym_type = Some (IntegerType 32), sym_decl = None\<rparr>)]]\<rparr>) = Crash NullDeref"
  by (rule parameter_assignment_crashes
      [where e = "\<lparr>sym_value = 0, sym_type = Some (IntegerType 32), sym_decl = None\<rparr>" and w = 32])
    (simp_all add: lookup_def defining_op_def value_type_def MLIRGenImpl_def)

text \<open>
  a variable that a branch declares and then assigns crashes the generator: after the branch
  the name is in the update table but no longer in scope, and the result of the conditional gets
  a null type.
\<close>

theorem branch_local_assignment_crashes:
  "compile ''handler EV:a (buf b, int n) { if (n < 2) { int y; y = 1; } }'' = Crash AssertFail"
  by code_simp

text \<open>
  a call of a declared function without results, such as \<^verbatim>\<open>print\<close>, crashes the generator as
  soon as its arguments have been generated.
\<close>

theorem resultless_call_crashes:
  assumes "map_of (functionMap g) callee = Some []"
    and "callee \<notin> {''extract'', ''emit'', ''lookup'', ''update'', ''set'', ''get''}"
  shows "genCallee pl path args callee caller operands g = Crash AssertFail"
  using assms by (simp add: genCallee_def genUserCall_def)

theorem resultless_call_crashes_witness:
  "genCallee \<lparr>loc_file = '''', loc_line = 1, loc_col = 1\<rparr> [] [] ''print'' None [] MLIRGenImpl = Crash AssertFail"
  by (rule resultless_call_crashes) (simp_all add: MLIRGenImpl_def)

text \<open>
  a second declaration of a name that is still in scope, also from an enclosing block, makes
  generation fail without any diagnostic.
\<close>

theorem redeclaration_silent:
  assumes "lookup g name \<noteq> None"
  shows "\<exists>g'. genVarDecl name (VarType ''int'' []) None g = Ok None g' \<and> gerrs g' = gerrs g"
  using assms
  by (simp add: genVarDecl_def genInitializer_def ret_value_def create1_def create_def checkDeclType_def
      retype_port_def builtin_type_def emitError_def value_type_def Let_def declare_var_def lookup_def)

theorem redeclaration_silent_witness:
  "\<exists>g'. genVarDecl ''n'' (VarType ''int'' []) None
      (MLIRGenImpl\<lparr>symtab := [[], [(''n'', \<lparr>sym_value = 0, sym_type = None, sym_decl = None\<rparr>)]]\<rparr>) = Ok None g' \<and>
     gerrs g' = []"
  using redeclaration_silent [of "MLIRGenImpl\<lparr>symtab := [[], [(''n'', \<lparr>sym_value = 0, sym_type = None, sym_decl = None\<rparr>)]]\<rparr>" "''n''"]
  by (simp add: lookup_def MLIRGenImpl_def)

end
