(* ===== verification/Ep2_Dump.thy ===== *)
theory Ep2_Dump
  imports Ep2_AST
begin

text \<open>
  The tree dumper (\<^verbatim>\<open>ep2c/AST.cpp\<close>): the class \<^verbatim>\<open>ASTDumper\<close>, its indentation counter and the text it
  writes, and which trees it can print.
\<close>

section \<open>The dumper\<close>

text \<open>
  The state of \<^verbatim>\<open>ASTDumper\<close>: the indentation level, and the text written to \<^verbatim>\<open>stderr\<close>. The
  level is raised by the constructor of \<^verbatim>\<open>Indent\<close> and lowered by its destructor, when the
  function that declared it returns.
\<close>

record dumper =
  curIndent :: int
  out :: string

type_synonym dump = "dumper \<Rightarrow> (unit, dumper) outcome"

definition emit :: "string \<Rightarrow> dump" where
  "emit s d = Ok () (d\<lparr>out := out d @ s\<rparr>)"

definition indent :: dump where
  "indent d = emit (concat (replicate (nat (curIndent d)) ''  '')) d"

definition INDENT :: "dump \<Rightarrow> dump" where
  "INDENT body d =
     thenP (indent (d\<lparr>curIndent := curIndent d + 1\<rparr>)) (\<lambda>_ d.
     thenP (body d) (\<lambda>_ d. Ok () (d\<lparr>curIndent := curIndent d - 1\<rparr>)))"

definition seqD :: "dump \<Rightarrow> dump \<Rightarrow> dump" where
  "seqD f g d = thenP (f d) (\<lambda>_ d. g d)"

function dec :: "int \<Rightarrow> string" where
  "dec n = (if n < 10 then [to_char (n + 48)] else dec (n div 10) @ [to_char (n mod 10 + 48)])"
  by pat_completeness auto
termination
  by (relation "measure nat") auto

declare dec.simps [simp del]

definition show_int :: "int \<Rightarrow> string" where
  "show_int n = (if n < 0 then ''-'' @ dec (- n) else dec n)"

definition newline :: string where "newline = [CHR 0x0A]"

definition show_loc :: "location \<Rightarrow> string" where
  "show_loc l = ''@'' @ loc_file l @ '':'' @ dec (int (loc_line l)) @ '':'' @ dec (int (loc_col l))"

fun interleaveComma :: "string list \<Rightarrow> string" where
  "interleaveComma [] = ''''"
| "interleaveComma [s] = s"
| "interleaveComma (s # t # ss) = s @ '', '' @ interleaveComma (t # ss)"

definition kind_number :: "expr_kind \<Rightarrow> int" where
  "kind_number k = (case k of
     Expr_VarDecl \<Rightarrow> 0 | Expr_Return \<Rightarrow> 1 | Expr_Num \<Rightarrow> 2 | Expr_Literal \<Rightarrow> 3 | Expr_StructLiteral \<Rightarrow> 4
   | Expr_AtomLiteral \<Rightarrow> 5 | Expr_PortLiteral \<Rightarrow> 6 | Expr_Var \<Rightarrow> 7 | Expr_Path \<Rightarrow> 8 | Expr_BinOp \<Rightarrow> 9
   | Expr_Call \<Rightarrow> 10 | Expr_Init \<Rightarrow> 11 | Expr_IfElse \<Rightarrow> 12)"

text \<open>\<^verbatim>\<open>cast\<close> asserts that anything that is not a number is a literal.\<close>

fun printLitHelper :: "location expr \<Rightarrow> dump"
  and printLits :: "location expr list \<Rightarrow> dump" where
  "printLitHelper (NumberExpr l v) d = emit (show_int v) d"
| "printLitHelper (LiteralExpr l vs dims) d =
     seqD (emit (''<'' @ interleaveComma (map show_int dims) @ ''>[ ''))
       (seqD (printLits vs) (emit '']'')) d"
| "printLitHelper e d = Crash AssertFail"
| "printLits [] d = Ok () d"
| "printLits (v # vs) d =
     seqD (printLitHelper v) (if vs = [] then printLits vs else seqD (emit '', '') (printLits vs)) d"

definition dumpType :: "var_type \<Rightarrow> dump" where
  "dumpType t = emit (''<'' @ ty_name t @ ''>'')"

definition dumpVariable :: "location var_expr \<Rightarrow> dump" where
  "dumpVariable v = INDENT (emit (''var: '' @ var_name v @ '' '' @ show_loc (var_loc v) @ newline))"

text \<open>
  \<^verbatim>\<open>dump(ExprAST *)\<close> and the overloads it dispatches to. The dispatch dereferences its
  argument, so a null child is a crash; a variable declaration may have no initialiser.
\<close>

fun dumpExpr :: "location expr \<Rightarrow> dump"
  and dumpExprs :: "location expr list \<Rightarrow> dump"
  and dumpValues :: "location expr option list \<Rightarrow> dump" where
  "dumpExpr (VarDeclExpr l name t init) d = INDENT (\<lambda>d.
     thenP (seqD (emit (''VarDecl '' @ name)) (seqD (dumpType t) (emit ('' '' @ show_loc l @ newline))) d)
       (\<lambda>_ d. case init of None \<Rightarrow> Ok () d | Some e \<Rightarrow> dumpExpr e d)) d"
| "dumpExpr (ReturnExpr l ret) d = INDENT (\<lambda>d.
     thenP (emit (''Return'' @ newline) d) (\<lambda>_ d. case ret of
       None \<Rightarrow> INDENT (emit (''(void)'' @ newline)) d
     | Some None \<Rightarrow> Crash NullDeref
     | Some (Some e) \<Rightarrow> dumpExpr e d)) d"
| "dumpExpr (NumberExpr l v) d = INDENT (emit (show_int v @ '' '' @ show_loc l @ newline)) d"
| "dumpExpr (LiteralExpr l vs dims) d = INDENT (seqD (emit ''Literal: '')
     (seqD (printLitHelper (LiteralExpr l vs dims)) (emit ('' '' @ show_loc l @ newline)))) d"
| "dumpExpr (StructLiteralExpr l vs) d = INDENT (\<lambda>d.
     thenP (emit ''Struct Literal: '' d) (\<lambda>_ d.
     thenP (dumpValues vs d) (\<lambda>_ d. seqD indent (emit ('' '' @ show_loc l @ newline)) d))) d"
| "dumpExpr (VarExpr l n) d = dumpVariable (Variable l n) d"
| "dumpExpr (PathExpr l p) d = INDENT (emit (''path: '' @ print_path p @ newline)) d"
| "dumpExpr (BinaryExpr l op a b) d = INDENT (\<lambda>d.
     thenP (emit (''BinOp: '' @ [to_char op] @ '' '' @ show_loc l @ newline) d) (\<lambda>_ d.
     thenP (dumpExpr a d) (\<lambda>_ d. dumpExpr b d))) d"
| "dumpExpr (CallExpr l pl p args ins outs) d = INDENT (\<lambda>d.
     thenP (emit (''Call '' @ [CHR 0x27] @ print_path p @ [CHR 0x27] @ '' [ '' @ show_loc l @ newline) d) (\<lambda>_ d.
     thenP (dumpExprs args d) (\<lambda>_ d. seqD indent (emit ('']'' @ newline)) d))) d"
| "dumpExpr (InitExpr l t vs) d = INDENT (\<lambda>d.
     thenP (emit (''Init '' @ newline) d) (\<lambda>_ d.
     thenP (seqD (dumpType t) indent d) (\<lambda>_ d. dumpExprs vs d))) d"
| "dumpExpr (AtomLiteralExpr l a) d =
     INDENT (emit (''<unknown Expr, kind '' @ show_int (kind_number Expr_AtomLiteral) @ ''>'' @ newline)) d"
| "dumpExpr (PortLiteralExpr l e a i) d =
     INDENT (emit (''<unknown Expr, kind '' @ show_int (kind_number Expr_PortLiteral) @ ''>'' @ newline)) d"
| "dumpExpr (IfElseExpr l c a b) d =
     INDENT (emit (''<unknown Expr, kind '' @ show_int (kind_number Expr_IfElse) @ ''>'' @ newline)) d"
| "dumpExprs [] d = Ok () d"
| "dumpExprs (e # es) d = thenP (dumpExpr e d) (\<lambda>_ d. dumpExprs es d)"
| "dumpValues [] d = Ok () d"
| "dumpValues (v # vs) d =
     thenP (case v of None \<Rightarrow> Crash NullDeref | Some e \<Rightarrow> dumpExpr e d) (\<lambda>_ d. dumpValues vs d)"

definition dumpBlock :: "location expr list \<Rightarrow> dump" where
  "dumpBlock es = INDENT (seqD (emit (''Block {'' @ newline))
     (seqD (dumpExprs es) (seqD indent (emit (''} // Block'' @ newline)))))"

definition dumpDecl :: "location var_decl \<Rightarrow> dump" where
  "dumpDecl v = dumpExpr (VarDeclExpr (decl_loc v) (decl_name v) (decl_type v) (decl_init v))"

fun dumpDecls :: "location var_decl list \<Rightarrow> dump" where
  "dumpDecls [] d = Ok () d"
| "dumpDecls (v # vs) d = thenP (dumpDecl v d) (\<lambda>_ d. dumpDecls vs d)"

definition dumpProto :: "location prototype \<Rightarrow> dump" where
  "dumpProto p = INDENT
     (seqD (emit (''Proto '' @ [CHR 0x27] @ proto_name p @ [CHR 0x27] @ '' '' @ show_loc (proto_loc p) @ newline))
     (seqD indent
     (emit (''Params: ['' @ interleaveComma (map decl_name (proto_args p)) @ '']'' @ newline))))"

definition dumpFunction :: "location prototype \<Rightarrow> location expr list \<Rightarrow> dump" where
  "dumpFunction p body =
     INDENT (seqD (emit (''Function '' @ newline)) (seqD (dumpProto p) (dumpBlock body)))"

definition dumpStruct :: "bool \<Rightarrow> location \<Rightarrow> string \<Rightarrow> location var_decl list \<Rightarrow> dump" where
  "dumpStruct isEvent l name vars = INDENT
     (seqD (emit ((if isEvent then ''Event'' else ''Struct'') @ '': '' @ name @ '' '' @ show_loc l @ newline))
     (INDENT (seqD (emit (''Variables: ['' @ newline))
       (seqD (dumpDecls vars) (seqD indent (emit ('']'' @ newline)))))))"

text \<open>Functions and structs are dumped; scopes and globals have the record kinds 5 and 6.\<close>

fun dumpRecord :: "location record_node \<Rightarrow> dump" where
  "dumpRecord (FunctionNode p b) = dumpFunction p b"
| "dumpRecord (StructNode ev l n vs) = dumpStruct ev l n vs"
| "dumpRecord (ScopeNode l n hs k) = emit (''<unknown Record, kind 5>'' @ newline)"
| "dumpRecord (GlobalNode l n v) = emit (''<unknown Record, kind 6>'' @ newline)"

fun dumpRecords :: "location record_ast list \<Rightarrow> dump" where
  "dumpRecords [] d = Ok () d"
| "dumpRecords (r # rs) d = thenP (dumpRecord (rec_node r) d) (\<lambda>_ d. dumpRecords rs d)"

definition dump :: "location module_ast \<Rightarrow> (unit, dumper) outcome" where
  "dump m = INDENT (seqD (emit (''Module:'' @ newline)) (dumpRecords m)) \<lparr>curIndent = 0, out = ''''\<rparr>"

section \<open>What a dump does to the dumper\<close>

text \<open>
  A dump that returns has restored the indentation level and only appended text. One that
  does not return is a crash in every state.
\<close>

definition appends :: "dump \<Rightarrow> bool" where
  "appends f \<longleftrightarrow> (\<forall>d. \<exists>t. f d = Ok () (d\<lparr>out := out d @ t\<rparr>))"

definition fails :: "dump \<Rightarrow> bool" where
  "fails f \<longleftrightarrow> (\<forall>d. \<exists>c. f d = Crash c \<and> c \<noteq> OutOfFuel)"

definition behaves :: "bool \<Rightarrow> dump \<Rightarrow> bool" where
  "behaves b f \<longleftrightarrow> (if b then appends f else fails f)"

lemma behaves_emit [simp]: "behaves True (emit s)"
  by (auto simp: behaves_def appends_def emit_def)

lemma behaves_indent [simp]: "behaves True indent"
  by (auto simp: behaves_def appends_def indent_def emit_def)

lemma behaves_return [simp]: "behaves True (Ok ())"
  by (auto simp: behaves_def appends_def intro!: exI [of _ "[]"])

lemma behaves_crash [simp]: "c \<noteq> OutOfFuel \<Longrightarrow> behaves False (\<lambda>d. Crash c)"
  by (simp add: behaves_def fails_def)

lemma behaves_then:
  assumes "behaves a f" "behaves b g"
  shows "behaves (a \<and> b) (\<lambda>d. thenP (f d) (\<lambda>_. g))"
proof (cases a)
  case True
  then have f: "appends f" using assms by (simp add: behaves_def)
  show ?thesis
  proof (cases b)
    case True
    then have g: "appends g" using assms by (simp add: behaves_def)
    have "\<exists>t. thenP (f d) (\<lambda>_. g) = Ok () (d\<lparr>out := out d @ t\<rparr>)" for d
    proof -
      obtain t where t: "f d = Ok () (d\<lparr>out := out d @ t\<rparr>)" using f by (auto simp: appends_def)
      obtain u where "g (d\<lparr>out := out d @ t\<rparr>) = Ok () (d\<lparr>out := out d @ t @ u\<rparr>)"
        using g by (auto simp: appends_def dest!: spec [of _ "d\<lparr>out := out d @ t\<rparr>"])
      with t show ?thesis by auto
    qed
    with \<open>a\<close> True show ?thesis by (simp add: behaves_def appends_def)
  next
    case False
    then have g: "fails g" using assms by (simp add: behaves_def)
    have "\<exists>c. thenP (f d) (\<lambda>_. g) = Crash c \<and> c \<noteq> OutOfFuel" for d
    proof -
      obtain t where "f d = Ok () (d\<lparr>out := out d @ t\<rparr>)" using f by (auto simp: appends_def)
      with g show ?thesis by (simp add: fails_def)
    qed
    with False show ?thesis by (simp add: behaves_def fails_def)
  qed
next
  case False
  then have "fails f" using assms by (simp add: behaves_def)
  then have "\<exists>c. thenP (f d) (\<lambda>_. g) = Crash c \<and> c \<noteq> OutOfFuel" for d
    by (auto simp: fails_def dest!: spec [of _ d])
  with False show ?thesis by (simp add: behaves_def fails_def)
qed

lemma behaves_INDENT: "behaves b f \<Longrightarrow> behaves b (INDENT f)"
proof (cases b)
  case True
  assume "behaves b f"
  with True have f: "appends f" by (simp add: behaves_def)
  have "\<exists>t. INDENT f d = Ok () (d\<lparr>out := out d @ t\<rparr>)" for d
  proof -
    obtain s where s: "indent (d\<lparr>curIndent := curIndent d + 1\<rparr>)
        = Ok () (d\<lparr>curIndent := curIndent d + 1, out := out d @ s\<rparr>)"
      by (simp add: indent_def emit_def)
    obtain t where "f (d\<lparr>curIndent := curIndent d + 1, out := out d @ s\<rparr>)
        = Ok () (d\<lparr>curIndent := curIndent d + 1, out := out d @ s @ t\<rparr>)"
      using f by (auto simp: appends_def dest!: spec [of _ "d\<lparr>curIndent := curIndent d + 1, out := out d @ s\<rparr>"])
    with s show ?thesis by (auto simp: INDENT_def)
  qed
  with True show ?thesis by (simp add: behaves_def appends_def)
next
  case False
  assume "behaves b f"
  with False have f: "fails f" by (simp add: behaves_def)
  have "\<exists>c. INDENT f d = Crash c \<and> c \<noteq> OutOfFuel" for d
    using f [unfolded fails_def, rule_format, of "d\<lparr>curIndent := curIndent d + 1,
      out := out d @ concat (replicate (nat (curIndent d + 1)) (CHR '' '' # [CHR '' '']))\<rparr>"]
    by (auto simp: INDENT_def indent_def emit_def)
  with False show ?thesis by (simp add: behaves_def fails_def)
qed

lemma behaves_seqD: "behaves a f \<Longrightarrow> behaves b g \<Longrightarrow> behaves (a \<and> b) (seqD f g)"
  using behaves_then [of a f b g] by (simp add: seqD_def [abs_def])

lemma behaves_weaken: "behaves a f \<Longrightarrow> a = b \<Longrightarrow> behaves b f"
  by simp

text \<open>
  What the dumper needs of the nodes that it visits: no null child, and literals made of numbers
  and literals. Conditionals, atoms and ports are printed as unknown and their children are not
  visited; the same holds for scopes and globals below.
\<close>

fun lit_ok :: "'l expr \<Rightarrow> bool" where
  "lit_ok (NumberExpr l v) \<longleftrightarrow> True"
| "lit_ok (LiteralExpr l vs dims) \<longleftrightarrow> (\<forall>v \<in> set vs. lit_ok v)"
| "lit_ok e \<longleftrightarrow> False"

fun visit_ok :: "'l expr \<Rightarrow> bool" where
  "visit_ok (VarDeclExpr l n t init) \<longleftrightarrow> (case init of None \<Rightarrow> True | Some e \<Rightarrow> visit_ok e)"
| "visit_ok (ReturnExpr l ret) \<longleftrightarrow>
     (case ret of None \<Rightarrow> True | Some None \<Rightarrow> False | Some (Some e) \<Rightarrow> visit_ok e)"
| "visit_ok (LiteralExpr l vs dims) \<longleftrightarrow> (\<forall>v \<in> set vs. lit_ok v)"
| "visit_ok (StructLiteralExpr l vs) \<longleftrightarrow>
     (\<forall>v \<in> set vs. case v of None \<Rightarrow> False | Some e \<Rightarrow> visit_ok e)"
| "visit_ok (BinaryExpr l op a b) \<longleftrightarrow> visit_ok a \<and> visit_ok b"
| "visit_ok (CallExpr l pl p args ins outs) \<longleftrightarrow> (\<forall>a \<in> set args. visit_ok a)"
| "visit_ok (InitExpr l t vs) \<longleftrightarrow> (\<forall>v \<in> set vs. visit_ok v)"
| "visit_ok e \<longleftrightarrow> True"

lemma printLits_behaves:
  "(\<And>v. v \<in> set vs \<Longrightarrow> behaves (lit_ok v) (printLitHelper v)) \<Longrightarrow>
   behaves (\<forall>v \<in> set vs. lit_ok v) (printLits vs)"
proof (induction vs)
  case Nil
  have "printLits [] = Ok ()" by (rule ext) simp
  then show ?case by simp
next
  case (Cons v vs)
  let ?rest = "if vs = [] then printLits vs else seqD (emit '', '') (printLits vs)"
  have "printLits (v # vs) = seqD (printLitHelper v) ?rest" by (rule ext) simp
  moreover have "behaves (\<forall>v \<in> set vs. lit_ok v) (printLits vs)" using Cons by simp
  then have "behaves (\<forall>v \<in> set vs. lit_ok v) ?rest" using behaves_seqD [of True "emit '', ''"] by auto
  with Cons.prems [of v] have "behaves (lit_ok v \<and> (\<forall>v \<in> set vs. lit_ok v)) (seqD (printLitHelper v) ?rest)"
    by (intro behaves_seqD) simp_all
  ultimately show ?case by simp
qed

lemma printLitHelper_behaves: "behaves (lit_ok e) (printLitHelper e)"
proof (induction e)
  case (NumberExpr l v)
  have "printLitHelper (NumberExpr l v) = emit (show_int v)" by (rule ext) simp
  then show ?case by simp
next
  case (LiteralExpr l vs dims)
  let ?open = "emit (''<'' @ interleaveComma (map show_int dims) @ ''>[ '')"
  have "printLitHelper (LiteralExpr l vs dims) = seqD ?open (seqD (printLits vs) (emit '']''))"
    by (rule ext) simp
  moreover have "behaves (True \<and> (\<forall>v \<in> set vs. lit_ok v) \<and> True) (seqD ?open (seqD (printLits vs) (emit '']'')))"
    using LiteralExpr by (intro behaves_seqD printLits_behaves behaves_emit)
  ultimately show ?case by simp
qed (simp_all add: behaves_def fails_def)

lemmas behaves_intros = behaves_INDENT behaves_seqD behaves_then behaves_emit behaves_indent

lemma dumpExprs_behaves:
  "(\<And>e. e \<in> set es \<Longrightarrow> behaves (visit_ok e) (dumpExpr e)) \<Longrightarrow>
   behaves (\<forall>e \<in> set es. visit_ok e) (dumpExprs es)"
proof (induction es)
  case Nil
  have "dumpExprs [] = Ok ()" by (rule ext) simp
  then show ?case by simp
next
  case (Cons e es)
  have "dumpExprs (e # es) = (\<lambda>d. thenP (dumpExpr e d) (\<lambda>_. dumpExprs es))" by (rule ext) simp
  then show ?case
    using Cons behaves_then [of "visit_ok e" "dumpExpr e" "\<forall>e \<in> set es. visit_ok e" "dumpExprs es"] by simp
qed

definition value_ok :: "'l expr option \<Rightarrow> bool" where
  "value_ok v \<longleftrightarrow> (case v of None \<Rightarrow> False | Some e \<Rightarrow> visit_ok e)"

lemma dumpValues_behaves:
  "(\<And>e. Some e \<in> set vs \<Longrightarrow> behaves (visit_ok e) (dumpExpr e)) \<Longrightarrow>
   behaves (\<forall>v \<in> set vs. value_ok v) (dumpValues vs)"
proof (induction vs)
  case Nil
  have "dumpValues [] = Ok ()" by (rule ext) simp
  then show ?case by simp
next
  case (Cons v vs)
  let ?f = "case v of None \<Rightarrow> (\<lambda>d. Crash NullDeref) | Some e \<Rightarrow> dumpExpr e"
  have "dumpValues (v # vs) = (\<lambda>d. thenP (?f d) (\<lambda>_. dumpValues vs))"
    by (rule ext) (simp split: option.splits)
  moreover have "behaves (value_ok v) ?f"
    using Cons.prems by (cases v) (simp_all add: value_ok_def)
  ultimately show ?case
    using Cons behaves_then [of "value_ok v" ?f "\<forall>v \<in> set vs. value_ok v" "dumpValues vs"] by simp
qed

text \<open>The body of each overload, as a composition.\<close>

lemma dumpExpr_unfold:
  "dumpExpr (VarDeclExpr l n t init) = INDENT (\<lambda>d. thenP
     (seqD (emit (''VarDecl '' @ n)) (seqD (dumpType t) (emit ('' '' @ show_loc l @ newline))) d)
     (\<lambda>_. case init of None \<Rightarrow> Ok () | Some e \<Rightarrow> dumpExpr e))"
  "dumpExpr (ReturnExpr l ret) = INDENT (\<lambda>d. thenP (emit (''Return'' @ newline) d)
     (\<lambda>_. case ret of None \<Rightarrow> INDENT (emit (''(void)'' @ newline)) | Some None \<Rightarrow> (\<lambda>d. Crash NullDeref)
        | Some (Some e) \<Rightarrow> dumpExpr e))"
  "dumpExpr (StructLiteralExpr l vs) = INDENT (\<lambda>d. thenP (emit ''Struct Literal: '' d)
     (\<lambda>_ d. thenP (dumpValues vs d) (\<lambda>_. seqD indent (emit ('' '' @ show_loc l @ newline)))))"
  "dumpExpr (BinaryExpr l op a b) = INDENT (\<lambda>d. thenP
     (emit (''BinOp: '' @ [to_char op] @ '' '' @ show_loc l @ newline) d)
     (\<lambda>_ d. thenP (dumpExpr a d) (\<lambda>_. dumpExpr b)))"
  "dumpExpr (CallExpr l pl p args ins outs) = INDENT (\<lambda>d. thenP
     (emit (''Call '' @ [CHR 0x27] @ print_path p @ [CHR 0x27] @ '' [ '' @ show_loc l @ newline) d)
     (\<lambda>_ d. thenP (dumpExprs args d) (\<lambda>_. seqD indent (emit ('']'' @ newline)))))"
  "dumpExpr (InitExpr l t es) = INDENT (\<lambda>d. thenP (emit (''Init '' @ newline) d)
     (\<lambda>_ d. thenP (seqD (dumpType t) indent d) (\<lambda>_. dumpExprs es)))"
  by (rule ext; simp; rule arg_cong [where f = "\<lambda>f. INDENT f _"]; rule ext; 
      (rule thenP_cong; simp split: option.splits)?)+

lemma dumpExpr_unknown:
  "dumpExpr (AtomLiteralExpr l a) =
     INDENT (emit (''<unknown Expr, kind '' @ show_int (kind_number Expr_AtomLiteral) @ ''>'' @ newline))"
  "dumpExpr (PortLiteralExpr l e a i) =
     INDENT (emit (''<unknown Expr, kind '' @ show_int (kind_number Expr_PortLiteral) @ ''>'' @ newline))"
  "dumpExpr (IfElseExpr l c x y) =
     INDENT (emit (''<unknown Expr, kind '' @ show_int (kind_number Expr_IfElse) @ ''>'' @ newline))"
  by (rule ext; simp)+

lemma dumpType_behaves: "behaves True (dumpType t)"
  by (simp add: dumpType_def)

lemma dumpExpr_behaves: "behaves (visit_ok e) (dumpExpr e)"
proof (induction e)
  case (VarDeclExpr l n t init)
  have "behaves (case init of None \<Rightarrow> True | Some e \<Rightarrow> visit_ok e) (case init of None \<Rightarrow> Ok () | Some e \<Rightarrow> dumpExpr e)"
    using VarDeclExpr by (cases init) simp_all
  note b = behaves_INDENT [OF behaves_then [OF behaves_seqD [OF behaves_emit behaves_seqD [OF dumpType_behaves behaves_emit]] this]]
  show ?case unfolding dumpExpr_unfold using b by simp
next
  case (ReturnExpr l ret)
  have "behaves (visit_ok (ReturnExpr l ret))
      (case ret of None \<Rightarrow> INDENT (emit (''(void)'' @ newline)) | Some None \<Rightarrow> (\<lambda>d. Crash NullDeref)
        | Some (Some e) \<Rightarrow> dumpExpr e)"
    using ReturnExpr by (auto simp: behaves_INDENT split: option.splits)
  note b = behaves_INDENT [OF behaves_then [OF behaves_emit this]]
  show ?case unfolding dumpExpr_unfold using b by simp
next
  case (NumberExpr l v)
  have "dumpExpr (NumberExpr l v) = INDENT (emit (show_int v @ '' '' @ show_loc l @ newline))"
    by (rule ext) simp
  then show ?case by (simp add: behaves_INDENT)
next
  case (LiteralExpr l vs dims)
  have "dumpExpr (LiteralExpr l vs dims) = INDENT (seqD (emit ''Literal: '')
     (seqD (printLitHelper (LiteralExpr l vs dims)) (emit ('' '' @ show_loc l @ newline))))"
    by (rule ext) simp
  with behaves_INDENT [OF behaves_seqD [OF behaves_emit behaves_seqD
    [OF printLitHelper_behaves [of "LiteralExpr l vs dims"] behaves_emit]]]
  show ?case by simp
next
  case (StructLiteralExpr l vs)
  have "behaves (\<forall>v \<in> set vs. value_ok v) (dumpValues vs)"
    by (rule dumpValues_behaves) (use StructLiteralExpr in auto)
  note b = behaves_INDENT [OF behaves_then [OF behaves_emit behaves_then [OF this behaves_seqD [OF behaves_indent behaves_emit]]]]
  show ?case unfolding dumpExpr_unfold using b by (simp add: value_ok_def)
next
  case (BinaryExpr l op a b)
  note c = behaves_INDENT [OF behaves_then [OF behaves_emit behaves_then [OF BinaryExpr]]]
  show ?case unfolding dumpExpr_unfold using c by simp
next
  case (CallExpr l pl p args ins outs)
  note b = behaves_INDENT [OF behaves_then [OF behaves_emit
    behaves_then [OF dumpExprs_behaves behaves_seqD [OF behaves_indent behaves_emit]]]]
  show ?case unfolding dumpExpr_unfold using b [of args] CallExpr by simp
next
  case (InitExpr l t es)
  note b = behaves_INDENT [OF behaves_then [OF behaves_emit
    behaves_then [OF behaves_seqD [OF dumpType_behaves behaves_indent] dumpExprs_behaves]]]
  show ?case unfolding dumpExpr_unfold using b [of es] InitExpr by simp
next
  case (VarExpr l n)
  have "dumpExpr (VarExpr l n) = dumpVariable (Variable l n)" by (rule ext) simp
  then show ?case by (simp add: dumpVariable_def behaves_INDENT)
next
  case (PathExpr l p)
  have "dumpExpr (PathExpr l p) = INDENT (emit (''path: '' @ print_path p @ newline))" by (rule ext) simp
  then show ?case by (simp add: behaves_INDENT)
qed (simp_all add: behaves_INDENT dumpExpr_unknown)

section \<open>Modules\<close>

definition decl_visit_ok :: "'l var_decl \<Rightarrow> bool" where
  "decl_visit_ok v \<longleftrightarrow> (case decl_init v of None \<Rightarrow> True | Some e \<Rightarrow> visit_ok e)"

fun record_visit_ok :: "'l record_node \<Rightarrow> bool" where
  "record_visit_ok (FunctionNode p b) \<longleftrightarrow> (\<forall>e \<in> set b. visit_ok e)"
| "record_visit_ok (StructNode ev l n vs) \<longleftrightarrow> (\<forall>v \<in> set vs. decl_visit_ok v)"
| "record_visit_ok _ \<longleftrightarrow> True"

lemma dumpDecls_behaves: "behaves (\<forall>v \<in> set vs. decl_visit_ok v) (dumpDecls vs)"
proof (induction vs)
  case Nil
  have "dumpDecls [] = Ok ()" by (rule ext) simp
  then show ?case by simp
next
  case (Cons v vs)
  have "behaves (decl_visit_ok v) (dumpDecl v)"
    using dumpExpr_behaves [of "VarDeclExpr (decl_loc v) (decl_name v) (decl_type v) (decl_init v)"]
    by (simp add: decl_visit_ok_def dumpDecl_def)
  moreover have "dumpDecls (v # vs) = (\<lambda>d. thenP (dumpDecl v d) (\<lambda>_. dumpDecls vs))" by (rule ext) simp
  ultimately show ?case using behaves_then [OF _ Cons, of "decl_visit_ok v" "dumpDecl v"] by simp
qed

lemma dumpRecord_behaves: "behaves (record_visit_ok r) (dumpRecord r)"
proof (cases r)
  case (FunctionNode p b)
  have "behaves True (dumpProto p)"
    using behaves_INDENT [OF behaves_seqD [OF behaves_emit behaves_seqD [OF behaves_indent behaves_emit]]]
    by (simp add: dumpProto_def)
  moreover have "behaves (\<forall>e \<in> set b. visit_ok e) (dumpBlock b)"
    using behaves_INDENT [OF behaves_seqD [OF behaves_emit behaves_seqD [OF dumpExprs_behaves
      behaves_seqD [OF behaves_indent behaves_emit]]], OF dumpExpr_behaves]
    by (simp add: dumpBlock_def)
  ultimately show ?thesis
    using behaves_INDENT [OF behaves_seqD [OF behaves_emit behaves_seqD]] FunctionNode
    by (fastforce simp: dumpFunction_def)
next
  case (StructNode ev l n vs)
  note vars = behaves_INDENT [OF behaves_seqD [OF behaves_emit behaves_seqD [OF dumpDecls_behaves
    behaves_seqD [OF behaves_indent behaves_emit]]]]
  show ?thesis
    using behaves_INDENT [OF behaves_seqD [OF behaves_emit vars]] StructNode by (simp add: dumpStruct_def)
qed simp_all

lemma dumpRecords_behaves: "behaves (\<forall>r \<in> set rs. record_visit_ok (rec_node r)) (dumpRecords rs)"
proof (induction rs)
  case Nil
  have "dumpRecords [] = Ok ()" by (rule ext) simp
  then show ?case by simp
next
  case (Cons r rs)
  have "dumpRecords (r # rs) = (\<lambda>d. thenP (dumpRecord (rec_node r) d) (\<lambda>_. dumpRecords rs))" by (rule ext) simp
  then show ?case using behaves_then [OF dumpRecord_behaves Cons, of "rec_node r"] by simp
qed

lemma dump_no_fuel: "dump m \<noteq> Crash OutOfFuel"
proof -
  have "behaves (\<forall>r \<in> set m. record_visit_ok (rec_node r)) (INDENT (seqD (emit (''Module:'' @ newline)) (dumpRecords m)))"
    using behaves_INDENT [OF behaves_seqD [OF behaves_emit dumpRecords_behaves [of m]]] by simp
  then show ?thesis
    unfolding behaves_def appends_def fails_def dump_def
    by (metis crash.distinct outcome.distinct(1) outcome.inject(2))
qed

text \<open>
  The dump returns, with the indentation level back at zero, exactly when no visited node has a
  null child or a malformed literal; otherwise it crashes.
\<close>

theorem dump_returns_iff:
  "(\<exists>d. dump m = Ok () d \<and> curIndent d = 0) \<longleftrightarrow> list_all (\<lambda>r. record_visit_ok (rec_node r)) m"
proof -
  note b = behaves_INDENT [OF behaves_seqD [OF behaves_emit dumpRecords_behaves [of m]]]
  show ?thesis
  proof (cases "\<forall>r \<in> set m. record_visit_ok (rec_node r)")
    case True
    with b have "appends (INDENT (seqD (emit (''Module:'' @ newline)) (dumpRecords m)))"
      by (simp add: behaves_def)
    then obtain t where "dump m = Ok () \<lparr>curIndent = 0, out = t\<rparr>"
      unfolding appends_def dump_def by (metis dumper.select_convs(2) dumper.update_convs(2))
    with True show ?thesis by (simp add: list_all_iff)
  next
    case False
    with b have "fails (INDENT (seqD (emit (''Module:'' @ newline)) (dumpRecords m)))"
      by (simp add: behaves_def)
    then obtain c where "dump m = Crash c" by (auto simp: fails_def dump_def)
    with False show ?thesis by (simp add: list_all_iff)
  qed
qed

end
