(* ===== verification/Ep2_Reader.thy ===== *)
theory Ep2_Reader
  imports Ep2_Lexer
begin

text \<open>
  The character reader below the lexer: the line buffering of \<^verbatim>\<open>LexerBuffer\<close> refines a plain
  stream of bytes (locale \<open>char_reader\<close>, interpreted on \<open>getNextChar\<close>), and the line and column
  counters count what was read.
\<close>

section \<open>The line-buffered reader as a character stream\<close>

definition stream :: "lexer \<Rightarrow> string" where
  "stream lx = curLineBuffer lx @ takeWhile (\<lambda>c. c \<noteq> CHR 0x00) (current lx)"

definition reader_ok :: "lexer \<Rightarrow> bool" where
  "reader_ok lx \<longleftrightarrow> (curLineBuffer lx = [] \<longrightarrow> takeWhile (\<lambda>c. c \<noteq> CHR 0x00) (current lx) = [])"

abbreviation (input) "notNul \<equiv> \<lambda>c. c \<noteq> CHR 0x00"
abbreviation (input) "inLine \<equiv> \<lambda>c. c \<noteq> CHR 0x00 \<and> c \<noteq> CHR 0x0A"

lemma takeWhile_line:
  "takeWhile notNul cur = takeWhile inLine cur @ takeWhile notNul (dropWhile inLine cur)"
  by (induction cur) simp_all

lemma dropWhile_line: "dropWhile inLine cur = c # cs \<Longrightarrow> c = CHR 0x00 \<or> c = CHR 0x0A"
  by (auto simp: dropWhile_eq_Cons_conv)

lemma readNextLine_cases:
  "readNextLine cur =
     (case dropWhile inLine cur of [] \<Rightarrow> (takeWhile inLine cur, [])
      | c # cs \<Rightarrow> if c = CHR 0x00 then (takeWhile inLine cur, c # cs)
                  else (takeWhile inLine cur @ [c], cs))"
  unfolding readNextLine_def Let_def by (intro list.case_cong) auto

lemma stream_readNextLine:
  assumes "readNextLine cur = (l, cur')"
  shows "l @ takeWhile notNul cur' = takeWhile notNul cur \<and> (l = [] \<longrightarrow> takeWhile notNul cur' = [])"
proof (cases "dropWhile inLine cur")
  case Nil
  with assms takeWhile_line [of cur] show ?thesis by (simp add: readNextLine_cases)
next
  case (Cons c cs)
  show ?thesis
  proof (cases "c = CHR 0x00")
    case True
    with assms Cons have "l = takeWhile inLine cur" "cur' = c # cs"
      by (simp_all add: readNextLine_cases)
    with True Cons takeWhile_line [of cur] show ?thesis by simp
  next
    case False
    with assms Cons have "l = takeWhile inLine cur @ [c]" "cur' = cs"
      by (simp_all add: readNextLine_cases)
    with False Cons takeWhile_line [of cur] show ?thesis by simp
  qed
qed

lemma getNextChar_Nil: "curLineBuffer lx = [] \<Longrightarrow> getNextChar lx = (EOF, lx)"
  by (simp add: getNextChar_def)

lemma reader_end: "reader_ok lx \<Longrightarrow> stream lx = [] \<Longrightarrow> getNextChar lx = (EOF, lx)"
  by (simp add: stream_def getNextChar_Nil)

lemma reader_char:
  assumes "reader_ok lx" and "stream lx = c # cs"
  shows "fst (getNextChar lx) = signed_char c" and "stream (snd (getNextChar lx)) = cs"
    and "reader_ok (snd (getNextChar lx))"
proof -
  obtain buf where buf: "curLineBuffer lx = c # buf"
    using assms by (cases "curLineBuffer lx") (auto simp: stream_def reader_ok_def)
  obtain l cur where rd: "readNextLine (current lx) = (l, cur)"
    by fastforce
  show "fst (getNextChar lx) = signed_char c"
    by (simp add: getNextChar_def buf Let_def)
  show "stream (snd (getNextChar lx)) = cs" "reader_ok (snd (getNextChar lx))"
    using assms buf rd stream_readNextLine [OF rd]
    by (auto simp: getNextChar_def Let_def stream_def reader_ok_def)
qed

locale char_reader =
  fixes "next" :: "'s \<Rightarrow> int \<times> 's" and rest :: "'s \<Rightarrow> string" and ok :: "'s \<Rightarrow> bool"
  assumes next_end: "ok s \<Longrightarrow> rest s = [] \<Longrightarrow> next s = (EOF, s)"
    and next_char: "ok s \<Longrightarrow> rest s = c # cs \<Longrightarrow> fst (next s) = signed_char c"
    and next_rest: "ok s \<Longrightarrow> rest s = c # cs \<Longrightarrow> rest (snd (next s)) = cs"
    and next_ok: "ok s \<Longrightarrow> rest s = c # cs \<Longrightarrow> ok (snd (next s))"
begin

lemma step: "ok s \<Longrightarrow> ok (snd (next s)) \<and> rest (snd (next s)) = tl (rest s)"
  by (cases "rest s") (auto simp: next_end next_rest intro: next_ok)

lemma steps: "ok s \<Longrightarrow> ok (((snd \<circ> next) ^^ k) s) \<and> rest (((snd \<circ> next) ^^ k) s) = drop k (rest s)"
  by (induction k) (auto simp: step drop_Suc tl_drop)

lemma nth_char:
  "ok s \<Longrightarrow> k < length (rest s) \<Longrightarrow> fst (next (((snd \<circ> next) ^^ k) s)) = signed_char (rest s ! k)"
  using steps [of s k] next_char [of "((snd \<circ> next) ^^ k) s" "rest s ! k" "drop (Suc k) (rest s)"]
  by (simp add: Cons_nth_drop_Suc)

lemma past_end: "ok s \<Longrightarrow> length (rest s) \<le> k \<Longrightarrow> fst (next (((snd \<circ> next) ^^ k) s)) = EOF"
  using steps [of s k] next_end [of "((snd \<circ> next) ^^ k) s"] by simp

end

interpretation buffer: char_reader getNextChar stream reader_ok
  by unfold_locales (auto simp: reader_end reader_char)

text \<open>Line and column of the reader after a prefix of the stream.\<close>

fun line_after :: "nat \<Rightarrow> string \<Rightarrow> nat" where
  "line_after l [] = l"
| "line_after l (c # cs) = line_after (if c = CHR 0x0A then l + 1 else l) cs"

fun col_after :: "nat \<Rightarrow> string \<Rightarrow> nat" where
  "col_after k [] = k"
| "col_after k (c # cs) = col_after (if c = CHR 0x0A then 0 else k + 1) cs"

lemma getNextChar_position:
  assumes "reader_ok lx" "stream lx = c # cs"
  shows "curLineNum (snd (getNextChar lx)) = (if c = CHR 0x0A then curLineNum lx + 1 else curLineNum lx)"
    and "curCol (snd (getNextChar lx)) = (if c = CHR 0x0A then 0 else curCol lx + 1)"
proof -
  obtain buf where "curLineBuffer lx = c # buf"
    using assms by (cases "curLineBuffer lx") (auto simp: stream_def reader_ok_def)
  then show "curLineNum (snd (getNextChar lx)) = (if c = CHR 0x0A then curLineNum lx + 1 else curLineNum lx)"
    "curCol (snd (getNextChar lx)) = (if c = CHR 0x0A then 0 else curCol lx + 1)"
    by (auto simp: getNextChar_def Let_def split: prod.splits)
qed

lemma position_steps:
  "reader_ok lx \<Longrightarrow> k \<le> length (stream lx) \<Longrightarrow>
   curLineNum (((snd \<circ> getNextChar) ^^ k) lx) = line_after (curLineNum lx) (take k (stream lx)) \<and>
   curCol (((snd \<circ> getNextChar) ^^ k) lx) = col_after (curCol lx) (take k (stream lx))"
proof (induction k arbitrary: lx)
  case (Suc k)
  then obtain c cs where cs: "stream lx = c # cs" by (cases "stream lx") auto
  show ?case
    using Suc.IH [of "snd (getNextChar lx)"] Suc.prems cs reader_char [OF Suc.prems(1) cs]
      getNextChar_position [OF Suc.prems(1) cs]
    by (simp add: funpow_Suc_right del: funpow.simps)
qed simp

lemma line_after_count: "line_after l p = l + count_list p (CHR 0x0A)"
  by (induction l p rule: line_after.induct) auto

end
