(* ===== verification/Ep2_Lexer_Props.thy ===== *)
theory Ep2_Lexer_Props
  imports Ep2_Reader
begin

text \<open>
  The scanner: what scanning leaves alone, the refinement of \<^verbatim>\<open>getTokInput\<close> to a reference
  lexer on strings (\<open>lexSpec\<close>), and progress: every token other than the end of file uses up
  input (locale \<open>token_source\<close>, interpreted on \<open>getNextToken\<close>).
\<close>

section \<open>What scanning leaves alone\<close>

definition frame :: "lexer \<Rightarrow> token \<times> location \<times> dbl \<times> (token \<times> string) list \<times> diag list" where
  "frame lx = (curTok lx, lastLocation lx, numVal lx, tokens lx, errs lx)"

lemma frame_eqD:
  assumes "frame lx = frame lx'"
  shows "curTok lx = curTok lx'" "lastLocation lx = lastLocation lx'" "numVal lx = numVal lx'"
    "tokens lx = tokens lx'" "errs lx = errs lx'"
  using assms by (simp_all add: frame_def)

lemma frame_nextLastChar: "frame (nextLastChar lx) = frame lx"
  and ident_nextLastChar [simp]: "identifierStr (nextLastChar lx) = identifierStr lx"
  by (auto simp: frame_def nextLastChar_def getNextChar_def Let_def split: prod.splits list.splits)

lemma frame_identifierStr [simp]: "frame (lx\<lparr>identifierStr := s\<rparr>) = frame lx"
  by (simp add: frame_def)

lemma frame_skipWhitespace: "frame (skipWhitespace lx) = frame lx \<and> identifierStr (skipWhitespace lx) = identifierStr lx"
proof (induction lx rule: skipWhitespace.induct)
  case (1 lx)
  then show ?case by (simp add: skipWhitespace.simps [of lx] frame_nextLastChar)
qed

lemma frame_skipComment: "frame (skipComment lx) = frame lx \<and> identifierStr (skipComment lx) = identifierStr lx"
proof (induction lx rule: skipComment.induct)
  case (1 lx)
  then show ?case by (simp add: skipComment.simps [of lx] frame_nextLastChar Let_def)
qed

lemma frame_readIdent: "frame (readIdent lx) = frame lx"
proof (induction lx rule: readIdent.induct)
  case (1 lx)
  then show ?case by (simp add: readIdent.simps [of lx] frame_nextLastChar Let_def)
qed

lemma frame_readNumber:
  "frame (snd (readNumber lx s)) = frame lx \<and> identifierStr (snd (readNumber lx s)) = identifierStr lx"
proof (induction lx s rule: readNumber.induct)
  case (1 lx s)
  then show ?case by (simp add: readNumber.simps [of lx s] frame_nextLastChar Let_def)
qed

lemmas nextLastChar_frame [simp] = frame_eqD [OF frame_nextLastChar]
lemmas skipWhitespace_frame [simp] =
  frame_eqD [OF conjunct1 [OF frame_skipWhitespace]] conjunct2 [OF frame_skipWhitespace]
lemmas skipComment_frame [simp] =
  frame_eqD [OF conjunct1 [OF frame_skipComment]] conjunct2 [OF frame_skipComment]
lemmas readIdent_frame [simp] = frame_eqD [OF frame_readIdent]
lemmas readNumber_frame [simp] =
  frame_eqD [OF conjunct1 [OF frame_readNumber]] conjunct2 [OF frame_readNumber]

lemma saveLocation_frame [simp]:
  "curTok (saveLocation lx) = curTok lx" "identifierStr (saveLocation lx) = identifierStr lx"
  "numVal (saveLocation lx) = numVal lx" "tokens (saveLocation lx) = tokens lx"
  "errs (saveLocation lx) = errs lx"
  by (simp_all add: saveLocation_def)

lemma getTokInput_frame':
  "curTok (snd (getTokInput lx)) = curTok lx \<and> errs (snd (getTokInput lx)) = errs lx \<and>
   (tokens lx = [] \<longrightarrow> tokens (snd (getTokInput lx)) = [])"
proof (induction lx rule: getTokInput.induct)
  case (1 lx)
  then show ?case
    by (simp add: getTokInput.simps [of lx] Let_def popToken_def case_prod_beta)
qed

lemmas getTokInput_frame [simp] =
  conjunct1 [OF getTokInput_frame'] conjunct1 [OF conjunct2 [OF getTokInput_frame']]
  mp [OF conjunct2 [OF conjunct2 [OF getTokInput_frame']]]

section \<open>Peeking\<close>

lemma peek_next:
  assumes "tokens lx = []"
  shows "getNextToken (snd (peekNextToken lx)) = getNextToken lx"
    and "fst (peekNextToken lx) = curTok (getNextToken lx)"
    and "peekNextToken (snd (peekNextToken lx)) = peekNextToken lx"
    and "getIdentiferStr (snd (peekNextToken lx)) = getIdentiferStr lx"
    and "curTok (snd (peekNextToken lx)) = curTok lx"
  using assms
  by (simp_all add: getNextToken_def peekNextToken_def getTok_def Let_def case_prod_beta getIdentiferStr_def)

section \<open>The lexer against a reference on strings\<close>

definition space_char :: "char \<Rightarrow> bool" where "space_char c = isspace (signed_char c)"
definition alpha_char :: "char \<Rightarrow> bool" where "alpha_char c = isalpha (signed_char c)"
definition ident_char :: "char \<Rightarrow> bool" where
  "ident_char c \<longleftrightarrow> isalnum (signed_char c) \<or> c = CHR ''_''"
definition num_char :: "char \<Rightarrow> bool" where
  "num_char c \<longleftrightarrow> is_digit_char c \<or> c = CHR ''.''"
definition comment_char :: "char \<Rightarrow> bool" where
  "comment_char c \<longleftrightarrow> c \<noteq> CHR 0x0A \<and> c \<noteq> CHR 0x0D"

datatype lexeme = LIdent string | LNum string | LOp token | LEof

fun token_of :: "lexeme \<Rightarrow> token" where
  "token_of (LIdent s) = keyword s"
| "token_of (LNum s) = tok_number"
| "token_of (LOp t) = t"
| "token_of LEof = tok_eof"

function lexSpec :: "string \<Rightarrow> lexeme \<times> string" where
  "lexSpec s =
     (case dropWhile space_char s of [] \<Rightarrow> (LEof, [])
      | c # cs \<Rightarrow>
        if alpha_char c then (LIdent (c # takeWhile ident_char cs), dropWhile ident_char cs)
        else if is_digit_char c then (LNum (c # takeWhile num_char cs), dropWhile num_char cs)
        else if c = CHR ''#'' then
          (case dropWhile comment_char cs of [] \<Rightarrow> (LEof, []) | d # ds \<Rightarrow> lexSpec (d # ds))
        else if c = CHR ''='' \<or> c = CHR ''<'' \<or> c = CHR ''>'' then
          (case cs of d # ds \<Rightarrow> if d = CHR ''='' then (LOp (cmpToken (signed_char c)), ds)
                                else (LOp (signed_char c), cs)
           | [] \<Rightarrow> (LOp (signed_char c), cs))
        else (LOp (signed_char c), cs))"
  by pat_completeness auto
termination
proof (relation "measure length", simp)
  fix s c cs d ds
  assume s: "dropWhile space_char s = c # cs" and cs: "dropWhile comment_char cs = d # ds"
  have "length (d # ds) \<le> length cs" using length_dropWhile_le [of comment_char cs] by (simp only: cs)
  moreover have "length (c # cs) \<le> length s" using length_dropWhile_le [of space_char s] by (simp only: s)
  ultimately show "(d # ds, s) \<in> measure length" by simp
qed

declare lexSpec.simps [simp del]

lemma lexSpec_Nil: "dropWhile space_char s = [] \<Longrightarrow> lexSpec s = (LEof, [])"
  by (simp add: lexSpec.simps [of s] del: dropWhile_eq_Nil_conv)


text \<open>
  What the lexer still has to scan: nothing once the read-ahead character is EOF, else that
  character and the stream up to a byte that reads as EOF.
\<close>

definition view :: "lexer \<Rightarrow> string" where
  "view lx = (if lastChar lx = EOF then []
              else to_char (lastChar lx) # takeWhile (\<lambda>c. signed_char c \<noteq> EOF) (stream lx))"

text \<open>The read-ahead character is EOF or the widening of a character.\<close>

definition scan_ok :: "lexer \<Rightarrow> bool" where
  "scan_ok lx \<longleftrightarrow> reader_ok lx \<and> (\<exists>c. lastChar lx = signed_char c)"

lemma signed_char_EOF: "signed_char (CHR 0xFF) = EOF"
  by (simp add: signed_char_def EOF_def)

lemma scan_ok_nextLastChar: "scan_ok lx \<Longrightarrow> scan_ok (nextLastChar lx)"
  using buffer.step [of lx] reader_char [of lx] reader_end [of lx]
  by (cases "stream lx")
     (auto simp: scan_ok_def nextLastChar_def case_prod_beta reader_ok_def simp flip: signed_char_EOF)

lemma stream_upd [simp]: "stream (lx\<lparr>lastChar := c\<rparr>) = stream lx"
  by (simp add: stream_def)

lemma view_nextLastChar:
  assumes "scan_ok lx" "lastChar lx \<noteq> EOF"
  shows "view (nextLastChar lx) = tl (view lx)"
proof (cases "stream lx")
  case Nil
  with assms reader_end [of lx] show ?thesis by (simp add: scan_ok_def nextLastChar_def view_def)
next
  case (Cons c cs)
  with assms reader_char [of lx c cs] show ?thesis
    by (auto simp: scan_ok_def nextLastChar_def view_def case_prod_beta)
qed

lemma view_Cons:
  "view lx = c # cs \<longleftrightarrow> lastChar lx \<noteq> EOF \<and> to_char (lastChar lx) = c \<and>
     cs = takeWhile (\<lambda>c. signed_char c \<noteq> EOF) (stream lx)"
  by (auto simp: view_def)

lemma lastChar_view: "scan_ok lx \<Longrightarrow> view lx = c # cs \<Longrightarrow> lastChar lx = signed_char c"
  by (auto simp: view_Cons scan_ok_def)

lemma view_Nil: "view lx = [] \<longleftrightarrow> lastChar lx = EOF"
  by (simp add: view_def)

lemma view_tl: "scan_ok lx \<Longrightarrow> view lx = c # cs \<Longrightarrow> view (nextLastChar lx) = cs"
  by (simp add: view_nextLastChar view_Cons) (simp add: view_def)

lemma skipWhitespace_view:
  "scan_ok lx \<Longrightarrow> scan_ok (skipWhitespace lx) \<and> view (skipWhitespace lx) = dropWhile space_char (view lx)"
proof (induction lx rule: skipWhitespace.induct)
  case (1 lx)
  show ?case
  proof (cases "view lx")
    case Nil
    then have "lastChar lx = EOF" by (simp add: view_Nil)
    with 1 Nil show ?thesis
      by (simp add: skipWhitespace.simps [of lx] isspace_def EOF_def)
  next
    case (Cons c cs)
    with 1 show ?thesis
      by (simp add: skipWhitespace.simps [of lx] lastChar_view space_char_def
          scan_ok_nextLastChar view_tl)
  qed
qed

lemma view_upd [simp]:
  "view (lx\<lparr>identifierStr := s\<rparr>) = view lx" "scan_ok (lx\<lparr>identifierStr := s\<rparr>) = scan_ok lx"
  "view (lx\<lparr>numVal := v\<rparr>) = view lx" "scan_ok (lx\<lparr>numVal := v\<rparr>) = scan_ok lx"
  "view (lx\<lparr>lastLocation := l\<rparr>) = view lx" "scan_ok (lx\<lparr>lastLocation := l\<rparr>) = scan_ok lx"
  "view (lx\<lparr>curTok := t\<rparr>) = view lx" "scan_ok (lx\<lparr>curTok := t\<rparr>) = scan_ok lx"
  "view (lx\<lparr>tokens := q\<rparr>) = view lx" "scan_ok (lx\<lparr>tokens := q\<rparr>) = scan_ok lx"
  "view (lx\<lparr>errs := e\<rparr>) = view lx" "scan_ok (lx\<lparr>errs := e\<rparr>) = scan_ok lx"
  by (simp_all add: view_def scan_ok_def stream_def reader_ok_def)

lemma view_saveLocation [simp]: "view (saveLocation lx) = view lx" "scan_ok (saveLocation lx) = scan_ok lx"
  by (simp_all add: saveLocation_def)

lemma signed_char_lit:
  "signed_char c = 95 \<longleftrightarrow> c = CHR ''_''" "signed_char c = 46 \<longleftrightarrow> c = CHR ''.''"
  "signed_char c = 10 \<longleftrightarrow> c = CHR 0x0A" "signed_char c = 13 \<longleftrightarrow> c = CHR 0x0D"
  "signed_char c = 35 \<longleftrightarrow> c = CHR ''#''" "signed_char c = 61 \<longleftrightarrow> c = CHR ''=''"
  "signed_char c = 60 \<longleftrightarrow> c = CHR ''<''" "signed_char c = 62 \<longleftrightarrow> c = CHR ''>''"
proof -
  have *: "signed_char c = i \<longleftrightarrow> c = to_char i" if "signed_char (to_char i) = i" for i
    using that by (metis to_char_signed_char)
  show "signed_char c = 95 \<longleftrightarrow> c = CHR ''_''" "signed_char c = 46 \<longleftrightarrow> c = CHR ''.''"
    "signed_char c = 10 \<longleftrightarrow> c = CHR 0x0A" "signed_char c = 13 \<longleftrightarrow> c = CHR 0x0D"
    "signed_char c = 35 \<longleftrightarrow> c = CHR ''#''" "signed_char c = 61 \<longleftrightarrow> c = CHR ''=''"
    "signed_char c = 60 \<longleftrightarrow> c = CHR ''<''" "signed_char c = 62 \<longleftrightarrow> c = CHR ''>''"
    by (subst *; code_simp)+
qed


lemma to_char_lastChar: "scan_ok lx \<Longrightarrow> lastChar lx = i \<Longrightarrow> signed_char (to_char i) = i"
  by (auto simp: scan_ok_def)

lemma readIdent_view:
  "scan_ok lx \<Longrightarrow> view lx = c # cs \<Longrightarrow>
   scan_ok (readIdent lx) \<and> view (readIdent lx) = dropWhile ident_char cs \<and>
   identifierStr (readIdent lx) = identifierStr lx @ takeWhile ident_char cs"
proof (induction lx arbitrary: c cs rule: readIdent.induct)
  case (1 lx)
  let ?lx = "nextLastChar lx"
  have ok: "scan_ok ?lx" and vw: "view ?lx = cs"
    using 1 by (simp_all add: scan_ok_nextLastChar view_tl)
  show ?case
  proof (cases cs)
    case Nil
    with vw have "lastChar ?lx = EOF" by (simp add: view_Nil)
    with ok vw Nil show ?thesis
      by (simp add: readIdent.simps [of lx] Let_def ctype_simps EOF_def)
  next
    case (Cons d ds)
    with vw ok have "lastChar ?lx = signed_char d" by (simp add: lastChar_view)
    with 1 ok vw Cons show ?thesis
      by (simp add: readIdent.simps [of lx] Let_def ident_char_def signed_char_lit)
  qed
qed

lemma readNumber_view:
  "scan_ok lx \<Longrightarrow> view lx = c # cs \<Longrightarrow>
   scan_ok (snd (readNumber lx s)) \<and> view (snd (readNumber lx s)) = dropWhile num_char cs \<and>
   fst (readNumber lx s) = s @ c # takeWhile num_char cs"
proof (induction lx s arbitrary: c cs rule: readNumber.induct)
  case (1 lx s)
  let ?lx = "nextLastChar lx"
  have ok: "scan_ok ?lx" and vw: "view ?lx = cs" and c: "to_char (lastChar lx) = c"
    using 1 by (simp_all add: scan_ok_nextLastChar view_tl lastChar_view)
  show ?case
  proof (cases cs)
    case Nil
    with vw have "lastChar ?lx = EOF" by (simp add: view_Nil)
    with ok vw c Nil show ?thesis
      by (simp add: readNumber.simps [of lx] Let_def ctype_simps EOF_def)
  next
    case (Cons d ds)
    with vw ok have "lastChar ?lx = signed_char d" by (simp add: lastChar_view)
    with 1 ok vw c Cons show ?thesis
      by (simp add: readNumber.simps [of lx] Let_def num_char_def is_digit_char_def signed_char_lit)
  qed
qed

lemma skipComment_view:
  "scan_ok lx \<Longrightarrow> view lx = c # cs \<Longrightarrow>
   scan_ok (skipComment lx) \<and> view (skipComment lx) = dropWhile comment_char cs"
proof (induction lx arbitrary: c cs rule: skipComment.induct)
  case (1 lx)
  let ?lx = "nextLastChar lx"
  have ok: "scan_ok ?lx" and vw: "view ?lx = cs"
    using 1 by (simp_all add: scan_ok_nextLastChar view_tl)
  show ?case
  proof (cases cs)
    case Nil
    with vw have "lastChar ?lx = EOF" by (simp add: view_Nil)
    with ok vw Nil show ?thesis by (simp add: skipComment.simps [of lx] Let_def)
  next
    case (Cons d ds)
    with vw have "lastChar ?lx \<noteq> EOF" by (simp add: view_Cons)
    moreover from Cons vw ok have "lastChar ?lx = signed_char d" by (simp add: lastChar_view)
    ultimately show ?thesis
      using 1 ok vw Cons
      by (simp add: skipComment.simps [of lx] Let_def comment_char_def signed_char_lit)
  qed
qed

definition ident_after :: "lexeme \<Rightarrow> string \<Rightarrow> string" where
  "ident_after l old = (case l of LIdent s \<Rightarrow> s | _ \<Rightarrow> old)"

definition num_after :: "lexeme \<Rightarrow> dbl \<Rightarrow> dbl" where
  "num_after l old = (case l of LNum s \<Rightarrow> strtod s | _ \<Rightarrow> old)"

definition scans_as :: "lexer \<Rightarrow> lexeme \<Rightarrow> string \<Rightarrow> bool" where
  "scans_as lx l r \<longleftrightarrow>
     fst (getTokInput lx) = token_of l \<and> view (snd (getTokInput lx)) = r \<and>
     scan_ok (snd (getTokInput lx)) \<and>
     identifierStr (snd (getTokInput lx)) = ident_after l (identifierStr lx) \<and>
     numVal (snd (getTokInput lx)) = num_after l (numVal lx)"

lemma getTokInput_refines:
  "scan_ok lx \<Longrightarrow> tokens lx = [] \<Longrightarrow> lexSpec (view lx) = (l, r) \<Longrightarrow> scans_as lx l r"
proof (induction lx arbitrary: l r rule: getTokInput.induct)
  case (1 lx0)
  define lx where "lx = saveLocation (skipWhitespace lx0)"
  have ok: "scan_ok lx" and vw: "view lx = dropWhile space_char (view lx0)"
    and fr: "tokens lx = []" "identifierStr lx = identifierStr lx0" "numVal lx = numVal lx0"
    using 1(2,3) skipWhitespace_view [of lx0] by (simp_all add: lx_def)
  note unf = getTokInput.simps [of lx0, folded lx_def, unfolded Let_def]
  note defs = scans_as_def ident_after_def num_after_def unf
  show ?case
  proof (cases "dropWhile space_char (view lx0)")
    case Nil
    with vw have c: "lastChar lx = EOF" by (simp add: view_Nil)
    from Nil 1(4) have "l = LEof" "r = []" by (simp_all add: lexSpec_Nil del: dropWhile_eq_Nil_conv)
    with c ok fr vw Nil show ?thesis
      by (simp add: defs ctype_simps EOF_def del: dropWhile_eq_Nil_conv)
  next
    case (Cons c cs)
    note vC = vw [unfolded Cons]
    have lc: "lastChar lx = signed_char c" by (rule lastChar_view [OF ok vC])
    have "lastChar lx \<noteq> EOF" using vC unfolding view_Cons by blast
    with lc have ne: "signed_char c \<noteq> EOF" by simp
    have spec: "(l, r) = (if alpha_char c then (LIdent (c # takeWhile ident_char cs), dropWhile ident_char cs)
        else if is_digit_char c then (LNum (c # takeWhile num_char cs), dropWhile num_char cs)
        else if c = CHR ''#'' then
          (case dropWhile comment_char cs of [] \<Rightarrow> (LEof, []) | d # ds \<Rightarrow> lexSpec (d # ds))
        else if c = CHR ''='' \<or> c = CHR ''<'' \<or> c = CHR ''>'' then
          (case cs of d # ds \<Rightarrow> if d = CHR ''='' then (LOp (cmpToken (signed_char c)), ds)
                                else (LOp (signed_char c), cs)
           | [] \<Rightarrow> (LOp (signed_char c), cs))
        else (LOp (signed_char c), cs))"
      using 1(4) by (simp add: lexSpec.simps [of "view lx0"] Cons)
    have next1: "scan_ok (nextLastChar lx)" "view (nextLastChar lx) = cs"
      using ok vC by (simp_all add: scan_ok_nextLastChar view_tl)
    consider (alpha) "alpha_char c" | (digit) "\<not> alpha_char c" "is_digit_char c"
      | (hash) "c = CHR ''#''" | (cmp) "c = CHR ''='' \<or> c = CHR ''<'' \<or> c = CHR ''>''"
      | (other) "\<not> alpha_char c" "\<not> is_digit_char c" "c \<noteq> CHR ''#''"
          "\<not> (c = CHR ''='' \<or> c = CHR ''<'' \<or> c = CHR ''>'')"
      by blast
    then show ?thesis
    proof cases
      case alpha
      with spec have lr: "l = LIdent (c # takeWhile ident_char cs)" "r = dropWhile ident_char cs" by simp_all
      have "isalpha (lastChar lx)" using alpha lc by (simp add: alpha_char_def)
      with lr readIdent_view [of "lx\<lparr>identifierStr := [c]\<rparr>" c cs] ok vC fr lc show ?thesis
        by (simp add: defs)
    next
      case digit
      with spec have lr: "l = LNum (c # takeWhile num_char cs)" "r = dropWhile num_char cs" by simp_all
      have "\<not> isalpha (lastChar lx)" "isdigit (lastChar lx)"
        using digit lc by (simp_all add: alpha_char_def is_digit_char_def)
      with lr readNumber_view [of lx c cs "[]"] ok vC fr show ?thesis
        by (simp add: defs case_prod_beta)
    next
      case hash
      note cm = skipComment_view [OF ok vC]
      have na: "\<not> isalpha 35" "\<not> isdigit 35" by (simp_all add: ctype_simps)
      have sc: "signed_char c = 35" using hash signed_char_lit(5) [of c] by simp
      have nb: "\<not> alpha_char c" "\<not> is_digit_char c"
        using sc na by (simp_all add: alpha_char_def is_digit_char_def)
      have l35: "lastChar lx = 35" using lc sc by simp
      show ?thesis
      proof (cases "dropWhile comment_char cs")
        case Nil
        with spec hash nb have lr: "l = LEof" "r = []" by (simp_all del: dropWhile_eq_Nil_conv)
        from cm Nil have "lastChar (skipComment lx) = EOF" "view (skipComment lx) = []"
          by (simp_all add: view_Nil del: dropWhile_eq_Nil_conv)
        with lr na cm l35 fr show ?thesis by (simp add: defs EOF_def)
      next
        case (Cons d ds)
        with spec hash nb have lr: "lexSpec (d # ds) = (l, r)" by simp
        from cm Cons have vs: "view (skipComment lx) = d # ds" by simp
        then have nE: "lastChar (skipComment lx) \<noteq> EOF" unfolding view_Cons by blast
        have "scans_as (skipComment lx) l r"
          using 1(1) [of lx "lastChar lx" "skipComment lx"] l35 na nE cm vs fr lr by (simp add: lx_def)
        with nE l35 na fr show ?thesis by (simp add: defs)
      qed
    next
      case cmp
      then have sc: "signed_char c = 61 \<or> signed_char c = 60 \<or> signed_char c = 62"
        by (simp only: signed_char_lit)
      have na: "\<not> isalpha (lastChar lx)" "\<not> isdigit (lastChar lx)" "lastChar lx \<noteq> 35" "lastChar lx \<noteq> EOF"
        "lastChar lx = 61 \<or> lastChar lx = 60 \<or> lastChar lx = 62"
        using sc lc ne by (elim disjE; simp add: ctype_simps)+
      have nb: "\<not> alpha_char c" "\<not> is_digit_char c" "c \<noteq> CHR ''#''"
        using na lc signed_char_lit(5) [of c] by (simp_all add: alpha_char_def is_digit_char_def)
      show ?thesis
      proof (cases cs)
        case Nil
        with spec cmp nb have lr: "l = LOp (signed_char c)" "r = []" by simp_all
        from next1 Nil have "lastChar (nextLastChar lx) = EOF" by (simp add: view_Nil)
        with lr na next1 Nil fr lc show ?thesis by (simp add: defs EOF_def)
      next
        case (Cons d ds)
        have ld: "lastChar (nextLastChar lx) = signed_char d"
          using lastChar_view next1 Cons by blast
        show ?thesis
        proof (cases "d = CHR ''=''")
          case True
          with spec cmp nb Cons have lr: "l = LOp (cmpToken (signed_char c))" "r = ds" by simp_all
          have "lastChar (nextLastChar lx) = 61" using ld True signed_char_lit(6) [of d] by simp
          moreover have "scan_ok (nextLastChar (nextLastChar lx))" "view (nextLastChar (nextLastChar lx)) = ds"
            using next1 Cons by (simp_all add: scan_ok_nextLastChar view_tl)
          ultimately show ?thesis using lr na fr lc by (simp add: defs)
        next
          case False
          with spec cmp nb Cons have lr: "l = LOp (signed_char c)" "r = cs" by simp_all
          have "lastChar (nextLastChar lx) \<noteq> 61" using ld False signed_char_lit(6) [of d] by simp
          with lr na next1 fr lc show ?thesis by (simp add: defs)
        qed
      qed
    next
      case other
      with spec have lr: "l = LOp (signed_char c)" "r = cs" by simp_all
      have "\<not> isalpha (lastChar lx)" "\<not> isdigit (lastChar lx)" "lastChar lx \<noteq> 35" "lastChar lx \<noteq> EOF"
        "\<not> (lastChar lx = 61 \<or> lastChar lx = 60 \<or> lastChar lx = 62)"
        using other lc ne by (simp_all add: alpha_char_def is_digit_char_def signed_char_lit)
      with lr next1 fr lc show ?thesis by (simp add: defs)
    qed
  qed
qed

section \<open>Progress\<close>

lemma pending_readIdent: "lastChar lx \<noteq> EOF \<Longrightarrow> pending (readIdent lx) < pending lx"
proof (induction lx rule: readIdent.induct)
  case (1 lx)
  let ?lx = "nextLastChar lx"
  have less: "pending ?lx < pending lx" using 1 pending_nextLastChar_less by blast
  show ?case
  proof (cases "isalnum (lastChar ?lx) \<or> lastChar ?lx = 95")
    case True
    then have "lastChar ?lx \<noteq> EOF" by (auto simp: ctype_simps EOF_def)
    with 1 True have "pending (readIdent (?lx\<lparr>identifierStr := identifierStr ?lx @ [to_char (lastChar ?lx)]\<rparr>)) < pending ?lx"
      by (simp add: pending_def)
    with less True show ?thesis by (simp add: readIdent.simps [of lx] Let_def)
  next
    case False
    with less show ?thesis by (simp add: readIdent.simps [of lx] Let_def)
  qed
qed

lemma pending_readNumber: "lastChar lx \<noteq> EOF \<Longrightarrow> pending (snd (readNumber lx s)) < pending lx"
proof (induction lx s rule: readNumber.induct)
  case (1 lx s)
  let ?lx = "nextLastChar lx"
  have less: "pending ?lx < pending lx" using 1 pending_nextLastChar_less by blast
  show ?case
  proof (cases "isdigit (lastChar ?lx) \<or> lastChar ?lx = 46")
    case True
    then have "lastChar ?lx \<noteq> EOF" by (auto simp: ctype_simps EOF_def)
    with 1 True have "pending (snd (readNumber ?lx (s @ [to_char (lastChar lx)]))) < pending ?lx"
      by simp
    with less True show ?thesis by (simp add: readNumber.simps [of lx s] Let_def)
  next
    case False
    with less show ?thesis by (simp add: readNumber.simps [of lx s] Let_def)
  qed
qed

lemma pending_upd [simp]:
  "pending (lx\<lparr>identifierStr := s\<rparr>) = pending lx" "pending (lx\<lparr>numVal := v\<rparr>) = pending lx"
  "pending (lx\<lparr>curTok := t\<rparr>) = pending lx" "pending (lx\<lparr>tokens := q\<rparr>) = pending lx"
  "pending (lx\<lparr>errs := e\<rparr>) = pending lx"
  by (simp_all add: pending_def)

text \<open>
  A token other than the end of file uses up at least one character; the end-of-file token
  leaves the read-ahead character at EOF.
\<close>

definition tok_progress :: "lexer \<Rightarrow> token \<times> lexer \<Rightarrow> bool" where
  "tok_progress lx r \<longleftrightarrow>
     (if fst r = tok_eof then pending (snd r) \<le> pending lx \<and> lastChar (snd r) = EOF
      else pending (snd r) < pending lx)"

lemma tok_progressI: "t \<noteq> -1 \<Longrightarrow> pending lx' < pending lx \<Longrightarrow> tok_progress lx (t, lx')"
  by (simp add: tok_progress_def)

lemma keyword_not_eof: "keyword s \<noteq> -1"
  by (simp add: keyword_def)

lemma cmpToken_not_eof: "cmpToken c \<noteq> -1"
  by (simp add: cmpToken_def)

lemma tok_progress_mono:
  "tok_progress lx r \<Longrightarrow> pending lx \<le> pending lx0 \<Longrightarrow> tok_progress lx0 r"
  by (auto simp: tok_progress_def split: if_splits)

lemma getTokInput_progress: "tokens lx = [] \<Longrightarrow> tok_progress lx (getTokInput lx)"
proof (induction lx rule: getTokInput.induct)
  case (1 lx0)
  define lx where "lx = saveLocation (skipWhitespace lx0)"
  have le: "pending lx \<le> pending lx0" by (simp add: lx_def pending_skipWhitespace)
  have tk: "tokens lx = []" using 1(2) by (simp add: lx_def)
  note unf = getTokInput.simps [of lx0, folded lx_def, unfolded Let_def]
  have nl: "pending (nextLastChar lx) < pending lx" if "lastChar lx \<noteq> EOF"
    using that by (rule pending_nextLastChar_less)
  consider (alpha) "isalpha (lastChar lx)" | (digit) "\<not> isalpha (lastChar lx)" "isdigit (lastChar lx)"
    | (hash) "\<not> isalpha (lastChar lx)" "\<not> isdigit (lastChar lx)" "lastChar lx = 35"
    | (eof) "\<not> isalpha (lastChar lx)" "\<not> isdigit (lastChar lx)" "lastChar lx \<noteq> 35" "lastChar lx = EOF"
    | (other) "\<not> isalpha (lastChar lx)" "\<not> isdigit (lastChar lx)" "lastChar lx \<noteq> 35" "lastChar lx \<noteq> EOF"
    by blast
  then have "tok_progress lx (getTokInput lx0)"
  proof cases
    case alpha
    with pending_readIdent [of "lx\<lparr>identifierStr := [to_char (lastChar lx)]\<rparr>"] show ?thesis
      by (simp add: unf tok_progressI keyword_not_eof isalpha_not_EOF)
  next
    case digit
    with pending_readNumber [of lx "[]"] show ?thesis
      by (simp add: unf tok_progressI isdigit_not_EOF case_prod_beta)
  next
    case hash
    have cm: "pending (skipComment lx) < pending lx" using hash pending_skipComment [of lx] by (simp add: EOF_def)
    show ?thesis
    proof (cases "lastChar (skipComment lx) = EOF")
      case True
      with hash cm show ?thesis by (simp add: unf tok_progress_def)
    next
      case False
      then have "tok_progress (skipComment lx) (getTokInput (skipComment lx))"
        using 1(1) [of lx "lastChar lx" "skipComment lx"] hash tk by (simp add: lx_def)
      then have "tok_progress lx (getTokInput (skipComment lx))"
        by (rule tok_progress_mono) (use cm in simp)
      with False hash tk show ?thesis by (simp add: unf)
    qed
  next
    case eof
    then show ?thesis by (simp add: unf tok_progress_def)
  next
    case other
    note n1 = nl [OF other(4)]
    have "pending (nextLastChar (nextLastChar lx)) < pending lx" if "lastChar (nextLastChar lx) = 61"
      using pending_nextLastChar_less [of "nextLastChar lx"] n1 that by (simp add: EOF_def)
    with n1 other show ?thesis
      by (simp add: unf tok_progressI cmpToken_not_eof EOF_def)
  qed
  then show ?case by (rule tok_progress_mono [OF _ le])
qed

text \<open>
  How many more tokens the parser can take: characters not scanned yet, tokens queued by a
  peek, and the current token, where the end of file counts nothing.
\<close>

definition budget :: "lexer \<Rightarrow> nat" where
  "budget lx = pending lx + length (filter (\<lambda>(t, s). t \<noteq> tok_eof) (tokens lx))
            + (if curTok lx = tok_eof then 0 else 1)"

definition lex_ok :: "lexer \<Rightarrow> bool" where
  "lex_ok lx \<longleftrightarrow>
     (curTok lx = tok_eof \<longrightarrow> lastChar lx = EOF \<and> tokens lx = []) \<and>
     length (tokens lx) \<le> 1 \<and>
     (\<forall>(t, s) \<in> set (tokens lx). t = tok_eof \<longrightarrow> lastChar lx = EOF)"

lemma tokens_single:
  "length (tokens lx) \<le> 1 \<Longrightarrow> tokens lx = [] \<or> (\<exists>t s. tokens lx = [(t, s)])"
  by (cases "tokens lx") auto

lemma tokens_getTokInput: "tokens lx = [] \<Longrightarrow> tokens (snd (getTokInput lx)) = []"
  and curTok_getTokInput: "tokens lx = [] \<Longrightarrow> curTok (snd (getTokInput lx)) = curTok lx"
  using getTokInput_frame [of lx] by simp_all

lemma getNextToken_progress:
  assumes "lex_ok lx"
  shows "lex_ok (getNextToken lx) \<and> budget (getNextToken lx) \<le> budget lx \<and>
         (curTok lx \<noteq> tok_eof \<longrightarrow> budget (getNextToken lx) < budget lx)"
proof (cases "tokens lx")
  case Nil
  obtain t lx' where g: "getTokInput lx = (t, lx')" by fastforce
  have p: "tok_progress lx (t, lx')" using getTokInput_progress [OF Nil] g by simp
  have "tokens lx' = []" using tokens_getTokInput [OF Nil] g by simp
  with p assms Nil show ?thesis
    by (auto simp: getNextToken_def getTok_def g budget_def lex_ok_def tok_progress_def pending_def
        split: if_splits)
next
  case (Cons a q)
  with assms have "q = []" "snd (getTok False lx) = lx\<lparr>tokens := []\<rparr>"
    by (auto simp: lex_ok_def getTok_def)
  with assms Cons show ?thesis
    by (cases a) (auto simp: getNextToken_def getTok_def budget_def lex_ok_def pending_def)
qed

lemma peekNextToken_progress:
  assumes "lex_ok lx" "curTok lx \<noteq> tok_eof"
  shows "lex_ok (snd (peekNextToken lx)) \<and> budget (snd (peekNextToken lx)) \<le> budget lx \<and>
         curTok (snd (peekNextToken lx)) = curTok lx"
proof (cases "tokens lx")
  case Nil
  obtain t lx' where g: "getTokInput lx = (t, lx')" by fastforce
  have p: "tok_progress lx (t, lx')" using getTokInput_progress [OF Nil] g by simp
  have "tokens lx' = []" "curTok lx' = curTok lx"
    using tokens_getTokInput [OF Nil] curTok_getTokInput [OF Nil] g by simp_all
  with p assms Nil show ?thesis
    by (auto simp: peekNextToken_def getTok_def g budget_def lex_ok_def tok_progress_def pending_def
        split: if_splits)
next
  case (Cons a q)
  with assms show ?thesis by (simp add: peekNextToken_def getTok_def)
qed

text \<open>
  The contract between the lexer and its client: an invariant, a size that every token taken
  before the end decreases, and an end that persists.
\<close>

locale token_source =
  fixes advance :: "'s \<Rightarrow> 's" and at_end :: "'s \<Rightarrow> bool" and size_of :: "'s \<Rightarrow> nat"
    and ok :: "'s \<Rightarrow> bool"
  assumes advance_ok: "ok s \<Longrightarrow> ok (advance s)"
    and advance_less: "ok s \<Longrightarrow> \<not> at_end s \<Longrightarrow> size_of (advance s) < size_of s"
    and advance_end: "ok s \<Longrightarrow> at_end s \<Longrightarrow> at_end (advance s)"
begin

lemma end_persists: "ok s \<Longrightarrow> at_end s \<Longrightarrow> at_end ((advance ^^ k) s) \<and> ok ((advance ^^ k) s)"
  by (induction k) (simp_all add: advance_ok advance_end)

lemma ends: "ok s \<Longrightarrow> size_of s \<le> k \<Longrightarrow> at_end ((advance ^^ k) s)"
proof (induction k arbitrary: s)
  case 0
  then show ?case using advance_less [of s] by auto
next
  case (Suc k)
  show ?case
  proof (cases "at_end s")
    case True
    with Suc end_persists show ?thesis by blast
  next
    case False
    with Suc have "at_end ((advance ^^ k) (advance s))"
      using advance_less [of s] advance_ok [of s] by auto
    then show ?thesis by (simp add: funpow_Suc_right del: funpow.simps)
  qed
qed

end

lemma getNextToken_at_end:
  "lex_ok lx \<Longrightarrow> curTok lx = tok_eof \<Longrightarrow> curTok (getNextToken lx) = tok_eof"
proof -
  assume ok: "lex_ok lx" "curTok lx = tok_eof"
  then have "lastChar lx = -1" "tokens lx = []" by (simp_all add: lex_ok_def EOF_def)
  moreover from this have "skipWhitespace lx = lx"
    by (simp add: skipWhitespace.simps [of lx] ctype_simps)
  ultimately show ?thesis
    by (simp add: getNextToken_def getTok_def getTokInput.simps [of lx] ctype_simps EOF_def)
qed

interpretation toks: token_source getNextToken "\<lambda>lx. curTok lx = tok_eof" budget lex_ok
  by unfold_locales (use getNextToken_progress getNextToken_at_end in blast)+

lemma lex_ok_prime: "lex_ok (getNextToken (LexerBuffer buf f))"
  and budget_prime: "budget (getNextToken (LexerBuffer buf f)) \<le> Suc (Suc (length buf))"
proof -
  let ?lx = "LexerBuffer buf f"
  obtain t lx' where g: "getTokInput ?lx = (t, lx')" by fastforce
  have tk: "tokens ?lx = []" by (simp add: LexerBuffer_def)
  have p: "tok_progress ?lx (t, lx')" using getTokInput_progress [OF tk] g by simp
  have tk': "tokens lx' = []" using tokens_getTokInput [OF tk] g by simp
  have "pending ?lx = Suc (Suc (length buf))"
    by (simp add: LexerBuffer_def pending_def chars_left_def EOF_def)
  with p tk tk' show "lex_ok (getNextToken ?lx)" "budget (getNextToken ?lx) \<le> Suc (Suc (length buf))"
    by (auto simp: getNextToken_def getTok_def g budget_def lex_ok_def tok_progress_def split: if_splits)
qed

end
