(* ===== verification/Ep2_Tokens.thy ===== *)
theory Ep2_Tokens
  imports Ep2_Lexer_Props
begin

text \<open>
  Whole token sequences: the reference tokenizer \<open>lexAll\<close>, printing of lexemes, the relation
  \<open>presents\<close> between a lexer state and the lexemes it has ahead, and the claims on the lexer.
\<close>

section \<open>Token sequences\<close>

lemma dropWhile_Cons_length: "dropWhile p s = c # cs \<Longrightarrow> length cs < length s"
  using length_dropWhile_le [of p s] by simp

lemma hash: "\<not> alpha_char (CHR ''#'')" "\<not> is_digit_char (CHR ''#'')"
  by (simp_all add: alpha_char_def is_digit_char_def ctype_simps signed_char_def)

lemma lexSpec_shorter: "lexSpec s = (l, r) \<Longrightarrow> l \<noteq> LEof \<Longrightarrow> length r < length s"
proof (induction s arbitrary: l r rule: lexSpec.induct)
  case (1 s)
  show ?case
  proof (cases "dropWhile space_char s")
    case Nil
    with 1 show ?thesis by (simp add: lexSpec_Nil)
  next
    case (Cons c cs)
    note len = dropWhile_Cons_length [OF Cons]
    have dl: "length (dropWhile p cs) < length s" for p :: "char \<Rightarrow> bool"
      using len length_dropWhile_le [of p cs] by linarith
    note spec = 1(2) [unfolded lexSpec.simps [of s] Cons list.case]
    show ?thesis
    proof (cases "c = CHR ''#''")
      case True
      show ?thesis
      proof (cases "dropWhile comment_char cs")
        case Nil
        with spec True 1(3) show ?thesis by (simp add: hash del: dropWhile_eq_Nil_conv)
      next
        case (Cons d ds)
        with spec True have "lexSpec (d # ds) = (l, r)" by (simp add: hash)
        then have "length r < length (d # ds)"
          using 1(1) [OF \<open>dropWhile space_char s = c # cs\<close>] hash True Cons 1(3) by blast
        with dl [of comment_char] Cons show ?thesis by simp
      qed
    next
      case False
      with spec len dl show ?thesis
        by (auto split: if_splits list.splits)
    qed
  qed
qed

function lexAll :: "string \<Rightarrow> lexeme list" where
  "lexAll s = (case lexSpec s of (l, r) \<Rightarrow> if l = LEof then [] else l # lexAll r)"
  by pat_completeness auto
termination
  by (relation "measure length") (auto dest: lexSpec_shorter [OF sym])

declare lexAll.simps [simp del]

text \<open>Text that lexes back to a given list of lexemes: each one followed by a blank.\<close>

fun show_lexeme :: "lexeme \<Rightarrow> string" where
  "show_lexeme (LIdent s) = s"
| "show_lexeme (LNum s) = s"
| "show_lexeme (LOp t) =
     (if t = tok_cmp_eq then ''=='' else if t = tok_cmp_le then ''<=''
      else if t = tok_cmp_ge then ''>='' else [to_char t])"
| "show_lexeme LEof = ''''"

definition show_lexemes :: "lexeme list \<Rightarrow> string" where
  "show_lexemes ls = concat (map (\<lambda>l. show_lexeme l @ '' '') ls)"

fun wf_lexeme :: "lexeme \<Rightarrow> bool" where
  "wf_lexeme (LIdent s) \<longleftrightarrow> s \<noteq> [] \<and> alpha_char (hd s) \<and> list_all ident_char s"
| "wf_lexeme (LNum s) \<longleftrightarrow> s \<noteq> [] \<and> is_digit_char (hd s) \<and> list_all num_char s"
| "wf_lexeme (LOp t) \<longleftrightarrow>
     t = tok_cmp_eq \<or> t = tok_cmp_le \<or> t = tok_cmp_ge \<or>
     (0 < t \<and> t < 128 \<and> \<not> isspace t \<and> \<not> isalpha t \<and> \<not> isdigit t \<and> t \<noteq> 35)"
| "wf_lexeme LEof \<longleftrightarrow> False"

lemma signed_char_to_char: "- 128 \<le> t \<Longrightarrow> t < 128 \<Longrightarrow> signed_char (to_char t) = t"
proof -
  assume "- 128 \<le> t" "t < 128"
  then have "t mod 256 = (if t < 0 then t + 256 else t)"
    using mod_pos_pos_trivial [of "t + 256" 256] by simp
  then have "of_char (to_char t) = (if t < 0 then t + 256 else t)"
    by (simp add: to_char_def of_char_of)
  with \<open>- 128 \<le> t\<close> \<open>t < 128\<close> show ?thesis by (simp add: signed_char_def Let_def)
qed

lemma blank [simp]: "space_char (CHR '' '')" "\<not> ident_char (CHR '' '')" "\<not> num_char (CHR '' '')"
  by (simp_all add: space_char_def ident_char_def num_char_def is_digit_char_def ctype_simps
      signed_char_def)

lemma lexSpec_blank: "lexSpec (CHR '' '' # s) = lexSpec s"
  by (simp add: lexSpec.simps [of "CHR '' '' # s"] lexSpec.simps [of s])

lemma alpha_not_space: "alpha_char c \<Longrightarrow> \<not> space_char c"
  and digit_not_space: "is_digit_char c \<Longrightarrow> \<not> space_char c \<and> \<not> alpha_char c"
  by (auto simp: alpha_char_def is_digit_char_def space_char_def ctype_simps)

lemma takeWhile_blank:
  "list_all p xs \<Longrightarrow> \<not> p b \<Longrightarrow> takeWhile p (xs @ b # ys) = xs"
  "list_all p xs \<Longrightarrow> \<not> p b \<Longrightarrow> dropWhile p (xs @ b # ys) = b # ys"
  by (induction xs) simp_all

lemma lexSpec_op:
  assumes "wf_lexeme (LOp t)"
  shows "lexSpec (show_lexeme (LOp t) @ CHR '' '' # s) = (LOp t, CHR '' '' # s)"
proof (cases "t = tok_cmp_eq \<or> t = tok_cmp_le \<or> t = tok_cmp_ge")
  case True
  moreover have "\<not> space_char (CHR ''='')" "\<not> space_char (CHR ''<'')" "\<not> space_char (CHR ''>'')"
    "\<not> alpha_char (CHR ''='')" "\<not> alpha_char (CHR ''<'')" "\<not> alpha_char (CHR ''>'')"
    "\<not> is_digit_char (CHR ''='')" "\<not> is_digit_char (CHR ''<'')" "\<not> is_digit_char (CHR ''>'')"
    by (simp_all add: space_char_def alpha_char_def is_digit_char_def ctype_simps signed_char_def)
  ultimately show ?thesis
    by (elim disjE) (simp_all add: lexSpec.simps [of "_ # _"] cmpToken_def signed_char_def)
next
  case False
  let ?c = "to_char t"
  from False assms have t: "0 < t" "t < 128" "\<not> isspace t" "\<not> isalpha t" "\<not> isdigit t" "t \<noteq> 35" by auto
  have c: "signed_char ?c = t" using t by (simp add: signed_char_to_char)
  then have "\<not> space_char ?c" "\<not> alpha_char ?c" "\<not> is_digit_char ?c" "?c \<noteq> CHR ''#''"
    using t signed_char_lit(5) [of ?c] by (simp_all add: space_char_def alpha_char_def is_digit_char_def)
  with False c show ?thesis by (simp add: lexSpec.simps [of "?c # _"])
qed

lemma lexSpec_show:
  assumes "wf_lexeme l"
  shows "lexSpec (show_lexeme l @ CHR '' '' # s) = (l, CHR '' '' # s)"
proof (cases l)
  case (LIdent cs)
  with assms obtain c ds where "cs = c # ds" "alpha_char c" "list_all ident_char ds" by (cases cs) auto
  with LIdent show ?thesis
    by (simp add: lexSpec.simps [of "c # _"] alpha_not_space takeWhile_blank)
next
  case (LNum cs)
  with assms obtain c ds where "cs = c # ds" "is_digit_char c" "list_all num_char ds" by (cases cs) auto
  with LNum show ?thesis
    by (simp add: lexSpec.simps [of "c # _"] digit_not_space takeWhile_blank)
next
  case (LOp t)
  with assms show ?thesis using lexSpec_op by simp
qed (use assms in simp)

lemma lexAll_blank: "lexAll (CHR '' '' # s) = lexAll s"
  by (simp add: lexAll.simps [of "CHR '' '' # s"] lexAll.simps [of s] lexSpec_blank)

lemma lexAll_show:
  "wf_lexeme l \<Longrightarrow> lexAll (show_lexeme l @ CHR '' '' # s) = l # lexAll s"
  by (cases l) (auto simp: lexAll.simps [of "_ @ _"] lexSpec_show lexAll_blank simp del: show_lexeme.simps)

lemma lexAll_show_lexemes: "list_all wf_lexeme ls \<Longrightarrow> lexAll (show_lexemes ls) = ls"
proof (induction ls)
  case Nil
  show ?case by (simp add: show_lexemes_def lexAll.simps [of "[]"] lexSpec_Nil)
next
  case (Cons l ls)
  then show ?case by (simp add: show_lexemes_def lexAll_show)
qed

section \<open>The lexemes a state has ahead of it\<close>

definition carries :: "lexer \<Rightarrow> lexeme \<Rightarrow> bool" where
  "carries lx l \<longleftrightarrow> curTok lx = token_of l \<and> identifierStr lx = ident_after l (identifierStr lx) \<and>
     numVal lx = num_after l (numVal lx)"

definition fresh_at :: "lexer \<Rightarrow> lexeme list \<Rightarrow> bool" where
  "fresh_at lx ls \<longleftrightarrow> scan_ok lx \<and> tokens lx = [] \<and>
     (case ls of [] \<Rightarrow> curTok lx = tok_eof \<and> lexAll (view lx) = []
      | l # ls' \<Rightarrow> carries lx l \<and> lexAll (view lx) = ls')"

text \<open>
  \<open>presents lx ls\<close>: the current token and the tokens to come are those of \<open>ls\<close>, whether
  or not the next one has been peeked.
\<close>

definition presents :: "lexer \<Rightarrow> lexeme list \<Rightarrow> bool" where
  "presents lx ls \<longleftrightarrow> fresh_at lx ls \<or>
     (\<exists>lx0. fresh_at lx0 ls \<and> lx = snd (peekNextToken lx0) \<and> (\<forall>s. ls \<noteq> [] \<longrightarrow> hd ls \<noteq> LNum s))"

lemma lexSpec_LEof: "lexSpec s = (LEof, r) \<Longrightarrow> r = []"
proof (induction s arbitrary: r rule: lexSpec.induct)
  case (1 s)
  show ?case
  proof (cases "dropWhile space_char s")
    case Nil
    with 1 show ?thesis by (simp add: lexSpec_Nil)
  next
    case (Cons c cs)
    with 1 show ?thesis
      by (auto simp: lexSpec.simps [of s] split: if_splits list.splits)
  qed
qed

lemma lexAll_Nil: "lexAll [] = []"
  by (simp add: lexAll.simps [of "[]"] lexSpec_Nil)

lemma next_fresh:
  assumes "scan_ok lx" "tokens lx = []"
  shows "fresh_at (getNextToken lx) (lexAll (view lx))"
proof -
  obtain l r where lr: "lexSpec (view lx) = (l, r)" by fastforce
  have sc: "scans_as lx l r" by (rule getTokInput_refines [OF assms lr])
  have tk: "tokens (snd (getTokInput lx)) = []" using tokens_getTokInput [OF assms(2)] .
  have next': "getNextToken lx = (snd (getTokInput lx))\<lparr>curTok := token_of l\<rparr>"
    using sc assms(2) by (simp add: getNextToken_def getTok_def scans_as_def case_prod_beta)
  show ?thesis
  proof (cases "l = LEof")
    case True
    with lr lexSpec_LEof have "r = []" by blast
    with True sc tk next' lr show ?thesis
      by (auto simp: lexAll_Nil fresh_at_def scans_as_def lexAll.simps [of "view lx"])
  next
    case False
    with sc tk next' lr show ?thesis
      by (cases l) (simp_all add: fresh_at_def scans_as_def lexAll.simps [of "view lx"] carries_def
        ident_after_def num_after_def)
  qed
qed

lemma presents_next: "presents lx (l # ls) \<Longrightarrow> presents (getNextToken lx) ls"
proof -
  have *: "fresh_at (getNextToken lx) ls" if "fresh_at lx (l # ls)" for lx
    using that next_fresh [of lx] by (auto simp: fresh_at_def)
  assume "presents lx (l # ls)"
  then consider "fresh_at lx (l # ls)"
    | lx0 where "fresh_at lx0 (l # ls)" "lx = snd (peekNextToken lx0)"
    by (auto simp: presents_def)
  then have "fresh_at (getNextToken lx) ls"
    using * peek_next(1) by cases (auto simp: fresh_at_def)
  then show ?thesis by (simp add: presents_def)
qed

lemma fresh_id: "fresh_at lx (LIdent s # ls) \<Longrightarrow> getIdentiferStr lx = s"
  by (simp add: fresh_at_def carries_def ident_after_def getIdentiferStr_def)

lemma presents_curTok: "presents lx (l # ls) \<Longrightarrow> curTok lx = token_of l"
  and presents_eof: "presents lx [] \<Longrightarrow> curTok lx = tok_eof"
  and presents_num: "presents lx (LNum s # ls) \<Longrightarrow> numVal lx = strtod s"
  using peek_next(5)
  by (auto simp: presents_def fresh_at_def carries_def num_after_def)

lemma presents_id: "presents lx (LIdent s # ls) \<Longrightarrow> getIdentiferStr lx = s"
  using fresh_id peek_next(4) unfolding presents_def fresh_at_def by metis

lemma presents_peek:
  assumes "presents lx (l # ls)" "\<And>s. l \<noteq> LNum s"
  shows "presents (snd (peekNextToken lx)) (l # ls)"
    and "fst (peekNextToken lx) = (case ls of [] \<Rightarrow> tok_eof | l' # _ \<Rightarrow> token_of l')"
proof -
  from assms(1) consider "fresh_at lx (l # ls)"
    | lx0 where "fresh_at lx0 (l # ls)" "lx = snd (peekNextToken lx0)"
    by (auto simp: presents_def)
  then obtain lx0 where lx0: "fresh_at lx0 (l # ls)" "peekNextToken lx = peekNextToken lx0"
    using peek_next(3) by (cases; auto simp: fresh_at_def)
  with assms(2) show "presents (snd (peekNextToken lx)) (l # ls)" by (auto simp: presents_def)
  have "presents (getNextToken lx0) ls" using lx0 presents_next [of lx0 l ls] by (simp add: presents_def)
  moreover have "fst (peekNextToken lx) = curTok (getNextToken lx0)"
    using lx0 peek_next(2) [of lx0] by (simp add: fresh_at_def)
  ultimately show "fst (peekNextToken lx) = (case ls of [] \<Rightarrow> tok_eof | l' # _ \<Rightarrow> token_of l')"
    by (auto simp: presents_curTok presents_eof split: list.splits)
qed

text \<open>What of a file the lexer reads: up to a NUL byte, or to a byte that reads as EOF.\<close>

definition source_text :: "string \<Rightarrow> string" where
  "source_text buf = takeWhile (\<lambda>c. signed_char c \<noteq> EOF) (takeWhile (\<lambda>c. c \<noteq> CHR 0x00) buf)"

lemma lexAll_newline: "lexAll (CHR 0x0A # s) = lexAll s"
proof -
  have "lexSpec (CHR 0x0A # s) = lexSpec s"
    by (simp add: lexSpec.simps [of "CHR 0x0A # s"] lexSpec.simps [of s] space_char_def ctype_simps signed_char_def)
  then show ?thesis by (simp add: lexAll.simps [of "CHR 0x0A # s"] lexAll.simps [of s])
qed

lemma presents_start:
  "presents (getNextToken (LexerBuffer buf f)) (lexAll (source_text buf))"
proof -
  let ?lx = "LexerBuffer buf f"
  have "lastChar ?lx = signed_char (CHR '' '')" by (simp add: LexerBuffer_def signed_char_def)
  then have "scan_ok ?lx" "tokens ?lx = []"
    by (auto simp: scan_ok_def reader_ok_def LexerBuffer_def)
  moreover have "to_char (lastChar ?lx) = CHR '' ''"
    using to_char_signed_char [of "CHR '' ''"] by (simp add: LexerBuffer_def signed_char_def)
  then have "view ?lx = CHR '' '' # CHR 0x0A # source_text buf"
    by (simp add: view_def LexerBuffer_def stream_def source_text_def EOF_def signed_char_def)
  ultimately show ?thesis
    using next_fresh [of ?lx] by (simp add: lexAll_blank lexAll_newline presents_def)
qed

lemma presents_steps:
  "presents lx ls \<Longrightarrow> k \<le> length ls \<Longrightarrow> presents ((getNextToken ^^ k) lx) (drop k ls)"
proof (induction k arbitrary: lx ls)
  case (Suc k)
  then obtain l ls' where ls: "ls = l # ls'" by (cases ls) auto
  with Suc presents_next show ?case by (simp add: funpow_Suc_right del: funpow.simps)
qed simp

section \<open>Claims\<close>

lemma presents_end: "presents lx [] \<Longrightarrow> curTok (getNextToken lx) = tok_eof \<and> presents (getNextToken lx) []"
proof -
  assume p: "presents lx []"
  have *: "fresh_at (getNextToken lx) []" if "fresh_at lx []" for lx
    using that next_fresh [of lx] by (auto simp: fresh_at_def)
  from p consider "fresh_at lx []" | lx0 where "fresh_at lx0 []" "lx = snd (peekNextToken lx0)"
    by (auto simp: presents_def)
  then have "fresh_at (getNextToken lx) []"
    using * peek_next(1) by cases (auto simp: fresh_at_def)
  then show ?thesis by (simp add: presents_def fresh_at_def)
qed

lemma presents_drop: "presents lx ls \<Longrightarrow> presents ((getNextToken ^^ k) lx) (drop k ls)"
proof (induction k arbitrary: lx ls)
  case (Suc k)
  show ?case
  proof (cases ls)
    case Nil
    with Suc presents_end [of lx] show ?thesis by (metis drop_Nil funpow_Suc_right comp_apply)
  next
    case (Cons l ls')
    with Suc presents_next show ?thesis by (simp add: funpow_Suc_right del: funpow.simps)
  qed
qed simp

definition lexeme_at :: "lexeme list \<Rightarrow> nat \<Rightarrow> lexeme" where
  "lexeme_at ls i = (if i < length ls then ls ! i else LEof)"

lemma presents_at:
  assumes "presents lx (drop i ls)"
  shows "curTok lx = token_of (lexeme_at ls i) \<and>
         (case lexeme_at ls i of LIdent s \<Rightarrow> getIdentiferStr lx = s | LNum s \<Rightarrow> numVal lx = strtod s
          | _ \<Rightarrow> True)"
proof (cases "i < length ls")
  case True
  then have "drop i ls = ls ! i # drop (Suc i) ls" by (rule Cons_nth_drop_Suc [symmetric])
  with assms True show ?thesis
    by (auto simp: lexeme_at_def presents_curTok presents_id presents_num split: lexeme.splits)
next
  case False
  with assms presents_eof show ?thesis by (simp add: lexeme_at_def)
qed

text \<open>
  C3: The lexer implements the reference tokenizer. The token taken by the \<open>i+1\<close>-st call of
  \<^verbatim>\<open>getNextToken\<close> on any file is the \<open>i\<close>-th lexeme of the text, with the identifier or
  the number it spells, and the end of file from then on.
\<close>

theorem lexer_implements_reference:
  "curTok ((getNextToken ^^ Suc i) (LexerBuffer buf f)) = token_of (lexeme_at (lexAll (source_text buf)) i) \<and>
   (case lexeme_at (lexAll (source_text buf)) i of
      LIdent s \<Rightarrow> getIdentiferStr ((getNextToken ^^ Suc i) (LexerBuffer buf f)) = s
    | LNum s \<Rightarrow> numVal ((getNextToken ^^ Suc i) (LexerBuffer buf f)) = strtod s
    | _ \<Rightarrow> True)"
  using presents_at [OF presents_drop [OF presents_start]]
  by (simp only: funpow_Suc_right comp_apply)

lemma source_text_clean:
  "list_all (\<lambda>c. c \<noteq> CHR 0x00 \<and> c \<noteq> CHR 0xFF) s \<Longrightarrow> source_text s = s"
  by (induction s) (auto simp: source_text_def simp flip: signed_char_EOF)

definition clean_char :: "char \<Rightarrow> bool" where
  "clean_char c \<longleftrightarrow> 0 < signed_char c"

lemma clean_class: "isalnum (signed_char c) \<Longrightarrow> clean_char c" "is_digit_char c \<Longrightarrow> clean_char c"
  by (auto simp: clean_char_def is_digit_char_def ctype_simps)

lemma clean_lit: "clean_char (CHR ''_'')" "clean_char (CHR ''.'')" "clean_char (CHR ''='')"
  "clean_char (CHR ''<'')" "clean_char (CHR ''>'')" "clean_char (CHR '' '')"
  by (simp_all add: clean_char_def signed_char_def)

lemma clean_show_lexeme: "wf_lexeme l \<Longrightarrow> list_all clean_char (show_lexeme l)"
proof (cases l)
  case (LOp t)
  assume "wf_lexeme l"
  with LOp show ?thesis by (auto simp: clean_lit clean_char_def [of "to_char _"] signed_char_to_char)
qed (auto simp: list_all_iff ident_char_def num_char_def clean_lit clean_class)

lemma source_text_show_lexemes: "list_all wf_lexeme ls \<Longrightarrow> source_text (show_lexemes ls) = show_lexemes ls"
proof (rule source_text_clean)
  assume "list_all wf_lexeme ls"
  then have "list_all clean_char (show_lexemes ls)"
    by (induction ls) (auto simp: show_lexemes_def clean_show_lexeme clean_lit)
  moreover have "clean_char c \<Longrightarrow> c \<noteq> CHR 0x00 \<and> c \<noteq> CHR 0xFF" for c
    by (auto simp: clean_char_def signed_char_def)
  ultimately show "list_all (\<lambda>c. c \<noteq> CHR 0x00 \<and> c \<noteq> CHR 0xFF) (show_lexemes ls)"
    by (simp add: list_all_iff)
qed

lemma presents_show:
  "list_all wf_lexeme ls \<Longrightarrow> presents (getNextToken (LexerBuffer (show_lexemes ls) f)) ls"
  using presents_start [of "show_lexemes ls" f]
  by (simp add: source_text_show_lexemes lexAll_show_lexemes)

text \<open>
  C14: Printing and lexing. Any sequence of well-formed lexemes, printed with blanks between
  them, is read back by the lexer token by token.
\<close>

theorem lexer_roundtrip:
  assumes "list_all wf_lexeme ls" "i < length ls"
  shows "curTok ((getNextToken ^^ Suc i) (LexerBuffer (show_lexemes ls) f)) = token_of (ls ! i)"
  using presents_at [OF presents_drop [OF presents_show [OF assms(1)]], of i] assms(2)
  by (simp add: funpow_Suc_right lexeme_at_def del: funpow.simps)

theorem lexer_roundtrip_witness:
  "curTok ((getNextToken ^^ Suc 1) (LexerBuffer (show_lexemes [LIdent ''handler'', LOp tok_cmp_le]) ''f.ep2''))
     = tok_cmp_le"
proof -
  have "list_all wf_lexeme [LIdent ''handler'', LOp tok_cmp_le]" "1 < length [LIdent ''handler'', LOp tok_cmp_le]"
    by code_simp+
  from lexer_roundtrip [OF this] show ?thesis by simp
qed

text \<open>
  C15: Peeking is transparent: it reports the token the next \<^verbatim>\<open>getNextToken\<close> takes, and
  changes neither that token, nor the current token, nor the current identifier, nor what a
  second peek reports.
\<close>

theorem peek_transparent:
  assumes "tokens lx = []"
  shows "fst (peekNextToken lx) = curTok (getNextToken lx) \<and>
         getNextToken (snd (peekNextToken lx)) = getNextToken lx \<and>
         peekNextToken (snd (peekNextToken lx)) = peekNextToken lx \<and>
         curTok (snd (peekNextToken lx)) = curTok lx \<and>
         getIdentiferStr (snd (peekNextToken lx)) = getIdentiferStr lx"
  using peek_next [OF assms] by simp

theorem peek_transparent_witness:
  "fst (peekNextToken (getNextToken (LexerBuffer ''a b'' ''f''))) = tok_identifier \<and>
   getIdentiferStr (snd (peekNextToken (getNextToken (LexerBuffer ''a b'' ''f'')))) = ''a''"
proof -
  let ?lx = "getNextToken (LexerBuffer ''a b'' ''f'')"
  have "tokens ?lx = []" "curTok (getNextToken ?lx) = tok_identifier" "getIdentiferStr ?lx = ''a''"
    by code_simp+
  with peek_transparent [of ?lx] show ?thesis by simp
qed

lemma col_after_snoc: "col_after k (p @ [c]) = (if c = CHR 0x0A then 0 else col_after k p + 1)"
  by (induction k p rule: col_after.induct) auto

lemma col_after_last: "col_after 0 p = length (takeWhile (\<lambda>c. c \<noteq> CHR 0x0A) (rev p))"
  by (induction p rule: rev_induct) (simp_all add: col_after_snoc)

text \<open>
  C16: The reader. The call number \<open>k\<close> of \<^verbatim>\<open>getNextChar\<close> returns byte \<open>k\<close> of the
  file up to its NUL; by then the line is the number of newlines read
  and the column the number of characters since the last of them (the reader starts with a
  newline of its own, which makes the first line of the file line 1).
\<close>

theorem reader_faithful:
  assumes "k < length (CHR 0x0A # takeWhile (\<lambda>c. c \<noteq> CHR 0x00) buf)"
  shows "fst (getNextChar (((snd \<circ> getNextChar) ^^ k) (LexerBuffer buf f)))
           = signed_char ((CHR 0x0A # takeWhile (\<lambda>c. c \<noteq> CHR 0x00) buf) ! k) \<and>
         curLineNum (((snd \<circ> getNextChar) ^^ k) (LexerBuffer buf f))
           = count_list (take k (CHR 0x0A # takeWhile (\<lambda>c. c \<noteq> CHR 0x00) buf)) (CHR 0x0A) \<and>
         curCol (((snd \<circ> getNextChar) ^^ k) (LexerBuffer buf f))
           = length (takeWhile (\<lambda>c. c \<noteq> CHR 0x0A) (rev (take k (CHR 0x0A # takeWhile (\<lambda>c. c \<noteq> CHR 0x00) buf))))"
proof -
  have st: "stream (LexerBuffer buf f) = CHR 0x0A # takeWhile (\<lambda>c. c \<noteq> CHR 0x00) buf"
    and ok: "reader_ok (LexerBuffer buf f)" and z: "curLineNum (LexerBuffer buf f) = 0" "curCol (LexerBuffer buf f) = 0"
    by (simp_all add: stream_def LexerBuffer_def reader_ok_def)
  show ?thesis
    using buffer.nth_char [OF ok, of k] position_steps [OF ok, of k] assms
    unfolding st z line_after_count col_after_last by simp
qed

theorem reader_faithful_witness:
  "curLineNum (((snd \<circ> getNextChar) ^^ 4) (LexerBuffer [CHR ''a'', CHR 0x0A, CHR ''b'', CHR ''c''] ''f'')) = 2 \<and>
   curCol (((snd \<circ> getNextChar) ^^ 4) (LexerBuffer [CHR ''a'', CHR 0x0A, CHR ''b'', CHR ''c''] ''f'')) = 1"
  using reader_faithful [of 4 "[CHR ''a'', CHR 0x0A, CHR ''b'', CHR ''c'']" "''f''"] by simp

text \<open>
  C17: The token stream ends: \<open>length buf + 3\<close> calls of \<^verbatim>\<open>getNextToken\<close> reach the end of
  any file.
\<close>

theorem lexer_reaches_eof:
  "curTok ((getNextToken ^^ (length buf + 3)) (LexerBuffer buf f)) = tok_eof"
proof -
  have "curTok ((getNextToken ^^ (length buf + 2)) (getNextToken (LexerBuffer buf f))) = tok_eof"
    by (rule toks.ends [OF lex_ok_prime]) (use budget_prime [of buf f] in simp)
  moreover have "length buf + 3 = Suc (length buf + 2)" by simp
  ultimately show ?thesis by (simp only: funpow_Suc_right comp_apply)
qed

text \<open>
  A byte above 127 is widened to a negative token number, and the numbers of the keyword
  tokens are negative too: the byte 0xFE is read as the keyword \<^verbatim>\<open>return\<close>, and the byte
  0xFF ends the file wherever it stands.
\<close>

theorem high_bytes_alias_tokens:
  "curTok (getNextToken (LexerBuffer [CHR 0xFE] f)) = keyword ''return'' \<and>
   curTok (getNextToken (LexerBuffer ([CHR 0xFF] @ s) f)) = tok_eof"
proof
  have "source_text [CHR 0xFE] = [CHR 0xFE]" "lexAll [CHR 0xFE] = [LOp (-2)]" by code_simp+
  with presents_start [of "[CHR 0xFE]" f] presents_curTok
  show "curTok (getNextToken (LexerBuffer [CHR 0xFE] f)) = keyword ''return''"
    by (fastforce simp: keyword_def)
  have "source_text ([CHR 0xFF] @ s) = []" by (simp add: source_text_def signed_char_EOF)
  with presents_start [of "[CHR 0xFF] @ s" f] presents_eof
  show "curTok (getNextToken (LexerBuffer ([CHR 0xFF] @ s) f)) = tok_eof" by (simp add: lexAll_Nil)
qed

end
