(* ===== verification/Ep2_Parser_Total.thy ===== *)
theory Ep2_Parser_Total
  imports Ep2_Tokens Ep2_Parser
begin

text \<open>
  The parser returns on every input. The contract of a parsing function (\<open>prog\<close>: it keeps the
  lexer invariant, never grows the token budget, and shrinks it when it returns a node) is
  the locale \<open>sub_parser\<close>; it is interpreted on \<open>parseExpression\<close> and \<open>parseBlock\<close>, and carried
  through every function up to \<open>parseInputFile\<close>. Monotonicity in the fuel makes the result
  independent of it. The last section says what a returned module or null means.
\<close>

section \<open>The contract of a parsing function\<close>

definition prog :: "nat \<Rightarrow> 'a option \<Rightarrow> lexer \<Rightarrow> bool" where
  "prog b a lx \<longleftrightarrow> lex_ok lx \<and> budget lx \<le> b \<and> (a \<noteq> None \<longrightarrow> budget lx < b)"

lemma next_less: "lex_ok lx \<Longrightarrow> curTok lx \<noteq> -1 \<Longrightarrow> budget (getNextToken lx) < budget lx"
  and next_le: "lex_ok lx \<Longrightarrow> budget (getNextToken lx) \<le> budget lx"
  and next_ok: "lex_ok lx \<Longrightarrow> lex_ok (getNextToken lx)"
  using getNextToken_progress by blast+

lemma less_nextD:
  "budget lx' < budget (getNextToken lx) \<Longrightarrow> lex_ok lx \<Longrightarrow> budget lx' < budget lx"
  "budget lx' \<le> budget (getNextToken lx) \<Longrightarrow> lex_ok lx \<Longrightarrow> budget lx' \<le> budget lx"
  using next_le le_trans less_le_trans by blast+

lemma next_step:
  "lex_ok lx \<Longrightarrow> curTok lx \<noteq> -1 \<Longrightarrow> budget lx \<le> b \<Longrightarrow> budget (getNextToken lx) < b"
  "lex_ok lx \<Longrightarrow> budget lx \<le> b \<Longrightarrow> budget (getNextToken lx) \<le> b"
  using next_less next_le le_trans less_le_trans by blast+

lemma errs_upd [simp]:
  "lex_ok (lx\<lparr>errs := e\<rparr>) = lex_ok lx" "budget (lx\<lparr>errs := e\<rparr>) = budget lx"
  by (simp_all add: lex_ok_def budget_def)

text \<open>
  \<open>down b lx\<close>: a good state with less than \<open>b\<close> tokens to go.
\<close>

abbreviation (input) below :: "nat \<Rightarrow> lexer \<Rightarrow> bool" where
  "below b lx \<equiv> lex_ok lx \<and> budget lx < b"

lemma safe_consume [safe_intros]:
  "lex_ok lx \<Longrightarrow> t \<noteq> -1 \<Longrightarrow>
   (\<And>lx'. curTok lx = t \<Longrightarrow> lex_ok lx' \<Longrightarrow> budget lx' < budget lx \<Longrightarrow> Q () lx') \<Longrightarrow> safe (consume t lx) Q"
  by (auto simp: consume_def next_less next_ok)

lemma safe_checkConsume [safe_intros]:
  "lex_ok lx \<Longrightarrow> t \<noteq> -1 \<Longrightarrow>
   (\<And>lx'. lex_ok lx' \<Longrightarrow> budget lx' < budget lx \<Longrightarrow> Q () lx') \<Longrightarrow> safe (checkConsume t lx) Q"
  by (auto simp: checkConsume_def consume_def next_less next_ok)

lemma safe_getId [safe_intros]: "(\<And>s. curTok lx = tok_identifier \<Longrightarrow> Q s lx) \<Longrightarrow> safe (getId lx) Q"
  by (simp add: getId_def)

lemma safe_getValue [safe_intros]: "(\<And>v. Q v lx) \<Longrightarrow> safe (getValue lx) Q"
  by (simp add: getValue_def)

lemma safe_conversion [safe_intros]:
  "(\<And>v. Q v lx) \<Longrightarrow> safe (to_unsigned_long d lx) Q"
  "(\<And>v. Q v lx) \<Longrightarrow> safe (to_int64 d lx) Q"
  "(\<And>v. Q v lx) \<Longrightarrow> safe (to_int32 d lx) Q"
  by (simp_all add: to_unsigned_long_def to_int64_def to_int32_def)

lemma safe_parseError [safe_intros]:
  "lex_ok lx \<Longrightarrow> (\<And>lx'. lex_ok lx' \<Longrightarrow> budget lx' \<le> budget lx \<Longrightarrow> Q None lx') \<Longrightarrow>
   safe (parseError e c lx) Q"
  by (simp add: parseError_def)

lemma safe_if [safe_intros]:
  "(c \<Longrightarrow> safe m Q) \<Longrightarrow> (\<not> c \<Longrightarrow> safe m' Q) \<Longrightarrow> safe (if c then m else m') Q"
  by simp

lemma safe_option [safe_intros]:
  "(x = None \<Longrightarrow> safe m Q) \<Longrightarrow> (\<And>a. x = Some a \<Longrightarrow> safe (f a) Q) \<Longrightarrow>
   safe (case x of None \<Rightarrow> m | Some a \<Rightarrow> f a) Q"
  by (cases x) auto

lemma safe_prog:
  "safe m (prog b) \<Longrightarrow>
   (\<And>lx'. lex_ok lx' \<Longrightarrow> budget lx' \<le> b \<Longrightarrow> Q None lx') \<Longrightarrow>
   (\<And>a lx'. lex_ok lx' \<Longrightarrow> budget lx' < b \<Longrightarrow> Q (Some a) lx') \<Longrightarrow> safe m Q"
  by (erule safe_mono) (case_tac a; auto simp: prog_def)

lemma parseNumberExpr_safe: "lex_ok lx \<Longrightarrow> safe (parseNumberExpr lx) (prog (budget lx))"
  by (auto simp: parseNumberExpr_def Let_def prog_def intro!: safe_intros)

lemma parseAtom_safe: "lex_ok lx \<Longrightarrow> safe (parseAtom lx) (prog (budget lx))"
  by (auto simp: parseAtom_def Let_def prog_def intro!: safe_intros)

lemma parsePortLiteralExpr_safe: "lex_ok lx \<Longrightarrow> safe (parsePortLiteralExpr lx) (prog (budget lx))"
  by (auto simp: parsePortLiteralExpr_def Let_def prog_def next_ok intro!: safe_intros
      dest!: less_nextD)

lemma safe_sub:
  "safe m (prog b) \<Longrightarrow> b \<le> B \<Longrightarrow>
   (\<And>lx'. lex_ok lx' \<Longrightarrow> budget lx' \<le> b \<Longrightarrow> safe (f None lx') (prog B)) \<Longrightarrow>
   (\<And>a lx'. lex_ok lx' \<Longrightarrow> budget lx' < b \<Longrightarrow> safe (f (Some a) lx') (prog B)) \<Longrightarrow>
   safe m (\<lambda>a lx. safe (f a lx) (prog B))"
  by (erule safe_prog) auto

lemma prog_mono: "safe m (prog b) \<Longrightarrow> b \<le> B \<Longrightarrow> safe m (prog B)"
  by (erule safe_mono) (auto simp: prog_def)

lemma structLiteral_safe:
  "lex_ok lx \<Longrightarrow> 2 * budget lx < n \<Longrightarrow> safe (parseStructLiteralExpr n lx) (prog (budget lx))"
  "lex_ok lx \<Longrightarrow> 2 * budget lx + 1 < n \<Longrightarrow> safe (structLiteralLoop n loc vs lx) (prog (budget lx))"
proof (induction n arbitrary: lx loc vs)
  case 0
  { case 1 then show ?case by simp next case 2 then show ?case by simp }
next
  case (Suc n)
  { case 1
    have "safe (structLiteralLoop n loc [] lx') (prog (budget lx))"
      if "lex_ok lx'" "budget lx' < budget lx" for lx' loc
      by (rule prog_mono [OF Suc.IH(2)]) (use that 1 in auto)
    with 1 show ?case by (auto simp: Let_def intro!: safe_intros)
  next
    case 2
    have rec: "safe (structLiteralLoop n loc vs (getNextToken lx')) (prog (budget lx))"
      if "lex_ok lx'" "curTok lx' \<noteq> -1" "budget lx' \<le> budget lx" for lx' vs
      by (rule prog_mono [OF Suc.IH(2)]) (use that 2 next_less [of lx'] in \<open>auto simp: next_ok\<close>)
    have "safe (parseStructLiteralExpr n lx) (prog (budget lx))"
      by (rule Suc.IH(1)) (use 2 in auto)
    note calls = safe_prog [OF this] safe_prog [OF parseNumberExpr_safe] safe_prog [OF rec]
    show ?case
      using 2 by (auto simp: Let_def prog_def next_ok next_step intro!: safe_intros calls)
  }
qed

section \<open>Expressions\<close>

definition kept :: "nat \<Rightarrow> 'a \<Rightarrow> lexer \<Rightarrow> bool" where
  "kept b a lx \<longleftrightarrow> lex_ok lx \<and> budget lx \<le> b"

lemma safe_kept:
  "safe m (kept b) \<Longrightarrow> (\<And>a lx'. lex_ok lx' \<Longrightarrow> budget lx' \<le> b \<Longrightarrow> Q a lx') \<Longrightarrow> safe m Q"
  by (erule safe_mono) (auto simp: kept_def)

lemmas prog_simps = Let_def prog_def kept_def next_ok next_step

lemma nextD:
  "budget lx' < budget (getNextToken lx) \<Longrightarrow> lex_ok lx \<Longrightarrow> curTok lx \<noteq> -1 \<Longrightarrow> Suc (budget lx') < budget lx"
  "budget lx' \<le> budget (getNextToken lx) \<Longrightarrow> lex_ok lx \<Longrightarrow> curTok lx \<noteq> -1 \<Longrightarrow> budget lx' < budget lx"
  using next_less [of lx] by linarith+

lemma portNames_safe:
  "lex_ok lx \<Longrightarrow> curTok lx \<noteq> -1 \<Longrightarrow> budget lx < n \<Longrightarrow> safe (portNames n names lx) (kept (budget lx))"
proof (induction n arbitrary: names lx)
  case (Suc n)
  note rec = safe_kept [OF Suc.IH]
  from Suc.prems show ?case by (auto simp: prog_simps intro!: safe_intros rec dest!: nextD)
qed simp

lemma pathLoop_safe:
  "lex_ok lx \<Longrightarrow> budget lx < n \<Longrightarrow> safe (pathLoop n path lx) (kept (budget lx))"
proof (induction n arbitrary: path lx)
  case (Suc n)
  note rec = safe_kept [OF Suc.IH]
  from Suc.prems show ?case by (auto simp: prog_simps intro!: safe_intros rec)
qed simp

text \<open>
  What the functions that call kept into the expression parser need of it: on a state with
  less than \<open>N\<close> tokens to go it returns, in a good state, having used up input if it returns
  a node.
\<close>

locale sub_parser =
  fixes pe :: "'a parser" and N :: nat
  assumes pe_safe: "lex_ok lx \<Longrightarrow> budget lx < N \<Longrightarrow> safe (pe lx) (prog (budget lx))"
begin

lemmas pe_call = safe_prog [OF pe_safe]

end

locale sub_expr = sub_parser pe N for pe :: "lexpr parser" and N
begin

lemma callArgs_safe:
  "lex_ok lx \<Longrightarrow> budget lx < N \<Longrightarrow> budget lx < n \<Longrightarrow> safe (callArgs n pe args lx) (prog (budget lx))"
proof (induction n arbitrary: args lx)
  case (Suc n)
  note rec = safe_prog [OF Suc.IH]
  from Suc.prems show ?case by (auto simp: prog_simps intro!: safe_intros rec pe_call dest!: less_nextD)
qed simp

lemma initValues_safe:
  "lex_ok lx \<Longrightarrow> budget lx < N \<Longrightarrow> budget lx < n \<Longrightarrow> safe (initValues n pe args lx) (prog (budget lx))"
proof (induction n arbitrary: args lx)
  case (Suc n)
  note rec = safe_prog [OF Suc.IH]
  from Suc.prems show ?case by (auto simp: prog_simps intro!: safe_intros rec pe_call)
qed simp

lemma parseParenExpr_safe:
  "lex_ok lx \<Longrightarrow> curTok lx \<noteq> -1 \<Longrightarrow> budget lx \<le> N \<Longrightarrow> safe (parseParenExpr pe lx) (prog (budget lx))"
  by (auto simp: parseParenExpr_def prog_simps intro!: safe_intros pe_call dest!: nextD)

lemma parseCallExpr_safe:
  "lex_ok lx \<Longrightarrow> budget lx \<le> N \<Longrightarrow> budget lx \<le> n \<Longrightarrow>
   safe (parseCallExpr n pe pl path loc lx) (prog (budget lx))"
  by (auto simp: parseCallExpr_def prog_simps
      intro!: safe_intros safe_prog [OF callArgs_safe] safe_kept [OF portNames_safe])

lemma parseIdentifierExpr_safe:
  "lex_ok lx \<Longrightarrow> curTok lx \<noteq> -1 \<Longrightarrow> budget lx \<le> N \<Longrightarrow> budget lx \<le> n \<Longrightarrow>
   safe (parseIdentifierExpr n pe lx) (prog (budget lx))"
  by (auto simp: parseIdentifierExpr_def prog_simps dest!: nextD
      intro!: safe_intros safe_kept [OF pathLoop_safe] safe_prog [OF parseAtom_safe]
        safe_prog [OF initValues_safe] safe_prog [OF parseCallExpr_safe])

lemma parsePrimary_safe:
  "lex_ok lx \<Longrightarrow> budget lx \<le> N \<Longrightarrow> 2 * budget lx < n \<Longrightarrow>
   safe (parsePrimary n pe lx) (prog (budget lx))"
  by (auto simp: parsePrimary_def Let_def
      intro: parseIdentifierExpr_safe parseAtom_safe parseNumberExpr_safe parseParenExpr_safe
        parsePortLiteralExpr_safe structLiteral_safe(1))
     (auto simp: prog_def)

end

lemma getTokPrecedence_eof: "getTokPrecedence (-1) = -1"
  by (simp add: getTokPrecedence_def static_cast_char_def)

context sub_expr
begin

lemma parseBinOpRHS_safe:
  "lex_ok lx \<Longrightarrow> budget lx \<le> N \<Longrightarrow> budget lx < n \<Longrightarrow> 0 \<le> p \<Longrightarrow>
   safe (parseBinOpRHS n pe p lhs lx) (kept (budget lx))"
proof (induction n arbitrary: p lhs lx)
  case (Suc n)
  note rec = safe_kept [OF Suc.IH]
  have "curTok lx \<noteq> -1" if "p \<le> getTokPrecedence (curTok lx)"
    using that Suc.prems getTokPrecedence_eof by auto
  with Suc.prems show ?case by (auto simp: prog_simps not_less intro!: safe_intros rec pe_call)
qed simp

end

lemma parsePrimary_sub:
  "sub_expr pe (n div 2) \<Longrightarrow> sub_expr (parsePrimary n pe) (Suc n div 2)"
  by unfold_locales (rule sub_expr.parsePrimary_safe [of pe "n div 2"]; simp)

lemma parseExpression_sub: "sub_expr (parseExpression n) (n div 2)"
proof (induction n)
  case 0
  show ?case by unfold_locales simp
next
  case (Suc n)
  note prim = parsePrimary_sub [OF Suc]
  note calls = safe_prog [OF sub_parser.pe_safe [OF sub_expr.axioms(1) [OF prim]]]
    safe_kept [OF sub_expr.parseBinOpRHS_safe [OF prim]]
  show ?case
    by unfold_locales (auto simp: prog_simps intro!: safe_intros calls)
qed

interpretation expression: sub_expr "parseExpression n" "n div 2" for n
  by (rule parseExpression_sub)

section \<open>Declarations and blocks\<close>

lemma safe_prod:
  "(\<And>a b. p = (a, b) \<Longrightarrow> safe (f a b) Q) \<Longrightarrow> safe (case p of (a, b) \<Rightarrow> f a b) Q"
  by (cases p) auto

lemma parseType_safe:
  "lex_ok lx \<Longrightarrow> budget lx < n \<Longrightarrow> safe (parseType n lx) (prog (budget lx))"
  "lex_ok lx \<Longrightarrow> curTok lx \<noteq> -1 \<Longrightarrow> budget lx < n \<Longrightarrow> safe (typeParams n nm ps lx) (prog (budget lx))"
proof (induction n arbitrary: lx nm ps)
  case 0
  { case 1 then show ?case by simp next case 2 then show ?case by simp }
next
  case (Suc n)
  note rec = safe_prog [OF Suc.IH(1)] safe_prog [OF Suc.IH(2)]
  { case 1
    then show ?case
      by (cases "curTok lx = -1") (auto simp: prog_simps intro!: safe_intros rec dest!: nextD)
  next
    case 2
    then show ?case by (auto simp: prog_simps intro!: safe_intros rec dest!: nextD)
  }
qed

lemmas expression_call = safe_prog [OF expression.pe_safe]

lemma parseTypedDeclaration_safe:
  "lex_ok lx \<Longrightarrow> budget lx < n div 2 \<Longrightarrow> safe (parseTypedDeclaration n t r loc lx) (prog (budget lx))"
  by (cases "curTok lx = -1")
    (auto simp: parseTypedDeclaration_def prog_simps intro!: safe_intros expression_call dest!: nextD)

lemma parseDeclaration_safe:
  "lex_ok lx \<Longrightarrow> budget lx < n div 2 \<Longrightarrow> safe (parseDeclaration n r lx) (prog (budget lx))"
  by (auto simp: parseDeclaration_def prog_simps
      intro!: safe_intros safe_prog [OF parseType_safe(1)] safe_prog [OF parseTypedDeclaration_safe])

lemma parseReturn_safe:
  "lex_ok lx \<Longrightarrow> t \<noteq> -1 \<Longrightarrow> budget lx < n div 2 \<Longrightarrow> safe (parseReturn n t lx) (prog (budget lx))"
  by (auto simp: parseReturn_def prog_simps intro!: safe_intros expression_call)

lemma swallowSemicolons_safe:
  "lex_ok lx \<Longrightarrow> budget lx < n \<Longrightarrow> safe (swallowSemicolons n lx) (kept (budget lx))"
proof (induction n arbitrary: lx)
  case (Suc n)
  then show ?case by (auto simp: prog_simps intro!: safe_intros safe_kept [OF Suc.IH])
qed simp

lemma isDeclarationAhead_ok:
  assumes "lex_ok lx"
  shows "lex_ok (snd (isDeclarationAhead lx))" "budget (snd (isDeclarationAhead lx)) \<le> budget lx"
    "curTok (snd (isDeclarationAhead lx)) = curTok lx"
proof -
  let ?p = "\<lambda>lx. snd (peekNextToken lx)"
  note one = peekNextToken_progress [OF assms]
  have two: "lex_ok (?p (?p lx)) \<and> budget (?p (?p lx)) \<le> budget lx \<and> curTok (?p (?p lx)) = curTok lx"
    if "curTok lx = tok_identifier"
    using that one peekNextToken_progress [of "?p lx"] by auto
  from one two assms
  show "lex_ok (snd (isDeclarationAhead lx))" "budget (snd (isDeclarationAhead lx)) \<le> budget lx"
    "curTok (snd (isDeclarationAhead lx)) = curTok lx"
    by (auto simp: isDeclarationAhead_def case_prod_beta Let_def)
qed

text \<open>A block parser is used through the same contract.\<close>

locale sub_block = sub_parser pb N for pb :: "lexpr list parser" and N
begin

lemma parseStatement_safe:
  assumes "lex_ok lx" "budget lx < n div 2" "budget lx \<le> N"
  shows "safe (parseStatement n pb lx) (prog (budget lx))"
proof -
  obtain d lx1 where d: "isDeclarationAhead lx = (d, lx1)" by fastforce
  then have lx1: "lex_ok lx1" "budget lx1 \<le> budget lx" "curTok lx1 = curTok lx"
    using isDeclarationAhead_ok [OF assms(1)] by simp_all
  show ?thesis
    using assms lx1
    by (auto simp: parseStatement_def d prog_simps
        intro!: safe_intros expression_call pe_call safe_prog [OF parseDeclaration_safe]
          safe_prog [OF parseReturn_safe])
qed

end

lemma parseBlock_safe:
  "lex_ok lx \<Longrightarrow> 2 * budget lx + 2 \<le> n \<Longrightarrow> safe (parseBlock n lx) (prog (budget lx))"
  "lex_ok lx \<Longrightarrow> 2 * budget lx + 3 \<le> n \<Longrightarrow> safe (parseBlockLoop n es lx) (prog (budget lx))"
proof (induction n arbitrary: lx es)
  case 0
  { case 1 then show ?case by simp next case 2 then show ?case by simp }
next
  case (Suc n)
  have "sub_block (parseBlock n) (n div 2)" by unfold_locales (rule Suc.IH(1); simp)
  note calls = safe_prog [OF Suc.IH(1)] safe_prog [OF Suc.IH(2)]
    safe_kept [OF swallowSemicolons_safe] safe_prog [OF sub_block.parseStatement_safe [OF this]] safe_prod
  { case 1
    then show ?case by (auto simp: prog_simps intro!: safe_intros calls)
  next
    case 2
    then show ?case by (auto simp: prog_simps intro!: safe_intros calls)
  }
qed

interpretation block: sub_block "parseBlock n" "n div 2" for n
  by unfold_locales (rule parseBlock_safe; simp)

section \<open>Top-level definitions\<close>

lemma safe_peek:
  "lex_ok lx \<Longrightarrow> curTok lx \<noteq> -1 \<Longrightarrow>
   (\<And>t lx'. lex_ok lx' \<Longrightarrow> budget lx' \<le> budget lx \<Longrightarrow> curTok lx' = curTok lx \<Longrightarrow> safe (f t lx') Q) \<Longrightarrow>
   safe (case peekNextToken lx of (t, lx) \<Rightarrow> f t lx) Q"
  using peekNextToken_progress [of lx] by (simp add: case_prod_beta)

lemma protoArgs_safe:
  "lex_ok lx \<Longrightarrow> curTok lx \<noteq> -1 \<Longrightarrow> budget lx < n \<Longrightarrow> safe (protoArgs n as lx) (prog (budget lx))"
proof (induction n arbitrary: as lx)
  case (Suc n)
  then show ?case
    by (auto simp: prog_simps intro!: safe_intros safe_prog [OF Suc.IH] safe_prog [OF parseType_safe(1)]
        dest!: nextD)
qed simp

lemma parsePrototype_safe:
  "lex_ok lx \<Longrightarrow> t \<noteq> -1 \<Longrightarrow> budget lx < n \<Longrightarrow> safe (parsePrototype n t lx) (prog (budget lx))"
  by (auto simp: parsePrototype_def prog_simps split: expr.splits
      intro!: safe_intros safe_peek safe_prog [OF parseAtom_safe] safe_prog [OF protoArgs_safe])

lemma structDecls_safe:
  "lex_ok lx \<Longrightarrow> 2 * budget lx + 3 \<le> n \<Longrightarrow> safe (structDecls n ds lx) (kept (budget lx))"
proof (induction n arbitrary: ds lx)
  case (Suc n)
  then show ?case
    by (auto simp: prog_simps intro!: safe_intros safe_kept [OF Suc.IH] safe_prog [OF parseDeclaration_safe])
qed simp

lemma parseStruct_safe:
  "lex_ok lx \<Longrightarrow> t \<noteq> -1 \<Longrightarrow> 2 * budget lx + 3 \<le> n \<Longrightarrow> safe (parseStruct n t lx) (prog (budget lx))"
  by (auto simp: parseStruct_def prog_simps intro!: safe_intros safe_kept [OF structDecls_safe])

lemma parseDefinition_safe:
  "lex_ok lx \<Longrightarrow> t \<noteq> -1 \<Longrightarrow> 2 * budget lx + 3 \<le> n \<Longrightarrow> safe (parseDefinition n t lx) (prog (budget lx))"
  by (auto simp: parseDefinition_def prog_simps
      intro!: safe_intros safe_prog [OF parsePrototype_safe] safe_prog [OF block.pe_safe])

section \<open>Modules\<close>

lemma separateBy_loop_safe:
  assumes f: "\<And>tok x lx. lex_ok lx \<Longrightarrow> budget lx < B \<Longrightarrow> safe (f tok x lx) (kept (budget lx))"
    and toks: "close \<noteq> -1"
  shows "lex_ok lx \<Longrightarrow> curTok lx \<noteq> -1 \<Longrightarrow> budget lx < n \<Longrightarrow> budget lx \<le> B \<Longrightarrow>
    safe (separateBy_loop n close tok_comma f x lx) (\<lambda>a lx'. lex_ok lx' \<and> budget lx' < budget lx)"
proof (induction n arbitrary: x lx)
  case (Suc n)
  note rec = safe_mono [OF Suc.IH]
  from Suc.prems toks show ?case
    by (auto simp: prog_simps intro!: safe_intros safe_prod safe_kept [OF f] rec dest!: nextD)
qed simp

lemma attrTupleElem_safe: "lex_ok lx \<Longrightarrow> safe (attrTupleElem tok names lx) (kept (budget lx))"
  by (auto simp: attrTupleElem_def prog_simps intro!: safe_intros)

lemma attrElem_safe:
  "lex_ok lx \<Longrightarrow> budget lx < n \<Longrightarrow> safe (attrElem n tok attrs lx) (kept (budget lx))"
  by (auto simp: attrElem_def separateBy_def prog_simps intro!: safe_intros safe_prod
      safe_mono [OF separateBy_loop_safe [where B = n and f = attrTupleElem, OF attrTupleElem_safe]])

lemma scopeHandlers_safe:
  "lex_ok lx \<Longrightarrow> curTok lx \<noteq> -1 \<Longrightarrow> budget lx < n \<Longrightarrow> safe (scopeHandlers n hs lx) (prog (budget lx))"
proof (induction n arbitrary: hs lx)
  case (Suc n)
  then show ?case
    by (auto simp: prog_simps intro!: safe_intros safe_prog [OF Suc.IH] dest!: nextD)
qed simp

lemma parseScope_safe:
  "lex_ok lx \<Longrightarrow> budget lx < n \<Longrightarrow> safe (parseScope n lx) (prog (budget lx))"
  by (auto simp: parseScope_def prog_simps intro!: safe_intros safe_prog [OF scopeHandlers_safe])

lemma parseGlobal_safe:
  "lex_ok lx \<Longrightarrow> budget lx < n div 2 \<Longrightarrow>
   safe (parseGlobal n lx) (\<lambda>a lx'. lex_ok lx' \<and> budget lx' < budget lx)"
  by (auto simp: parseGlobal_def prog_simps intro!: safe_intros safe_prog [OF parseDeclaration_safe])

lemma finishModule_safe: "safe (finishModule rs lx) (\<lambda>_ _. True)"
  by (simp add: finishModule_def parseError_def)

lemma parseModuleLoop_safe:
  "lex_ok lx \<Longrightarrow> 2 * budget lx + 4 \<le> n \<Longrightarrow> safe (parseModuleLoop n rs attrs lx) (\<lambda>_ _. True)"
proof (induction n arbitrary: rs attrs lx)
  case (Suc n)
  note rec = Suc.IH
  have attr: "safe (separateBy n 91 93 44 (attrElem n) attrs lx) (\<lambda>a lx'. lex_ok lx' \<and> budget lx' < budget lx)"
    if "curTok lx = tok_sbracket_open"
    unfolding separateBy_def
    using that Suc.prems separateBy_loop_safe [of n "attrElem n", OF attrElem_safe] by simp
  show ?case
    using Suc.prems
    by (auto simp: prog_simps intro!: safe_intros safe_prod finishModule_safe rec
        safe_prog [OF parseDefinition_safe] safe_prog [OF parseStruct_safe] safe_prog [OF parseScope_safe]
        safe_mono [OF parseGlobal_safe] safe_mono [OF attr])
qed simp

lemma safe_iff: "safe m (\<lambda>_ _. True) \<longleftrightarrow> m \<noteq> Crash OutOfFuel"
  by (cases m) auto

section \<open>More fuel changes nothing\<close>

definition fuel_le :: "('a, 's) outcome \<Rightarrow> ('a, 's) outcome \<Rightarrow> bool" where
  "fuel_le m m' \<longleftrightarrow> m = Crash OutOfFuel \<or> m = m'"

named_theorems fuel_intros \<open>monotonicity in the fuel\<close>

lemma fuel_refl [simp]: "fuel_le m m" "fuel_le (Crash OutOfFuel) m"
  by (simp_all add: fuel_le_def)

lemma fuel_thenP [fuel_intros]:
  "fuel_le m m' \<Longrightarrow> (\<And>a s. fuel_le (f a s) (g a s)) \<Longrightarrow> fuel_le (thenP m f) (thenP m' g)"
  by (cases m; cases m') (auto simp: fuel_le_def)

lemma fuel_if [fuel_intros]:
  "(c \<Longrightarrow> fuel_le m m') \<Longrightarrow> (\<not> c \<Longrightarrow> fuel_le k k') \<Longrightarrow>
   fuel_le (if c then m else k) (if c then m' else k')"
  by simp

lemma fuel_option [fuel_intros]:
  "fuel_le m m' \<Longrightarrow> (\<And>a. fuel_le (f a) (g a)) \<Longrightarrow>
   fuel_le (case x of None \<Rightarrow> m | Some a \<Rightarrow> f a) (case x of None \<Rightarrow> m' | Some a \<Rightarrow> g a)"
  by (cases x) simp_all

lemma fuel_prod [fuel_intros]:
  "(\<And>a b. fuel_le (f a b) (g a b)) \<Longrightarrow>
   fuel_le (case p of (a, b) \<Rightarrow> f a b) (case p of (a, b) \<Rightarrow> g a b)"
  by (cases p) simp

lemma structLiteral_fuel:
  "n \<le> m \<Longrightarrow> fuel_le (parseStructLiteralExpr n lx) (parseStructLiteralExpr m lx)"
  "n \<le> m \<Longrightarrow> fuel_le (structLiteralLoop n loc vs lx) (structLiteralLoop m loc vs lx)"
proof (induction n arbitrary: m lx loc vs)
  case (Suc n)
  { case 1
    then show ?case by (cases m) (auto simp: Let_def intro!: fuel_intros Suc.IH simp del: thenP.simps)
  next
    case 2
    then show ?case by (cases m) (auto simp: Let_def intro!: fuel_intros Suc.IH simp del: thenP.simps) }
qed simp_all

lemma portNames_fuel: "n \<le> m \<Longrightarrow> fuel_le (portNames n names lx) (portNames m names lx)"
proof (induction n arbitrary: m names lx)
  case (Suc n)
  then show ?case by (cases m) (auto simp: Let_def intro!: fuel_intros)
qed simp

lemma callArgs_fuel:
  "(\<And>lx. fuel_le (pe lx) (pe' lx)) \<Longrightarrow> n \<le> m \<Longrightarrow> fuel_le (callArgs n pe args lx) (callArgs m pe' args lx)"
proof (induction n arbitrary: m args lx)
  case (Suc n)
  then show ?case by (cases m) (auto simp: Let_def intro!: fuel_intros)
qed simp

lemma initValues_fuel:
  "(\<And>lx. fuel_le (pe lx) (pe' lx)) \<Longrightarrow> n \<le> m \<Longrightarrow> fuel_le (initValues n pe args lx) (initValues m pe' args lx)"
proof (induction n arbitrary: m args lx)
  case (Suc n)
  then show ?case by (cases m) (auto simp: Let_def intro!: fuel_intros)
qed simp

lemma pathLoop_fuel: "n \<le> m \<Longrightarrow> fuel_le (pathLoop n path lx) (pathLoop m path lx)"
proof (induction n arbitrary: m path lx)
  case (Suc n)
  then show ?case by (cases m) (auto simp: Let_def intro!: fuel_intros)
qed simp

lemma parsePrimary_fuel:
  assumes "\<And>lx. fuel_le (pe lx) (pe' lx)" "n \<le> m"
  shows "fuel_le (parsePrimary n pe lx) (parsePrimary m pe' lx)"
  using assms
  by (auto simp: parsePrimary_def parseIdentifierExpr_def parseParenExpr_def parseCallExpr_def Let_def
      intro!: fuel_intros callArgs_fuel initValues_fuel pathLoop_fuel portNames_fuel structLiteral_fuel(1))

lemma parseBinOpRHS_fuel:
  "(\<And>lx. fuel_le (pp lx) (pp' lx)) \<Longrightarrow> n \<le> m \<Longrightarrow>
   fuel_le (parseBinOpRHS n pp p lhs lx) (parseBinOpRHS m pp' p lhs lx)"
proof (induction n arbitrary: m p lhs lx)
  case (Suc n)
  then show ?case by (cases m) (auto simp: Let_def intro!: fuel_intros)
qed simp

lemma parseExpression_fuel: "n \<le> m \<Longrightarrow> fuel_le (parseExpression n lx) (parseExpression m lx)"
proof (induction n arbitrary: m lx)
  case (Suc n)
  then show ?case by (cases m) (auto intro!: fuel_intros parsePrimary_fuel parseBinOpRHS_fuel)
qed simp

lemma parseType_fuel:
  "n \<le> m \<Longrightarrow> fuel_le (parseType n lx) (parseType m lx)"
  "n \<le> m \<Longrightarrow> fuel_le (typeParams n nm ps lx) (typeParams m nm ps lx)"
proof (induction n arbitrary: m lx nm ps)
  case (Suc n)
  { case 1
    then show ?case by (cases m) (auto simp: Let_def intro!: fuel_intros Suc.IH)
  next
    case 2
    then show ?case by (cases m) (auto simp: Let_def intro!: fuel_intros Suc.IH) }
qed simp_all

lemma parseDeclaration_fuel: "n \<le> m \<Longrightarrow> fuel_le (parseDeclaration n r lx) (parseDeclaration m r lx)"
  by (auto simp: parseDeclaration_def parseTypedDeclaration_def Let_def
      intro!: fuel_intros parseExpression_fuel parseType_fuel)

lemma parseReturn_fuel: "n \<le> m \<Longrightarrow> fuel_le (parseReturn n t lx) (parseReturn m t lx)"
  by (auto simp: parseReturn_def Let_def intro!: fuel_intros parseExpression_fuel)

lemma swallowSemicolons_fuel: "n \<le> m \<Longrightarrow> fuel_le (swallowSemicolons n lx) (swallowSemicolons m lx)"
proof (induction n arbitrary: m lx)
  case (Suc n)
  then show ?case by (cases m) (auto intro!: fuel_intros)
qed simp

lemma parseStatement_fuel:
  assumes "\<And>lx. fuel_le (pb lx) (pb' lx)" "n \<le> m"
  shows "fuel_le (parseStatement n pb lx) (parseStatement m pb' lx)"
  using assms
  by (auto simp: parseStatement_def Let_def
      intro!: fuel_intros parseDeclaration_fuel parseReturn_fuel parseExpression_fuel)

lemma parseBlock_fuel:
  "n \<le> m \<Longrightarrow> fuel_le (parseBlock n lx) (parseBlock m lx)"
  "n \<le> m \<Longrightarrow> fuel_le (parseBlockLoop n es lx) (parseBlockLoop m es lx)"
proof (induction n arbitrary: m lx es)
  case (Suc n)
  { case 1
    then show ?case by (cases m) (auto simp: Let_def intro!: fuel_intros Suc.IH swallowSemicolons_fuel)
  next
    case 2
    then show ?case
      by (cases m) (auto simp: Let_def intro!: fuel_intros Suc.IH parseStatement_fuel swallowSemicolons_fuel) }
qed simp_all

lemma protoArgs_fuel: "n \<le> m \<Longrightarrow> fuel_le (protoArgs n as lx) (protoArgs m as lx)"
proof (induction n arbitrary: m as lx)
  case (Suc n)
  then show ?case by (cases m) (auto simp: Let_def intro!: fuel_intros parseType_fuel)
qed simp

lemma parseDefinition_fuel: "n \<le> m \<Longrightarrow> fuel_le (parseDefinition n t lx) (parseDefinition m t lx)"
  by (auto simp: parseDefinition_def parsePrototype_def Let_def
      intro!: fuel_intros protoArgs_fuel parseBlock_fuel)

lemma structDecls_fuel: "n \<le> m \<Longrightarrow> fuel_le (structDecls n ds lx) (structDecls m ds lx)"
proof (induction n arbitrary: m ds lx)
  case (Suc n)
  then show ?case by (cases m) (auto simp: Let_def intro!: fuel_intros parseDeclaration_fuel)
qed simp

lemma parseStruct_fuel: "n \<le> m \<Longrightarrow> fuel_le (parseStruct n t lx) (parseStruct m t lx)"
  by (auto simp: parseStruct_def Let_def intro!: fuel_intros structDecls_fuel)

lemma separateBy_loop_fuel:
  "(\<And>t x lx. fuel_le (f t x lx) (g t x lx)) \<Longrightarrow> n \<le> m \<Longrightarrow>
   fuel_le (separateBy_loop n c sp f x lx) (separateBy_loop m c sp g x lx)"
proof (induction n arbitrary: m x lx)
  case (Suc n)
  then show ?case by (cases m) (auto simp: Let_def intro!: fuel_intros)
qed simp

lemma attrElem_fuel: "n \<le> m \<Longrightarrow> fuel_le (attrElem n t as lx) (attrElem m t as lx)"
  by (auto simp: attrElem_def separateBy_def Let_def intro!: fuel_intros separateBy_loop_fuel)

lemma scopeHandlers_fuel: "n \<le> m \<Longrightarrow> fuel_le (scopeHandlers n hs lx) (scopeHandlers m hs lx)"
proof (induction n arbitrary: m hs lx)
  case (Suc n)
  then show ?case by (cases m) (auto simp: Let_def intro!: fuel_intros)
qed simp

lemma parseScope_fuel: "n \<le> m \<Longrightarrow> fuel_le (parseScope n lx) (parseScope m lx)"
  by (auto simp: parseScope_def Let_def intro!: fuel_intros scopeHandlers_fuel)

lemma parseGlobal_fuel: "n \<le> m \<Longrightarrow> fuel_le (parseGlobal n lx) (parseGlobal m lx)"
  by (auto simp: parseGlobal_def Let_def intro!: fuel_intros parseDeclaration_fuel)

lemma parseModuleLoop_fuel:
  "n \<le> m \<Longrightarrow> fuel_le (parseModuleLoop n rs as lx) (parseModuleLoop m rs as lx)"
proof (induction n arbitrary: m rs as lx)
  case (Suc n)
  then show ?case
    by (cases m) (auto simp: Let_def separateBy_def intro!: fuel_intros parseDefinition_fuel parseStruct_fuel
        separateBy_loop_fuel attrElem_fuel parseScope_fuel parseGlobal_fuel)
qed simp

lemma parseInputFile_fuel: "n \<le> m \<Longrightarrow> fuel_le (parseInputFile n f buf) (parseInputFile m f buf)"
  by (simp add: parseInputFile_def parseModule_def parseModuleLoop_fuel)

lemma parse_fuel_enough:
  assumes "2 * length buffer + 8 \<le> n"
  shows "parseInputFile n filename buffer \<noteq> Crash OutOfFuel"
    and "parseInputFile n filename buffer = parseInputFile (2 * length buffer + 8) filename buffer"
proof -
  have fin: "parseInputFile k filename buffer \<noteq> Crash OutOfFuel" if "2 * length buffer + 8 \<le> k" for k
    unfolding parseInputFile_def parseModule_def safe_iff [symmetric]
    using that budget_prime [of buffer filename]
    by (intro parseModuleLoop_safe lex_ok_prime) simp
  with assms parseInputFile_fuel [OF assms, of filename buffer]
  show "parseInputFile n filename buffer \<noteq> Crash OutOfFuel"
    and "parseInputFile n filename buffer = parseInputFile (2 * length buffer + 8) filename buffer"
    by (auto simp: fuel_le_def)
qed

text \<open>
  C2: The parser is total: the fuel \<open>2 * length buffer + 8\<close> is never exhausted, whatever the
  file holds, and more fuel does not change the result.
\<close>

theorem parseInputFile_total:
  assumes "2 * length buffer + 8 \<le> n"
  shows "parseInputFile n filename buffer \<noteq> Crash OutOfFuel \<and>
         parseInputFile n filename buffer = parseInputFile (2 * length buffer + 8) filename buffer"
  using parse_fuel_enough [OF assms, of filename] by simp

theorem parseInputFile_total_witness:
  "parseInputFile 100 ''f.ep2'' ''struct S { int a; }'' \<noteq> Crash OutOfFuel \<and>
   parseInputFile 100 ''f.ep2'' ''struct S { int a; }'' = parseInputFile 46 ''f.ep2'' ''struct S { int a; }''"
  using parseInputFile_total [of "''struct S { int a; }''" 100 "''f.ep2''"] by auto

section \<open>What a result means\<close>

text \<open>A null module always comes with a diagnostic; a module only at the end of the file.\<close>

fun settled :: "('a option, lexer) outcome \<Rightarrow> bool" where
  "settled (Ok None lx) \<longleftrightarrow> errs lx \<noteq> []"
| "settled (Ok (Some a) lx) \<longleftrightarrow> curTok lx = tok_eof"
| "settled (Crash c) \<longleftrightarrow> True"

definition diagnosed :: "('a option, lexer) outcome \<Rightarrow> bool" where
  "diagnosed m \<longleftrightarrow> (\<forall>lx. m = Ok None lx \<longrightarrow> errs lx \<noteq> [])"

named_theorems diag_intros \<open>null results carry a diagnostic\<close>

lemma diagnosed_parseError [diag_intros]: "diagnosed (parseError e c lx)"
  by (auto simp: diagnosed_def parseError_def)

lemma diagnosed_simps [simp]: "diagnosed (Ok (Some a) lx)" "diagnosed (Crash c)"
  by (auto simp: diagnosed_def)

lemma diagnosed_thenP [diag_intros]: "(\<And>a lx. m = Ok a lx \<Longrightarrow> diagnosed (f a lx)) \<Longrightarrow> diagnosed (thenP m f)"
  by (cases m) auto

lemma diagnosed_if [diag_intros]: "(c \<Longrightarrow> diagnosed m) \<Longrightarrow> (\<not> c \<Longrightarrow> diagnosed k) \<Longrightarrow> diagnosed (if c then m else k)"
  by simp

lemma scopeHandlers_diagnosed: "diagnosed (scopeHandlers n hs lx)"
proof (induction n arbitrary: hs lx)
  case (Suc n)
  then show ?case by (auto simp: Let_def intro!: diag_intros)
qed simp

lemma parseScope_diagnosed: "diagnosed (parseScope n lx)"
  using scopeHandlers_diagnosed [of n "[]"]
  by (auto simp: parseScope_def Let_def diagnosed_def [of "scopeHandlers _ _ _"] split: option.splits
      intro!: diag_intros)
     (auto simp: diagnosed_def split: if_splits)

lemma finishModule_settled: "settled (finishModule rs lx)"
  by (simp add: finishModule_def parseError_def)

lemma settled_parseError: "settled (parseError e c lx)"
  by (simp add: parseError_def)

lemma settled_thenP: "(\<And>a lx. m = Ok a lx \<Longrightarrow> settled (f a lx)) \<Longrightarrow> settled (thenP m f)"
  by (cases m) auto

lemma separateBy_loop_null:
  "(\<And>t x lx r x' lx'. f t x lx = Ok (r, x') lx' \<Longrightarrow> r = None) \<Longrightarrow>
   separateBy_loop n c s f x lx = Ok (r, x') lx' \<Longrightarrow> r = None"
  by (induction n arbitrary: x lx)
     (fastforce simp: Let_def thenP_Ok_iff parseError_def split: if_splits)+

lemma attrTupleElem_null: "attrTupleElem t ns lx = Ok (r, x') lx' \<Longrightarrow> r = None"
  by (auto simp: attrTupleElem_def thenP_Ok_iff parseError_def split: if_splits)

lemma attrTuple_null:
  "separateBy_loop n c s attrTupleElem x lx = Ok (Some y, x') lx' \<Longrightarrow> False"
  using separateBy_loop_null [of attrTupleElem n c s x lx "Some y" x' lx'] attrTupleElem_null by blast

lemma attrElem_null: "attrElem n t as lx = Ok (r, x') lx' \<Longrightarrow> r = None"
  by (auto simp: attrElem_def separateBy_def thenP_Ok_iff parseError_def split: if_splits
      dest: attrTuple_null)

lemma parseModuleLoop_settled: "settled (parseModuleLoop n rs as lx)"
proof (induction n arbitrary: rs as lx)
  case (Suc n)
  have emit: "settled (case node of None \<Rightarrow> finishModule rs lx
      | Some node \<Rightarrow> parseModuleLoop n (rs @ [\<lparr>rec_node = node, rec_attrs = as\<rparr>]) [] lx)" for node lx
    by (simp add: finishModule_settled Suc split: option.splits)
  have attr: "settled (case p of (ret, as) \<Rightarrow> if ret \<noteq> None then Ok ret lx' else parseModuleLoop n rs as lx')"
    if "separateBy n 91 93 44 (attrElem n) as lx = Ok p lx'" for p lx'
    using that separateBy_loop_null [of "attrElem n", OF attrElem_null] Suc
    by (cases p) (fastforce simp: separateBy_def parseError_def split: if_splits)
  have scope: "settled (if node = None then Ok None lx' else
      (case node of None \<Rightarrow> finishModule rs lx'
      | Some node \<Rightarrow> parseModuleLoop n (rs @ [\<lparr>rec_node = node, rec_attrs = as\<rparr>]) [] lx'))"
    if "parseScope n lx = Ok node lx'" for node lx'
    using that parseScope_diagnosed [of n lx] by (cases node) (auto simp: diagnosed_def Suc)
  show ?case
    unfolding parseModuleLoop.simps Let_def
    using emit scope attr Suc
    by (auto simp: finishModule_settled settled_parseError intro!: settled_thenP)
qed simp

text \<open>
  C13: What the driver can rely on: if \<^verbatim>\<open>parseInputFile\<close> returns a null module then something was
  written to \<^verbatim>\<open>stderr\<close>, and if it returns a module then the parser stands at the end of the
  file.
\<close>

theorem parseInputFile_settled:
  "case parseInputFile n filename buffer of
     Ok None lx \<Rightarrow> errs lx \<noteq> []
   | Ok (Some m) lx \<Rightarrow> curTok lx = tok_eof
   | Crash c \<Rightarrow> True"
  using parseModuleLoop_settled [of n "[]" "[]" "getNextToken (LexerBuffer buffer filename)"]
  by (auto simp: parseInputFile_def parseModule_def split: outcome.splits option.splits)

end
