(* ===== verification/Ep2_Driver.thy ===== *)
theory Ep2_Driver
  imports Ep2_Codegen Ep2_Dump Ep2_Parser_Total
begin

text \<open>
  The command line driver (\<^verbatim>\<open>ep2c/ep2c.cpp\<close>): parser, code generator and dumper put together, from
  the bytes of a file to the exit code.
\<close>

section \<open>The driver\<close>

datatype action = NoAction | DumpAST | DumpMLIR | DumpMLIRLLVM | DumpLLVMIR

datatype emitted = NoOutput | AstText string | MlirModule "module_op list"

datatype run = Exit int emitted | Abort crash

text \<open>
  \<^verbatim>\<open>main\<close> after the command line: whether the output file opens, and the contents of the input file,
  or none when it cannot be opened.
  \<open>n\<close> is the fuel of the parser.
\<close>

definition ep2c_main :: "nat \<Rightarrow> action \<Rightarrow> bool \<Rightarrow> string \<Rightarrow> string option \<Rightarrow> run" where
  "ep2c_main n emitAction outputOpens filename contents =
     (if \<not> outputOpens then Exit (-1) NoOutput else case contents of
     None \<Rightarrow> Exit 1 NoOutput
   | Some buffer \<Rightarrow> (case parseInputFile n filename buffer of
       Crash c \<Rightarrow> Abort c
     | Ok None lx \<Rightarrow> Exit 1 NoOutput
     | Ok (Some m) lx \<Rightarrow>
         if emitAction = DumpAST then (case dump m of Ok _ d \<Rightarrow> Exit 0 (AstText (out d)) | Crash c \<Rightarrow> Abort c)
         else (case mlirGen m of
             Crash c \<Rightarrow> Abort c
           | Ok None g \<Rightarrow> Exit 1 NoOutput
           | Ok (Some ops) g \<Rightarrow> Exit 0 (if emitAction = DumpMLIR then MlirModule ops else NoOutput))))"

text \<open>
  the whole front end, from the bytes of a file to the exit code, always finishes: with the
  fuel of the parser it exits or aborts for a reason of the program, and more fuel makes no
  difference.
\<close>

theorem main_total:
  assumes "2 * length buffer + 8 \<le> n"
  shows "ep2c_main n act outputOpens filename (Some buffer) \<noteq> Abort OutOfFuel \<and>
         ep2c_main n act outputOpens filename (Some buffer) = ep2c_main (2 * length buffer + 8) act outputOpens filename (Some buffer)"
proof -
  note fuel = parse_fuel_enough [OF assms, of filename]
  have "mlirGen m \<noteq> Crash OutOfFuel" for m
    using mlirGen_safe [of m] by auto
  moreover have "dump m \<noteq> Crash OutOfFuel" for m
    by (rule dump_no_fuel)
  ultimately show ?thesis
    using fuel unfolding ep2c_main_def by (auto split: outcome.split option.split)
qed

theorem main_total_witness:
  "ep2c_main 50 DumpMLIR True ''f'' (Some ''struct S { int a; }'') \<noteq> Abort OutOfFuel \<and>
   ep2c_main 50 DumpMLIR True ''f'' (Some ''struct S { int a; }'') = ep2c_main 46 DumpMLIR True ''f'' (Some ''struct S { int a; }'')"
  using main_total [of "''struct S { int a; }''" 50 DumpMLIR True "''f''"] by auto

text \<open>
  C18: what the driver prints as MLIR is a well-formed module, and it is printed only with exit
  code 0 and for the action \<^verbatim>\<open>mlir\<close>.
\<close>

theorem main_emits_module_ok:
  assumes "ep2c_main n act outputOpens filename contents = Exit code (MlirModule ops)"
  shows "code = 0 \<and> act = DumpMLIR \<and> module_ok {} ops"
proof -
  have "module_ok {} ops" if "mlirGen m = Ok (Some ops) g" for m g
    using mlirGen_safe [of m] that by simp
  with assms show ?thesis
    unfolding ep2c_main_def by (auto split: option.splits outcome.splits if_splits)
qed

theorem main_emits_module_ok_witness:
  "\<exists>ops. ep2c_main 300 DumpMLIR True ''f'' (Some branching_source) = Exit 0 (MlirModule ops) \<and> length ops = 1 \<and>
     module_ok {} ops"
proof -
  have "case ep2c_main 300 DumpMLIR True ''f'' (Some branching_source) of
      Exit c (MlirModule ops) \<Rightarrow> c = 0 \<and> length ops = 1 | _ \<Rightarrow> False"
    by code_simp
  then obtain ops where "ep2c_main 300 DumpMLIR True ''f'' (Some branching_source) = Exit 0 (MlirModule ops)" "length ops = 1"
    by (auto split: run.splits emitted.splits)
  with main_emits_module_ok [OF this(1)] show ?thesis
    by blast
qed

text \<open>
  the actions \<^verbatim>\<open>mlir-llvm\<close> and \<^verbatim>\<open>llvm\<close> the command line offers never produce anything: the
  driver compiles the file and exits with code 0 without output.
\<close>

theorem lowering_actions_do_nothing:
  assumes "act \<in> {DumpMLIRLLVM, DumpLLVMIR}" and "ep2c_main n act outputOpens filename contents = Exit 0 result"
  shows "result = NoOutput"
  using assms unfolding ep2c_main_def by (auto split: option.splits outcome.splits if_splits)

theorem lowering_actions_do_nothing_witness:
  "\<exists>result. ep2c_main 50 DumpLLVMIR True ''f'' (Some ''struct S { int a; }'') = Exit 0 result \<and> result = NoOutput"
proof -
  have "case ep2c_main 50 DumpLLVMIR True ''f'' (Some ''struct S { int a; }'') of Exit c result \<Rightarrow> c = 0 | _ \<Rightarrow> False"
    by code_simp
  then obtain result where "ep2c_main 50 DumpLLVMIR True ''f'' (Some ''struct S { int a; }'') = Exit 0 result"
    by (auto split: run.splits)
  with lowering_actions_do_nothing [OF _ this] show ?thesis
    by simp
qed

end
