(* ===== verification/Ep2_Findings.thy ===== *)
theory Ep2_Findings
  imports Ep2_Parser
begin

text \<open>
  Inputs on which the parser does something other than its comments and error messages say,
  evaluated in the model.
\<close>

section \<open>Inputs the parser mishandles\<close>

text \<open>The shape of an accepted module with exactly one function, and its body.\<close>

fun only_body :: "(location module_ast option, lexer) outcome \<Rightarrow> lexpr list option" where
  "only_body (Ok (Some [r]) lx) = (case rec_node r of FunctionNode p b \<Rightarrow> Some b | _ \<Rightarrow> None)"
| "only_body _ = None"

fun accepted :: "(location module_ast option, lexer) outcome \<Rightarrow> nat option" where
  "accepted (Ok (Some m) lx) = Some (length m)"
| "accepted _ = None"

fun diagnostics :: "(location module_ast option, lexer) outcome \<Rightarrow> nat" where
  "diagnostics (Ok m lx) = length (errs lx)"
| "diagnostics (Crash c) = 0"

text \<open>
  A \<^verbatim>\<open>return\<close> whose expression failed to parse is accepted with a null expression: the
  test after \<^verbatim>\<open>parseExpression\<close> asks whether the optional is set, which it is, not whether the
  pointer is null.
\<close>

theorem return_keeps_null_expression:
  "(case only_body (parseInputFile 90 ''f'' ''handler h(int a) { return a + ; }'') of
      Some [ReturnExpr l (Some None)] \<Rightarrow> True | _ \<Rightarrow> False) \<and>
   diagnostics (parseInputFile 90 ''f'' ''handler h(int a) { return a + ; }'') = 1"
  by code_simp

text \<open>
  A declaration whose initialiser failed to parse is accepted as a declaration without
  initialiser.
\<close>

theorem failed_initialiser_dropped:
  "(case only_body (parseInputFile 90 ''f'' ''handler h(int a) { int x = a + ; }'') of
      Some [VarDeclExpr l n t None] \<Rightarrow> n = ''x'' | _ \<Rightarrow> False) \<and>
   diagnostics (parseInputFile 90 ''f'' ''handler h(int a) { int x = a + ; }'') = 1"
  by code_simp

text \<open>
  A file that ends inside a definition is accepted, without that definition: a null record
  leaves the loop of \<^verbatim>\<open>parseModule\<close>, which then only asks whether it stands at the end of the file.
\<close>

theorem truncated_file_accepted:
  "accepted (parseInputFile 140 ''f'' ''struct S { int a; } handler f(int x) { g(x);'') = Some 1 \<and>
   diagnostics (parseInputFile 140 ''f'' ''struct S { int a; } handler f(int x) { g(x);'') = 1"
  by code_simp

text \<open>
  An error inside an attribute list does not fail the parse: \<^verbatim>\<open>separateBy\<close> returns null both
  for success and for an error, and its caller goes on in both cases.
\<close>

theorem attribute_error_accepted:
  "accepted (parseInputFile 70 ''f'' ''[,a] struct S { int a; }'') = Some 1 \<and>
   diagnostics (parseInputFile 70 ''f'' ''[,a] struct S { int a; }'') = 1"
  by code_simp

text \<open>
  No \<^verbatim>\<open>var\<close> declaration parses: \<^verbatim>\<open>parseBlock\<close> sends it to \<^verbatim>\<open>parseDeclaration\<close> with the
  keyword still current, and a type starts with an identifier.
\<close>

theorem var_declaration_rejected:
  assumes "curTok lx = tok_var"
  shows "\<exists>lx'. parseStatement (Suc n) pb lx = Ok None lx' \<and> length (errs lx') = length (errs lx) + 2"
  using assms
  by (simp add: parseStatement_def parseDeclaration_def parseTypedDeclaration_def parseError_def Let_def)

theorem var_declaration_rejected_witness:
  "\<exists>lx'. parseStatement (Suc 9) (parseBlock 9) (getNextToken (LexerBuffer ''var x = 1;'' ''f'')) = Ok None lx' \<and>
     length (errs lx') = length (errs (getNextToken (LexerBuffer ''var x = 1;'' ''f''))) + 2"
proof -
  have "curTok (getNextToken (LexerBuffer ''var x = 1;'' ''f'')) = tok_var" by code_simp
  then show ?thesis by (rule var_declaration_rejected)
qed

text \<open>
  An integer literal goes through a double: above \<open>2 ^ 53\<close> it is rounded.
\<close>

theorem large_literal_rounded:
  "(case parseNumberExpr (getNextToken (LexerBuffer ''9007199254740993'' ''f'')) of
      Ok (Some (NumberExpr l v)) lx \<Rightarrow> v = 9007199254740992 | _ \<Rightarrow> False)"
  by code_simp

text \<open>
  Peeking moves the recorded location: in a statement that starts with an identifier the
  variable node carries the position of the token after it (here the operator).
\<close>

theorem peek_moves_location:
  "(case only_body (parseInputFile 90 ''f'' ''handler h(int a) { a = 2; }'') of
      Some [BinaryExpr l1 p1 (PathExpr l2 [Variable l3 n]) e] \<Rightarrow> n = ''a'' \<and> loc_col l3 = 22 | _ \<Rightarrow> False)"
  by code_simp

end
