(* ===== verification/Ep2_Dialect.thy ===== *)
theory Ep2_Dialect
  imports Ep2_IR
begin

text \<open>
  The operations of the dialect that check, fold and rewrite (\<^verbatim>\<open>lib/ep2/Dialect/Dialect.cpp\<close>): the type of a
  cast, the short form of a binary operation, the verifiers, and the canonicalization patterns; and
  the type conversion of single-element structs (\<^verbatim>\<open>Passes/CanonicalizePass.cpp\<close>).
\<close>

section \<open>Casts\<close>

definition isInteger :: "ty \<Rightarrow> bool" where
  "isInteger t = (case t of IntegerType w \<Rightarrow> True | _ \<Rightarrow> False)"

fun areCastCompatible :: "ty list \<Rightarrow> ty list \<Rightarrow> bool" where
  "areCastCompatible [i] [out] \<longleftrightarrow>
     i = AnyType \<or> out = AnyType \<or> (isInteger i \<and> isInteger out) \<or> i = out"
| "areCastCompatible inputs outputs \<longleftrightarrow> False"

text \<open>
  Folding a cast, given the value of its operand where that is a constant. A path without a return
  statement is \<open>NoReturn\<close>.
\<close>

datatype fold_result = FoldInput | FoldConst int | NoFold | NoReturn

definition bitCastFold :: "ty \<Rightarrow> ty \<Rightarrow> int option \<Rightarrow> fold_result" where
  "bitCastFold i out c =
     (if i = out then FoldInput
      else if out = AnyType then FoldInput
      else case (i, out) of
        (IntegerType w, IntegerType width) \<Rightarrow>
          (case c of
             Some value \<Rightarrow> FoldConst (min (value mod 2 ^ nat w) (2 ^ 64 - 1) mod 2 ^ nat width)
           | None \<Rightarrow> NoFold)
      | _ \<Rightarrow> NoReturn)"

section \<open>Printing and parsing of binary operations\<close>

text \<open>The type behind the colon: one type, or the operand and result types of a function type.\<close>

datatype printed = PlainType ty | FunctionalType "ty list" "ty list"

definition printBinaryOp :: "ty list \<Rightarrow> ty list \<Rightarrow> printed" where
  "printBinaryOp operandTypes resultTypes =
     (let resultType = hd resultTypes
      in if list_all (\<lambda>t. t = resultType) operandTypes then PlainType resultType
         else FunctionalType operandTypes resultTypes)"

text \<open>The types of the operands and results; \<open>None\<close> is a syntax error.\<close>

definition parseBinaryOp :: "nat \<Rightarrow> printed \<Rightarrow> (ty list \<times> ty list) option" where
  "parseBinaryOp operands p =
     (if operands \<noteq> 2 then None
      else case p of
        FunctionalType inputs outputs \<Rightarrow> if length inputs = operands then Some (inputs, outputs) else None
      | PlainType t \<Rightarrow> Some (replicate operands t, [t]))"

section \<open>Verifiers\<close>

text \<open>
  \<open>None\<close> is the assertion of \<^verbatim>\<open>llvm::cast\<close>. A tensor is initialised by a dense attribute, which is none
  of the attributes of the dialect.
\<close>

fun verifyConstantForType :: "ty \<Rightarrow> attr \<Rightarrow> bool option"
  and verifyElements :: "ty list \<Rightarrow> attr list \<Rightarrow> bool option" where
  "verifyConstantForType UnrankedTensorType a = Some False"
| "verifyConstantForType (StructType e ts n) (ArrayAttr as) =
     (if length as \<noteq> length ts then Some False else verifyElements ts as)"
| "verifyConstantForType (StructType e ts n) a = Some False"
| "verifyConstantForType t a = None"
| "verifyElements (t # ts) (a # as) = (case verifyConstantForType t a of
     Some True \<Rightarrow> verifyElements ts as
   | Some False \<Rightarrow> Some False
   | None \<Rightarrow> None)"
| "verifyElements ts as = Some True"

definition verifyStructConstantOp :: "ty \<Rightarrow> attr \<Rightarrow> bool option" where
  "verifyStructConstantOp resultType value = verifyConstantForType resultType value"

definition verifyReturnOp :: "op \<Rightarrow> bool" where
  "verifyReturnOp p \<longleftrightarrow> \<not> length (op_operands p) > 1"

text \<open>The constant operation for a folded value; \<open>None\<close> is a failed cast of the attribute.\<close>

definition materializeConstant :: "attr \<Rightarrow> ty \<Rightarrow> opkind option" where
  "materializeConstant value t = (case t of
     StructType e ts n \<Rightarrow> (case value of ArrayAttr as \<Rightarrow> Some (StructConstantOp value) | _ \<Rightarrow> None)
   | AtomType \<Rightarrow> (case value of StrAttr s \<Rightarrow> Some (ConstantOp value) | _ \<Rightarrow> None)
   | _ \<Rightarrow> (case value of IntAttr i \<Rightarrow> Some (ConstantOp value) | _ \<Rightarrow> None))"

section \<open>Rewriting patterns\<close>

text \<open>
  What a pattern sees and changes: the types of the values and the next unused value. A match
  replaces the operation by new ones in its place, or erases it and replaces its result by another
  value everywhere. An access outside of a struct type, or to a type that is missing, is
  \<open>Assertion\<close>.
\<close>

type_synonym vstate = "(val \<Rightarrow> ty) \<times> val"

datatype rewrite = NoMatch | Assertion | NewOps "op list" vstate | Erase vstate val val

definition updateValue :: "vstate \<Rightarrow> val \<Rightarrow> ty \<Rightarrow> op list \<times> val \<times> vstate" where
  "updateValue vs oldValue t =
     (let types = fst vs; new = snd vs
      in if \<not> isInteger (types oldValue) \<or> \<not> isInteger t then ([], oldValue, vs)
         else if types oldValue = t then ([], oldValue, vs)
         else ([Op BitCastOp [oldValue] [new] []], new, (types(new := t), new + 1)))"

definition bitCastTypeInfer :: "vstate \<Rightarrow> val \<Rightarrow> val \<Rightarrow> rewrite" where
  "bitCastTypeInfer vs inp res =
     (let (types, new) = vs
      in if types res = AnyType then Erase vs res inp
         else if types inp \<noteq> AnyType then NoMatch
         else Erase (types(inp := types res), new) res inp)"

definition structUpdateTypeInfer :: "vstate \<Rightarrow> nat \<Rightarrow> val \<Rightarrow> val \<Rightarrow> val list \<Rightarrow> rewrite" where
  "structUpdateTypeInfer vs index inp newValue res = (case fst vs inp of
     StructType e elementTypes n \<Rightarrow>
       if index < length elementTypes then
         (let (casts, v, vs') = updateValue vs newValue (elementTypes ! index)
          in if v = newValue then NoMatch
             else NewOps (casts @ [Op (StructUpdateOp index) [inp, v] res []]) vs')
       else Assertion
   | _ \<Rightarrow> Assertion)"

definition updateTypeInfer :: "vstate \<Rightarrow> val \<Rightarrow> val \<Rightarrow> val \<Rightarrow> val list \<Rightarrow> rewrite" where
  "updateTypeInfer vs table key v res = (case fst vs table of
     TableType (Some keyType) (Some valueType) sz \<Rightarrow>
       (let (casts1, newKey, vs1) = updateValue vs key keyType;
            (casts2, newValue, vs2) = updateValue vs1 v valueType
        in if newKey = key \<and> newValue = v then NoMatch
           else NewOps (casts1 @ casts2 @ [Op UpdateOp [table, newKey, newValue] res []]) vs2)
   | _ \<Rightarrow> Assertion)"

definition lookupTypeInfer :: "vstate \<Rightarrow> val \<Rightarrow> val \<Rightarrow> val list \<Rightarrow> rewrite" where
  "lookupTypeInfer vs table key res = (case fst vs table of
     TableType (Some keyType) valueType sz \<Rightarrow>
       (let (casts, newKey, vs') = updateValue vs key keyType
        in if newKey = key then NoMatch
           else NewOps (casts @ [Op LookupOp [table, newKey] res []]) vs')
   | _ \<Rightarrow> Assertion)"

text \<open>The pattern for an operation, by its kind.\<close>

definition matchAndRewrite :: "vstate \<Rightarrow> op \<Rightarrow> rewrite" where
  "matchAndRewrite vs p = (case op_kind p of
     BitCastOp \<Rightarrow>
       (case (op_operands p, op_results p) of ([inp], [res]) \<Rightarrow> bitCastTypeInfer vs inp res | _ \<Rightarrow> NoMatch)
   | StructUpdateOp i \<Rightarrow>
       (case op_operands p of [inp, v] \<Rightarrow> structUpdateTypeInfer vs i inp v (op_results p) | _ \<Rightarrow> NoMatch)
   | UpdateOp \<Rightarrow>
       (case op_operands p of [table, key, v] \<Rightarrow> updateTypeInfer vs table key v (op_results p) | _ \<Rightarrow> NoMatch)
   | LookupOp \<Rightarrow>
       (case op_operands p of [table, key] \<Rightarrow> lookupTypeInfer vs table key (op_results p) | _ \<Rightarrow> NoMatch)
   | _ \<Rightarrow> NoMatch)"

text \<open>Replacing all uses of values.\<close>

fun replaceUses :: "(val \<Rightarrow> val) \<Rightarrow> op \<Rightarrow> op" where
  "replaceUses f (Op k xs rs regs) = Op k (map f xs) rs (map (map (replaceUses f)) regs)"

text \<open>
  Imports of one global in a function: the operations that stay and, for every later import, the
  value that replaces its result.
\<close>

definition importOf :: "op \<Rightarrow> (string \<times> val) option" where
  "importOf p = (case op_kind p of
     GlobalImportOp name \<Rightarrow> (case op_results p of [r] \<Rightarrow> Some (name, r) | _ \<Rightarrow> None)
   | _ \<Rightarrow> None)"

fun dedupScan :: "(string \<times> val) list \<Rightarrow> op list \<Rightarrow> op list \<times> (val \<times> val) list" where
  "dedupScan imports [] = ([], [])"
| "dedupScan imports (p # ps) = (case importOf p of
     None \<Rightarrow> (let (ops, es) = dedupScan imports ps in (p # ops, es))
   | Some (name, r) \<Rightarrow> (case map_of imports name of
       None \<Rightarrow> (let (ops, es) = dedupScan ((name, r) # imports) ps in (p # ops, es))
     | Some v \<Rightarrow> (let (ops, es) = dedupScan imports ps in (ops, (r, v) # es))))"

definition replacing :: "(val \<times> val) list \<Rightarrow> val \<Rightarrow> val" where
  "replacing es v = (case map_of es v of Some u \<Rightarrow> u | None \<Rightarrow> v)"

definition globalImportDedup :: "op list \<Rightarrow> op list option" where
  "globalImportDedup body =
     (let (ops, toErase) = dedupScan [] body
      in if toErase = [] then None else Some (map (replaceUses (replacing toErase)) ops))"

section \<open>Single-element structs\<close>

definition isTargetStruct :: "ty \<Rightarrow> bool" where
  "isTargetStruct t = (case t of StructType isEvent ts n \<Rightarrow> length ts = 1 \<and> \<not> isEvent | _ \<Rightarrow> False)"

fun convertType :: "ty \<Rightarrow> ty" where
  "convertType (StructType isEvent ts n) =
     (if \<not> isEvent \<and> length ts = 1 then hd ts else StructType isEvent (map convertType ts) n)"
| "convertType t = t"

end
