(* ===== verification/Ep2_Rewriting.thy ===== *)
theory Ep2_Rewriting
  imports Ep2_Dialect
begin

text \<open>
  The patterns as steps on the body of a function: places in nested regions, the operands an
  operation declares a type for, and the invariant of well-formed functions.
\<close>

section \<open>Steps of the rewriter\<close>

text \<open>A place in a body, possibly inside of regions.\<close>

datatype place = Here "op list" "op list"
  | Within "op list" opkind "val list" "val list" "op list list" place "op list list" "op list"

fun plug :: "place \<Rightarrow> op list \<Rightarrow> op list" where
  "plug (Here a b) ps = a @ ps @ b"
| "plug (Within a k xs rs ra C rb b) ps = a @ Op k xs rs (ra @ plug C ps # rb) # b"

record rw =
  valueTypes :: "val \<Rightarrow> ty"
  nextValue :: val
  body :: "op list"

text \<open>
  A step of the canonicalizer: one pattern at one place. Which pattern comes next is the choice
  of MLIR's driver; the relation leaves it open.
\<close>

inductive canon_step :: "rw \<Rightarrow> rw \<Rightarrow> bool" where
  dedup: "globalImportDedup (body s) = Some ops \<Longrightarrow> canon_step s (s\<lparr>body := ops\<rparr>)"
| new_ops: "body s = plug C [p] \<Longrightarrow> matchAndRewrite (valueTypes s, nextValue s) p = NewOps ps (types, new) \<Longrightarrow>
     canon_step s \<lparr>valueTypes = types, nextValue = new, body = plug C ps\<rparr>"
| erase: "body s = plug C [p] \<Longrightarrow> matchAndRewrite (valueTypes s, nextValue s) p = Erase (types, new) r x \<Longrightarrow>
     canon_step s \<lparr>valueTypes = types, nextValue = new,
       body = map (replaceUses (\<lambda>v. if v = r then x else v)) (plug C [])\<rparr>"

inductive_cases canon_stepE: "canon_step s s'"

text \<open>The operations of a body and of its regions, without the regions.\<close>

type_synonym flat_op = "opkind \<times> val list \<times> val list"

fun flat_of :: "op \<Rightarrow> flat_op list" where
  "flat_of (Op k xs rs regs) = (k, xs, rs) # concat (map (\<lambda>b. concat (map flat_of b)) regs)"

definition flat :: "op list \<Rightarrow> flat_op list" where
  "flat ops = concat (map flat_of ops)"

lemma flat_simps [simp]: "flat [] = []" "flat (p # ps) = flat_of p @ flat ps" "flat (ps @ qs) = flat ps @ flat qs"
  by (simp_all add: flat_def)

lemma flat_of_Op [simp]: "flat_of (Op k xs rs regs) = (k, xs, rs) # concat (map flat regs)"
  by (simp add: flat_def [abs_def])

declare flat_of.simps [simp del]

fun flat_before :: "place \<Rightarrow> flat_op list" where
  "flat_before (Here a b) = flat a"
| "flat_before (Within a k xs rs ra C rb b) = flat a @ (k, xs, rs) # concat (map flat ra) @ flat_before C"

fun flat_after :: "place \<Rightarrow> flat_op list" where
  "flat_after (Here a b) = flat b"
| "flat_after (Within a k xs rs ra C rb b) = flat_after C @ concat (map flat rb) @ flat b"

lemma flat_plug: "flat (plug C ps) = flat_before C @ flat ps @ flat_after C"
  by (induction C) simp_all

lemma flat_of_replaceUses: "flat_of (replaceUses f p) = map (\<lambda>(k, xs, rs). (k, map f xs, rs)) (flat_of p)"
proof (induction p)
  case (Op k xs rs regs)
  have "flat (map (replaceUses f) b) = map (\<lambda>(k, xs, rs). (k, map f xs, rs)) (flat b)" if "b \<in> set regs" for b
    using Op [OF that] by (simp add: flat_def map_concat cong: map_cong)
  then have "concat (map (flat \<circ> map (replaceUses f)) regs) = map (\<lambda>(k, xs, rs). (k, map f xs, rs)) (concat (map flat regs))"
    by (induction regs) auto
  then show ?case by simp
qed

lemma flat_replaceUses: "flat (map (replaceUses f) ops) = map (\<lambda>(k, xs, rs). (k, map f xs, rs)) (flat ops)"
  by (induction ops) (simp_all add: flat_of_replaceUses)

definition defined :: "op list \<Rightarrow> val list" where
  "defined ops = concat (map (snd \<circ> snd) (flat ops))"

lemma defined_simps [simp]: "defined [] = []" "defined (ps @ qs) = defined ps @ defined qs"
  "defined (p # ps) = op_results p @ concat (map defined (op_regions p)) @ defined ps"
proof -
  have "concat (map (snd \<circ> snd) (concat (map flat regs))) = concat (map defined regs)" for regs
    by (induction regs) (simp_all add: defined_def comp_def)
  then show "defined (p # ps) = op_results p @ concat (map defined (op_regions p)) @ defined ps"
    by (cases p) (simp add: defined_def)
qed (simp_all add: defined_def)

lemma defined_replaceUses: "defined (map (replaceUses f) ops) = defined ops"
  by (simp add: defined_def flat_replaceUses comp_def case_prod_beta)

section \<open>Dominance\<close>

lemma block_defs_subset: "block_defs ops \<subseteq> set (defined ops)"
  by (induction ops) (auto simp: block_defs_def)

text \<open>Values that stand for others: what was defined before maps into what is defined now.\<close>

lemma ssa_replaceUses:
  "ssa_op D p \<Longrightarrow> (\<And>v. v \<in> D \<Longrightarrow> f v \<in> E) \<Longrightarrow> E \<subseteq> D \<Longrightarrow> (\<And>v. v \<in> set (defined [p]) \<Longrightarrow> f v = v) \<Longrightarrow> ssa_op E (replaceUses f p)"
  "ssa_ops D ps \<Longrightarrow> (\<And>v. v \<in> D \<Longrightarrow> f v \<in> E) \<Longrightarrow> E \<subseteq> D \<Longrightarrow> (\<And>v. v \<in> set (defined ps) \<Longrightarrow> f v = v) \<Longrightarrow> ssa_ops E (map (replaceUses f) ps)"
  "ssa_regions D bs \<Longrightarrow> (\<And>v. v \<in> D \<Longrightarrow> f v \<in> E) \<Longrightarrow> E \<subseteq> D \<Longrightarrow> (\<And>v. v \<in> set (concat (map defined bs)) \<Longrightarrow> f v = v) \<Longrightarrow>
     ssa_regions E (map (map (replaceUses f)) bs)"
proof (induction D p and D ps and D bs arbitrary: E and E and E rule: ssa_op_ssa_ops_ssa_regions.induct)
  case (1 D k xs rs regs)
  then show ?case by auto
next
  case (3 D p ps)
  have res: "op_results (replaceUses f p) = op_results p"
    by (cases p) simp
  have f: "f v = v" if "v \<in> set (defined [p]) \<or> v \<in> set (defined ps)" for v
    using that by (intro 3(6)) auto
  have "ssa_op E (replaceUses f p)"
    using 3(3) f by (intro 3(1) 3(4,5)) auto
  moreover have "ssa_ops (E \<union> set (op_results p)) (map (replaceUses f) ps)"
    using 3(3,4,5) f by (intro 3(2)) auto
  ultimately show ?case
    by (simp add: res)
qed auto

lemma ssa_more:
  "ssa_op D p \<Longrightarrow> F \<inter> set (defined [p]) = {} \<Longrightarrow> ssa_op (D \<union> F) p"
  "ssa_ops D ps \<Longrightarrow> F \<inter> set (defined ps) = {} \<Longrightarrow> ssa_ops (D \<union> F) ps"
  "ssa_regions D bs \<Longrightarrow> F \<inter> set (concat (map defined bs)) = {} \<Longrightarrow> ssa_regions (D \<union> F) bs"
proof (induction D p and D ps and D bs rule: ssa_op_ssa_ops_ssa_regions.induct)
  case (3 D p ps)
  have "D \<union> F \<union> set (op_results p) = D \<union> set (op_results p) \<union> F"
    by auto
  moreover have "F \<inter> set (defined ps) = {}" "F \<inter> set (defined [p]) = {}"
    using 3(4) by auto
  ultimately show ?case
    using 3 by simp
qed auto

section \<open>Operands with a declared type\<close>

text \<open>
  The operands an operation declares a type for, with that type, and whether the declaration can be
  read from the type of its first operand.
\<close>

definition slots :: "(val \<Rightarrow> ty) \<Rightarrow> flat_op \<Rightarrow> (val \<times> ty) list" where
  "slots types q = (case q of (k, xs, rs) \<Rightarrow> (case k of
     StructUpdateOp i \<Rightarrow> (case xs of
         [inp, v] \<Rightarrow> (case types inp of StructType e ts n \<Rightarrow> if i < length ts then [(v, ts ! i)] else [] | _ \<Rightarrow> [])
       | _ \<Rightarrow> [])
   | UpdateOp \<Rightarrow> (case xs of
         [table, key, v] \<Rightarrow> (case types table of TableType (Some kt) (Some vt) sz \<Rightarrow> [(key, kt), (v, vt)] | _ \<Rightarrow> [])
       | _ \<Rightarrow> [])
   | LookupOp \<Rightarrow> (case xs of
         [table, key] \<Rightarrow> (case types table of TableType (Some kt) vt sz \<Rightarrow> [(key, kt)] | _ \<Rightarrow> [])
       | _ \<Rightarrow> [])
   | _ \<Rightarrow> []))"

definition access_ok :: "(val \<Rightarrow> ty) \<Rightarrow> flat_op \<Rightarrow> bool" where
  "access_ok types q = (case q of (k, xs, rs) \<Rightarrow> (case k of
     StructUpdateOp i \<Rightarrow> (case xs of
         [inp, v] \<Rightarrow> (case types inp of StructType e ts n \<Rightarrow> i < length ts | _ \<Rightarrow> False)
       | _ \<Rightarrow> True)
   | UpdateOp \<Rightarrow> (case xs of
         [table, key, v] \<Rightarrow> (case types table of TableType (Some kt) (Some vt) sz \<Rightarrow> True | _ \<Rightarrow> False)
       | _ \<Rightarrow> True)
   | LookupOp \<Rightarrow> (case xs of
         [table, key] \<Rightarrow> (case types table of TableType (Some kt) vt sz \<Rightarrow> True | _ \<Rightarrow> False)
       | _ \<Rightarrow> True)
   | _ \<Rightarrow> True))"

definition needs_cast :: "(val \<Rightarrow> ty) \<Rightarrow> val \<times> ty \<Rightarrow> bool" where
  "needs_cast types q \<longleftrightarrow> isInteger (types (fst q)) \<and> isInteger (snd q) \<and> types (fst q) \<noteq> snd q"

text \<open>Casting all of them, one after the other.\<close>

fun castAll :: "vstate \<Rightarrow> (val \<times> ty) list \<Rightarrow> op list \<times> val list \<times> vstate" where
  "castAll vs [] = ([], [], vs)"
| "castAll vs ((v, t) # sl) =
     (let (cs, v', vs1) = updateValue vs v t; (cs', vl, vs2) = castAll vs1 sl in (cs @ cs', v' # vl, vs2))"

lemma updateValue_eq:
  "updateValue (types, n) v t =
     (if needs_cast types (v, t) then ([Op BitCastOp [v] [n] []], n, (types(n := t), n + 1)) else ([], v, (types, n)))"
  by (auto simp: updateValue_def needs_cast_def Let_def)

definition flat1 :: "op \<Rightarrow> flat_op" where
  "flat1 p = (op_kind p, op_operands p, op_results p)"

lemma match_new_ops:
  assumes "matchAndRewrite vs p = NewOps ps vs'"
  shows "\<exists>x sl cs vl. op_operands p = x # map fst sl \<and> slots (fst vs) (flat1 p) = sl \<and> castAll vs sl = (cs, vl, vs') \<and>
    vl \<noteq> map fst sl \<and> ps = cs @ [Op (op_kind p) (x # vl) (op_results p) []] \<and> op_kind p \<noteq> BitCastOp \<and> (\<forall>n. op_kind p \<noteq> GlobalImportOp n)"
proof -
  obtain types n where vs: "vs = (types, n)" by (cases vs)
  from assms show ?thesis
    unfolding matchAndRewrite_def structUpdateTypeInfer_def updateTypeInfer_def lookupTypeInfer_def bitCastTypeInfer_def vs
    by (auto split: opkind.splits list.splits ty.splits option.splits prod.splits if_splits
        simp: slots_def flat1_def Let_def)
qed

lemma match_erase:
  assumes "matchAndRewrite (types, n) p = Erase (types', n') r x"
  shows "flat1 p = (BitCastOp, [x], [r]) \<and> n' = n \<and>
    (types r = AnyType \<and> types' = types \<or> types r \<noteq> AnyType \<and> types x = AnyType \<and> types' = types(x := types r))"
  using assms
  unfolding matchAndRewrite_def structUpdateTypeInfer_def updateTypeInfer_def lookupTypeInfer_def bitCastTypeInfer_def
  by (auto split: opkind.splits list.splits ty.splits option.splits prod.splits if_splits
      simp: flat1_def Let_def)

section \<open>The new casts\<close>

text \<open>An integer cast from an old value to a new one.\<close>

definition int_cast :: "(val \<Rightarrow> ty) \<Rightarrow> flat_op \<Rightarrow> bool" where
  "int_cast types q \<longleftrightarrow> (\<exists>v m. q = (BitCastOp, [v], [m]) \<and> isInteger (types v) \<and> isInteger (types m))"

lemma castAll_result:
  assumes "castAll (types, n) sl = (cs, vl, (types', n'))" and "\<forall>q \<in> set sl. fst q < n"
  shows "n \<le> n' \<and> (\<forall>v < n. types' v = types v) \<and> length vl = length sl \<and>
    (\<forall>q \<in> set (zip vl (map snd sl)). \<not> needs_cast types' q) \<and> set vl \<subseteq> fst ` set sl \<union> {n..<n'} \<and>
    (\<forall>q \<in> set (flat cs). int_cast types' q \<and> set (fst (snd q)) \<subseteq> fst ` set sl) \<and>
    defined cs = [n..<n'] \<and> (\<forall>c \<in> set cs. op_regions c = []) \<and>
    (vl \<noteq> map fst sl \<longrightarrow> (\<exists>q \<in> set sl. needs_cast types q))"
  using assms
proof (induction sl arbitrary: types n cs vl)
  case Nil
  then show ?case by simp
next
  case (Cons q sl)
  obtain v t where q: "q = (v, t)" by (cases q)
  show ?case
  proof (cases "needs_cast types (v, t)")
    case False
    then obtain vl' where r: "castAll (types, n) sl = (cs, vl', (types', n'))" "vl = v # vl'"
      using Cons.prems(1) by (auto simp: q updateValue_eq split: prod.splits)
    note IH = Cons.IH [OF r(1)]
    have "needs_cast types' (v, t) = needs_cast types (v, t)"
      using IH Cons.prems(2) by (simp add: needs_cast_def q)
    with IH Cons.prems(2) False r(2) show ?thesis
      by (auto simp: q)
  next
    case True
    define tys where "tys = types(n := t)"
    obtain cs' vl' where r: "castAll (tys, n + 1) sl = (cs', vl', (types', n'))"
      "cs = Op BitCastOp [v] [n] [] # cs'" "vl = n # vl'"
      using Cons.prems(1) True by (auto simp: q updateValue_eq tys_def split: prod.splits)
    have "\<forall>q \<in> set sl. fst q < n + 1"
      using Cons.prems(2) by auto
    note IH = Cons.IH [OF r(1) this]
    have ty: "types' n = t" "types' v = types v" "\<forall>u < n. types' u = types u"
      using IH Cons.prems(2) by (auto simp: tys_def q)
    have upt: "[n..<n'] = n # [n + 1..<n']"
      using IH by (simp add: upt_conv_Cons)
    have "\<not> needs_cast types' (n, t)" "int_cast types' (BitCastOp, [v], [n])"
      using True ty by (auto simp: needs_cast_def int_cast_def)
    with IH ty(3) True upt show ?thesis
      by (auto simp: q r(2,3))
  qed
qed

lemma ssa_casts:
  "(\<forall>c \<in> set cs. op_regions c = []) \<Longrightarrow> (\<forall>q \<in> set (flat cs). set (fst (snd q)) \<subseteq> D) \<Longrightarrow> distinct (defined cs) \<Longrightarrow>
    set (defined cs) \<inter> D = {} \<Longrightarrow> ssa_ops D cs"
proof (induction cs arbitrary: D)
  case (Cons c cs)
  obtain k xs rs where c: "c = Op k xs rs []"
    using Cons.prems(1) by (cases c) auto
  have "ssa_ops (D \<union> set rs) cs"
    using Cons.prems by (intro Cons.IH) (auto simp: c)
  with Cons.prems show ?case
    by (auto simp: c)
qed simp

lemma block_defs_casts: "(\<forall>c \<in> set cs. op_regions c = []) \<Longrightarrow> block_defs cs = set (defined cs)"
  by (induction cs) (auto simp: block_defs_def)

section \<open>Replacing operations in place\<close>

lemma ssa_regions_append [simp]: "ssa_regions D (as @ bs) \<longleftrightarrow> ssa_regions D as \<and> ssa_regions D bs"
  by (induction as) auto

lemma defined_plug: "set (defined (plug C ps)) = set (defined (plug C [])) \<union> set (defined ps)"
  by (induction C) auto

lemma ssa_plug:
  assumes "ssa_ops D (plug C [p])" and "F \<inter> set (defined (plug C [])) = {}"
    and "\<And>E. D \<subseteq> E \<Longrightarrow> ssa_op E p \<Longrightarrow> E \<subseteq> D \<union> set (defined (plug C [])) \<Longrightarrow> ssa_ops E ps"
    and "block_defs ps = set (op_results p) \<union> F"
  shows "ssa_ops D (plug C ps)"
  using assms
proof (induction C arbitrary: D)
  case (Here a b)
  let ?E = "D \<union> block_defs a"
  have a: "ssa_ops D a" "ssa_op ?E p" "ssa_ops (?E \<union> set (op_results p)) b"
    using Here.prems(1) by (auto simp: ssa_ops_append)
  have "ssa_ops ?E ps"
    using a(2) block_defs_subset [of a] by (intro Here.prems(3)) auto
  moreover have "ssa_ops (?E \<union> set (op_results p) \<union> F) b"
    by (rule ssa_more(2) [OF a(3)]) (use Here.prems(2) in auto)
  ultimately show ?case
    using a(1) Here.prems(4) by (simp add: ssa_ops_append Un_assoc)
next
  case (Within a k xs rs ra C rb b)
  let ?E = "D \<union> block_defs a"
  have a: "ssa_ops D a" "set xs \<subseteq> ?E" "ssa_regions ?E ra" "ssa_ops ?E (plug C [p])" "ssa_regions ?E rb"
    "distinct rs" "set rs \<inter> ?E = {}" "ssa_ops (?E \<union> set rs) b"
    using Within.prems(1) by (auto simp: ssa_ops_append)
  have "ssa_ops ?E (plug C ps)"
  proof (rule Within.IH [OF a(4) _ _ Within.prems(4)])
    show "F \<inter> set (defined (plug C [])) = {}"
      using Within.prems(2) by auto
    show "ssa_ops E ps" if "?E \<subseteq> E" "ssa_op E p" "E \<subseteq> ?E \<union> set (defined (plug C []))" for E
      using that block_defs_subset [of a] by (intro Within.prems(3)) auto
  qed
  with a show ?case
    by (simp add: ssa_ops_append)
qed

lemma plug_focus_all:
  "p \<in> set (walk_op q) \<Longrightarrow> p = q \<or> (\<exists>ra C rb. op_regions q = ra @ plug C [p] # rb)"
  "p \<in> set (walk_ops ops) \<Longrightarrow> \<exists>C. ops = plug C [p]"
  "p \<in> set (walk_regions bs) \<Longrightarrow> \<exists>ra C rb. bs = ra @ plug C [p] # rb"
proof (induction q and ops and bs rule: walk_op_walk_ops_walk_regions.induct)
  case (1 k xs rs regs)
  then show ?case by auto
next
  case (3 q ps)
  show ?case
  proof (cases "p \<in> set (walk_op q)")
    case True
    then consider "p = q" | ra C rb where "op_regions q = ra @ plug C [p] # rb"
      using 3(1) by blast
    then show ?thesis
    proof cases
      case 1
      then show ?thesis by (intro exI [of _ "Here [] ps"]) simp
    next
      case 2
      then show ?thesis
        by (cases q) (auto intro!: exI [of _ "Within [] (op_kind q) (op_operands q) (op_results q) ra C rb ps"])
    qed
  next
    case False
    then obtain C where C: "ps = plug C [p]"
      using 3 by auto
    show ?thesis
    proof (cases C)
      case (Here a b)
      then show ?thesis using C by (intro exI [of _ "Here (q # a) b"]) simp
    next
      case (Within a k xs rs ra C' rb b)
      then show ?thesis using C by (intro exI [of _ "Within (q # a) k xs rs ra C' rb b"]) simp
    qed
  qed
next
  case (5 b bs)
  then show ?case
    by (auto intro: exI [of _ "[]"]) (metis append_Cons)
qed auto

section \<open>The invariant\<close>

text \<open>
  A well-formed function: single assignment with dominance over the arguments \<open>D\<close>, values below the
  next unused one, declarations that can be read, and imports with the type of their global.
\<close>

definition import_ok :: "(string \<Rightarrow> ty) \<Rightarrow> (val \<Rightarrow> ty) \<Rightarrow> flat_op \<Rightarrow> bool" where
  "import_ok gt types q = (case q of (k, xs, rs) \<Rightarrow> (case k of
     GlobalImportOp n \<Rightarrow> (case rs of [r] \<Rightarrow> types r = gt n \<and> gt n \<noteq> AnyType | _ \<Rightarrow> False)
   | _ \<Rightarrow> True))"

definition op_ok :: "(string \<Rightarrow> ty) \<Rightarrow> (val \<Rightarrow> ty) \<Rightarrow> val \<Rightarrow> flat_op \<Rightarrow> bool" where
  "op_ok gt types n q \<longleftrightarrow>
     set (fst (snd q)) \<subseteq> {..<n} \<and> set (snd (snd q)) \<subseteq> {..<n} \<and> access_ok types q \<and> import_ok gt types q"

definition rw_ok :: "(string \<Rightarrow> ty) \<Rightarrow> val set \<Rightarrow> rw \<Rightarrow> bool" where
  "rw_ok gt D s \<longleftrightarrow>
     ssa_ops D (body s) \<and> distinct (defined (body s)) \<and> set (defined (body s)) \<inter> D = {} \<and> D \<subseteq> {..<nextValue s} \<and>
     (\<forall>q \<in> set (flat (body s)). op_ok gt (valueTypes s) (nextValue s) q)"

lemma defined_plug_list:
  "\<exists>as bs. \<forall>ps. defined (plug C ps) = as @ defined ps @ bs"
  by (simp add: defined_def flat_plug) blast

lemma defined_plug_distinct:
  assumes "distinct (defined (plug C [p]))"
  shows "distinct (defined (plug C []))" and "set (op_results p) \<inter> set (defined (plug C [])) = {}"
    and "distinct (defined ps) \<Longrightarrow> set (defined ps) \<inter> set (defined (plug C [])) = {} \<Longrightarrow> distinct (defined (plug C ps))"
    and "distinct (op_results p)"
proof -
  obtain as bs where "\<forall>ps. defined (plug C ps) = as @ defined ps @ bs"
    using defined_plug_list by blast
  with assms show "distinct (defined (plug C []))" "set (op_results p) \<inter> set (defined (plug C [])) = {}"
    "distinct (defined ps) \<Longrightarrow> set (defined ps) \<inter> set (defined (plug C [])) = {} \<Longrightarrow> distinct (defined (plug C ps))"
    "distinct (op_results p)"
    by auto
qed

lemma block_defs_replaceUses: "block_defs (map (replaceUses f) ops) = block_defs ops"
proof -
  have "op_results (replaceUses f p) = op_results p" for p
    by (cases p) simp
  then show ?thesis by (simp add: block_defs_def)
qed

lemma ssa_erase:
  assumes "ssa_ops D (plug C [p])" and "op_operands p = [x]" and "op_results p = [r]"
    and "r \<notin> D" and "r \<notin> set (defined (plug C []))"
  shows "ssa_ops D (map (replaceUses (\<lambda>v. if v = r then x else v)) (plug C []))"
  using assms(1,4,5)
proof (induction C arbitrary: D)
  case (Here a b)
  let ?f = "\<lambda>v. if v = r then x else v"
  let ?E = "D \<union> block_defs a"
  have a: "ssa_ops D a" "ssa_op ?E p" "ssa_ops (?E \<union> {r}) b"
    using Here.prems(1) assms(3) by (auto simp: ssa_ops_append)
  then have "x \<in> ?E"
    using assms(2) by (cases p) auto
  then have "ssa_ops ?E (map (replaceUses ?f) b)"
    using Here.prems(3) by (intro ssa_replaceUses(2) [OF a(3)]) auto
  moreover have "ssa_ops D (map (replaceUses ?f) a)"
    using Here.prems(2,3) by (intro ssa_replaceUses(2) [OF a(1)]) auto
  ultimately show ?case
    by (simp add: ssa_ops_append block_defs_replaceUses)
next
  case (Within a k xs rs ra C rb b)
  let ?f = "\<lambda>v. if v = r then x else v"
  let ?E = "D \<union> block_defs a"
  have a: "ssa_ops D a" "set xs \<subseteq> ?E" "ssa_regions ?E ra" "ssa_ops ?E (plug C [p])" "ssa_regions ?E rb"
    "distinct rs" "set rs \<inter> ?E = {}" "ssa_ops (?E \<union> set rs) b"
    using Within.prems(1) by (auto simp: ssa_ops_append)
  have r: "r \<notin> ?E" "r \<notin> ?E \<union> set rs"
    using Within.prems(2,3) block_defs_subset [of a] by auto
  have "ssa_ops ?E (map (replaceUses ?f) (plug C []))"
    using a(4) r(1) Within.prems(3) by (intro Within.IH) auto
  moreover have "ssa_ops D (map (replaceUses ?f) a)"
    using Within.prems(2,3) by (intro ssa_replaceUses(2) [OF a(1)]) auto
  moreover have "ssa_regions ?E (map (map (replaceUses ?f)) ra)"
    using r(1) Within.prems(3) by (intro ssa_replaceUses(3) [OF a(3)]) auto
  moreover have "ssa_regions ?E (map (map (replaceUses ?f)) rb)"
    using r(1) Within.prems(3) by (intro ssa_replaceUses(3) [OF a(5)]) auto
  moreover have "ssa_ops (?E \<union> set rs) (map (replaceUses ?f) b)"
    using r(2) Within.prems(3) by (intro ssa_replaceUses(2) [OF a(8)]) auto
  moreover have "set (map ?f xs) \<subseteq> ?E"
    using a(2) r(1) by auto
  ultimately show ?case
    using a(6,7) by (simp add: ssa_ops_append block_defs_replaceUses Un_assoc)
qed

text \<open>What an operation declares depends on the types of values that have one.\<close>

lemma declared_cong:
  assumes "\<And>v. v \<in> set xs \<Longrightarrow> types v \<noteq> AnyType \<Longrightarrow> types' (f v) = types v"
    and "access_ok types (k, xs, rs)"
  shows "access_ok types' (k, map f xs, rs)" and "map snd (slots types' (k, map f xs, rs)) = map snd (slots types (k, xs, rs))"
    and "map fst (slots types' (k, map f xs, rs)) = map f (map fst (slots types (k, xs, rs)))"
proof -
  have "types' (f v) = types v" if "v \<in> set xs" "types v = StructType e ts n \<or> types v = TableType kt vt sz" for v e ts n kt vt sz
    using assms(1) that by fastforce
  then have s: "v \<in> set xs \<Longrightarrow> types v = StructType e ts n \<Longrightarrow> types' (f v) = StructType e ts n"
    and t: "v \<in> set xs \<Longrightarrow> types v = TableType kt vt sz \<Longrightarrow> types' (f v) = TableType kt vt sz" for v e ts n kt vt sz
    by metis+
  show "access_ok types' (k, map f xs, rs)" "map snd (slots types' (k, map f xs, rs)) = map snd (slots types (k, xs, rs))"
    "map fst (slots types' (k, map f xs, rs)) = map f (map fst (slots types (k, xs, rs)))"
    using assms(2) s t unfolding access_ok_def slots_def
    by (auto split: opkind.splits list.splits ty.splits option.splits)
qed

end
