(* ===== verification/Ep2_Rewriting_Props.thy ===== *)
theory Ep2_Rewriting_Props
  imports Ep2_Rewriting
begin

text \<open>
  Every step keeps the invariant, every sequence of steps ends, and what the end of one looks like.
\<close>

section \<open>New operations keep the invariant\<close>

lemma slots_replaced:
  assumes "slots types (k, x # map fst sl, rs) = sl" and "sl \<noteq> []" and "length vl = length sl" and "types' x = types x"
  shows "slots types' (k, x # vl, rs) = zip vl (map snd sl)" and "access_ok types' (k, x # vl, rs)"
  using assms unfolding slots_def access_ok_def
  by (auto split: opkind.splits list.splits ty.splits option.splits if_splits simp: length_Suc_conv)

lemma op_ok_more:
  assumes "op_ok gt types n q" and "\<forall>v < n. types' v = types v" and "n \<le> n'"
  shows "op_ok gt types' n' q" and "slots types' q = slots types q" and "\<forall>s \<in> set (slots types q). fst s < n"
proof -
  obtain k xs rs where q: "q = (k, xs, rs)" by (metis prod_cases3)
  have b: "set xs \<subseteq> {..<n}" "set rs \<subseteq> {..<n}" "access_ok types q" "import_ok gt types q"
    using assms(1) by (auto simp: op_ok_def q)
  have same: "types' v = types v" if "v \<in> set xs \<or> v \<in> set rs" for v
    using assms(2) b that by auto
  note d = declared_cong [of xs types types' "\<lambda>v. v" k rs, unfolded list.map_ident]
  have "access_ok types' q"
    using d(1) same b(3) by (simp add: q)
  moreover have "import_ok gt types' q"
    using b(4) same by (auto simp: import_ok_def q split: opkind.splits list.splits)
  ultimately show "op_ok gt types' n' q"
    using b assms(3) by (auto simp: op_ok_def q)
  have "map fst (slots types' q) = map fst (slots types q)" "map snd (slots types' q) = map snd (slots types q)"
    using d(2,3) same b(3) by (simp_all add: q)
  then show "slots types' q = slots types q"
    by (metis zip_map_fst_snd)
  have "fst ` set (slots types q) \<subseteq> set xs"
    unfolding slots_def q by (auto split: opkind.splits list.splits ty.splits option.splits if_splits)
  then show "\<forall>s \<in> set (slots types q). fst s < n"
    using b(1) by auto
qed

text \<open>What a step that creates casts does, in one place.\<close>

definition recast :: "(val \<Rightarrow> ty) \<Rightarrow> val \<Rightarrow> op \<Rightarrow> op list \<Rightarrow> (val \<Rightarrow> ty) \<Rightarrow> val \<Rightarrow> bool" where
  "recast types n p ps types' n' \<longleftrightarrow> n \<le> n' \<and> (\<forall>v < n. types' v = types v) \<and>
     (\<exists>cs xs. ps = cs @ [Op (op_kind p) xs (op_results p) []] \<and>
        (\<forall>c \<in> set cs. op_regions c = []) \<and> defined cs = [n..<n'] \<and>
        (\<forall>q \<in> set (flat cs). int_cast types' q \<and> set (fst (snd q)) \<subseteq> set (op_operands p)) \<and>
        set xs \<subseteq> set (op_operands p) \<union> {n..<n'} \<and> access_ok types' (op_kind p, xs, op_results p) \<and>
        (\<forall>s \<in> set (slots types' (op_kind p, xs, op_results p)). \<not> needs_cast types' s)) \<and>
     (\<exists>s \<in> set (slots types (flat1 p)). needs_cast types s) \<and>
     op_kind p \<noteq> BitCastOp \<and> (\<forall>m. op_kind p \<noteq> GlobalImportOp m)"

lemma match_recast:
  assumes "matchAndRewrite (types, n) p = NewOps ps (types', n')" and "set (op_operands p) \<subseteq> {..<n}"
  shows "recast types n p ps types' n'"
proof -
  obtain x sl cs vl where m: "op_operands p = x # map fst sl" "slots types (flat1 p) = sl"
    "castAll (types, n) sl = (cs, vl, (types', n'))" "vl \<noteq> map fst sl"
    "ps = cs @ [Op (op_kind p) (x # vl) (op_results p) []]" "op_kind p \<noteq> BitCastOp" "\<forall>m. op_kind p \<noteq> GlobalImportOp m"
    using match_new_ops [OF assms(1)] by auto
  have "\<forall>q \<in> set sl. fst q < n" "x < n"
    using assms(2) m(1) by auto
  note c = castAll_result [OF m(3) this(1)] \<open>x < n\<close>
  have ne: "sl \<noteq> []" using c(1) m(4) by auto
  have "slots types (op_kind p, x # map fst sl, op_results p) = sl"
    using m(1,2) by (simp add: flat1_def)
  note new = slots_replaced [OF this ne, of vl types']
  have "n \<le> n'" "\<forall>v < n. types' v = types v" "length vl = length sl" "\<forall>q \<in> set (zip vl (map snd sl)). \<not> needs_cast types' q"
    "set vl \<subseteq> fst ` set sl \<union> {n..<n'}" "\<forall>q \<in> set (flat cs). int_cast types' q \<and> set (fst (snd q)) \<subseteq> fst ` set sl"
    "defined cs = [n..<n']" "\<forall>c \<in> set cs. op_regions c = []" "\<exists>q \<in> set sl. needs_cast types q"
    using c(1) m(4) by blast+
  moreover from this have "slots types' (op_kind p, x # vl, op_results p) = zip vl (map snd sl)"
    "access_ok types' (op_kind p, x # vl, op_results p)"
    using new c(2) by auto
  ultimately show ?thesis
    unfolding recast_def m(2) using m(1,5,6,7)
    by (intro conjI exI [of _ cs] exI [of _ "x # vl"]) auto
qed

lemma recast_ok:
  assumes "recast types n p ps types' n'" and "rw_ok gt D s" and "body s = plug C [p]"
    and "valueTypes s = types" and "nextValue s = n"
  shows "rw_ok gt D \<lparr>valueTypes = types', nextValue = n', body = plug C ps\<rparr>"
proof -
  obtain cs xs where r: "ps = cs @ [Op (op_kind p) xs (op_results p) []]" "\<forall>c \<in> set cs. op_regions c = []"
    "defined cs = [n..<n']" "\<forall>q \<in> set (flat cs). int_cast types' q \<and> set (fst (snd q)) \<subseteq> set (op_operands p)"
    "set xs \<subseteq> set (op_operands p) \<union> {n..<n'}" "access_ok types' (op_kind p, xs, op_results p)"
    and n: "n \<le> n'" "\<forall>v < n. types' v = types v" "\<forall>m. op_kind p \<noteq> GlobalImportOp m"
    using assms(1) by (auto simp: recast_def)
  have s: "ssa_ops D (plug C [p])" "distinct (defined (plug C [p]))" "set (defined (plug C [p])) \<inter> D = {}" "D \<subseteq> {..<n}"
    and q: "\<forall>q \<in> set (flat (plug C [p])). op_ok gt types n q"
    using assms(2-5) by (auto simp: rw_ok_def)
  have "flat1 p \<in> set (flat (plug C [p]))"
    by (cases p) (simp add: flat_plug flat1_def)
  with q have "op_ok gt types n (flat1 p)" by blast
  then have p: "set (op_operands p) \<subseteq> {..<n}" "set (op_results p) \<subseteq> {..<n}"
    by (simp_all add: op_ok_def flat1_def)
  have less: "set (defined (plug C [p])) \<subseteq> {..<n}"
    using q by (fastforce simp: defined_def op_ok_def)
  have new: "defined ps = [n..<n'] @ op_results p"
    by (simp add: r(1,3))
  have "ssa_ops D (plug C ps)"
  proof (rule ssa_plug [OF s(1), where F = "{n..<n'}"])
    show "{n..<n'} \<inter> set (defined (plug C [])) = {}"
      using less defined_plug [of C "[p]"] by auto
    show "block_defs ps = set (op_results p) \<union> {n..<n'}"
      using block_defs_casts [OF r(2)] r(3) by (auto simp: r(1) block_defs_def)
    fix E assume E: "D \<subseteq> E" "ssa_op E p" "E \<subseteq> D \<union> set (defined (plug C []))"
    then have "E \<subseteq> {..<n}" "set (op_operands p) \<subseteq> E" "distinct (op_results p)" "set (op_results p) \<inter> E = {}"
      using s(4) less defined_plug [of C "[p]"] by (cases p; auto)+
    moreover from this have "\<forall>q \<in> set (flat cs). set (fst (snd q)) \<subseteq> E"
      using r(4) by blast
    moreover have "{n..<n'} \<inter> E = {}"
      using \<open>E \<subseteq> {..<n}\<close> by auto
    ultimately have "ssa_ops E cs"
      by (intro ssa_casts [OF r(2)]) (simp_all add: r(3))
    with \<open>set (op_operands p) \<subseteq> E\<close> \<open>distinct (op_results p)\<close> \<open>set (op_results p) \<inter> E = {}\<close>
    show "ssa_ops E ps"
      using r(5) p(2) block_defs_casts [OF r(2)] by (fastforce simp: r(1,3) ssa_ops_append)
  qed
  moreover have "distinct (defined (plug C ps))"
    using s(2) p(2) less defined_plug_distinct(1,2,4) [OF s(2)] defined_plug [of C "[p]"]
    by (intro defined_plug_distinct(3) [OF s(2)]) (auto simp: new)
  moreover have "set (defined (plug C ps)) \<inter> D = {}"
    using s(3,4) defined_plug [of C ps] defined_plug [of C "[p]"] by (auto simp: new)
  moreover have "op_ok gt types' n' q" if mem: "q \<in> set (flat (plug C ps))" for q
  proof -
    consider "q \<in> set (flat (plug C [p]))" | "q \<in> set (flat cs)" | "q = (op_kind p, xs, op_results p)"
      using mem by (auto simp: flat_plug r(1))
    then show ?thesis
    proof cases
      case 1
      then show ?thesis using op_ok_more(1) [of gt types n q types' n'] q n by blast
    next
      case 2
      then have "set (snd (snd q)) \<subseteq> set (defined cs)"
        by (auto simp: defined_def)
      with 2 r(3,4) p(1) n(1) show ?thesis
        by (force simp: op_ok_def int_cast_def access_ok_def import_ok_def)
    next
      case 3
      have "set xs \<subseteq> {..<n'}" "set (op_results p) \<subseteq> {..<n'}"
        using r(5) p n(1) by force+
      moreover have "import_ok gt types' q"
        using n(3) unfolding 3 import_ok_def by (cases "op_kind p") simp_all
      ultimately show ?thesis
        using r(6) by (simp add: op_ok_def 3)
    qed
  qed
  ultimately show ?thesis
    using s(4) n(1) by (auto simp: rw_ok_def)
qed

section \<open>Replaced values keep the invariant\<close>

lemma op_ok_replaced:
  assumes "op_ok gt types n (k, xs, rs)" and "\<And>v. v \<in> set xs \<Longrightarrow> types v \<noteq> AnyType \<Longrightarrow> types' (f v) = types v"
    and "\<And>v. v < n \<Longrightarrow> f v < n" and "\<And>v. types v \<noteq> AnyType \<Longrightarrow> types' v = types v"
  shows "op_ok gt types' n (k, map f xs, rs)"
proof -
  have "import_ok gt types' (k, map f xs, rs)"
    using assms(1,4) by (auto simp: op_ok_def import_ok_def split: opkind.splits list.splits)
  then show ?thesis
    using assms(1,3) declared_cong(1) [of xs types types' f k rs] assms(2) by (auto simp: op_ok_def)
qed

lemma erase_ok:
  assumes "rw_ok gt D s" and "body s = plug C [p]"
    and "matchAndRewrite (valueTypes s, nextValue s) p = Erase (types', n') r x"
  shows "rw_ok gt D \<lparr>valueTypes = types', nextValue = n', body = map (replaceUses (\<lambda>v. if v = r then x else v)) (plug C [])\<rparr>"
proof -
  define types where "types = valueTypes s"
  define n where "n = nextValue s"
  let ?f = "\<lambda>v. if v = r then x else v"
  have m: "op_kind p = BitCastOp" "op_operands p = [x]" "op_results p = [r]" "n' = n"
    and t: "types r = AnyType \<and> types' = types \<or> types r \<noteq> AnyType \<and> types x = AnyType \<and> types' = types(x := types r)"
    using match_erase [OF assms(3)] by (auto simp: flat1_def types_def n_def)
  have s: "ssa_ops D (plug C [p])" "distinct (defined (plug C [p]))" "set (defined (plug C [p])) \<inter> D = {}" "D \<subseteq> {..<n}"
    and q: "\<forall>q \<in> set (flat (plug C [p])). op_ok gt types n q"
    using assms(1,2) by (auto simp: rw_ok_def types_def n_def)
  have "flat1 p \<in> set (flat (plug C [p]))"
    by (cases p) (simp add: flat_plug flat1_def)
  with q have "op_ok gt types n (flat1 p)" by blast
  then have x: "x < n"
    by (simp add: op_ok_def flat1_def m)
  have r: "r \<notin> D" "r \<notin> set (defined (plug C []))"
    using s(3) defined_plug [of C "[p]"] defined_plug_distinct(2) [OF s(2)] m(3) by auto
  have "op_ok gt types' n q" if mem: "q \<in> set (flat (map (replaceUses ?f) (plug C [])))" for q
  proof -
    obtain k xs rs where k: "(k, xs, rs) \<in> set (flat (plug C []))" "q = (k, map ?f xs, rs)"
      using mem by (auto simp: flat_replaceUses)
    then have "op_ok gt types n (k, xs, rs)"
      using q by (auto simp: flat_plug)
    then show ?thesis
      unfolding k(2)
    proof (rule op_ok_replaced)
      show "types v \<noteq> AnyType \<Longrightarrow> types' (?f v) = types v" "types v \<noteq> AnyType \<Longrightarrow> types' v = types v" "v < n \<Longrightarrow> ?f v < n" for v
        using t x by auto
    qed
  qed
  then show ?thesis
    using ssa_erase [OF s(1) m(2,3) r] s(3,4) defined_plug_distinct(1) [OF s(2)] defined_plug [of C "[p]"]
    by (auto simp: rw_ok_def defined_replaceUses m(4))
qed

section \<open>Imports\<close>

lemma importOf_results: "importOf p = Some (name, r) \<Longrightarrow> op_results p = [r] \<and> op_kind p = GlobalImportOp name"
  by (auto simp: importOf_def split: opkind.splits list.splits)

text \<open>One step of the scan: the first operation goes, or stays.\<close>

lemma dedupScan_Cons:
  assumes "dedupScan im (p # ps) = (ops, es)"
  obtains (dup) name r v es' where "importOf p = Some (name, r)" "map_of im name = Some v"
      "dedupScan im ps = (ops, es')" "es = (r, v) # es'"
    | (keep) im' ops' where "dedupScan im' ps = (ops', es)" "ops = p # ops'"
      "im' = im \<and> importOf p = None \<or> (\<exists>q. importOf p = Some q \<and> im' = q # im \<and> map_of im (fst q) = None)"
  using assms by (auto split: prod.splits option.splits)

lemma dedupScan_sub:
  "dedupScan im ps = (ops, es) \<Longrightarrow> set (flat ops) \<subseteq> set (flat ps) \<and> set (defined ops) \<subseteq> set (defined ps) \<and>
     fst ` set es \<subseteq> set (defined ps) \<and>
     (distinct (defined ps) \<longrightarrow> distinct (defined ops) \<and> distinct (map fst es) \<and> fst ` set es \<inter> set (defined ops) = {})"
proof (induction ps arbitrary: im ops es)
  case (Cons p ps)
  from Cons.prems show ?case
  proof (cases rule: dedupScan_Cons)
    case (dup name r v es')
    with Cons.IH [OF dup(3)] importOf_results [OF dup(1)] show ?thesis
      by auto
  next
    case (keep im' ops')
    obtain dp where dp: "\<And>qs. defined (p # qs) = dp @ defined qs"
      by simp
    show ?thesis
      using Cons.IH [OF keep(1)] unfolding keep(2) dp by auto
  qed
qed simp

lemma dedupScan_ssa:
  "dedupScan im ps = (ops, es) \<Longrightarrow> ssa_ops D ps \<Longrightarrow> E \<subseteq> D \<Longrightarrow> (\<forall>v \<in> D. f v \<in> E) \<Longrightarrow> snd ` set im \<subseteq> E \<Longrightarrow>
     (\<forall>(r, v) \<in> set es. f r = v) \<Longrightarrow> (\<forall>v \<in> set (defined ops). f v = v) \<Longrightarrow> ssa_ops E (map (replaceUses f) ops)"
proof (induction ps arbitrary: im ops es D E)
  case (Cons p ps)
  from Cons.prems(1) show ?case
  proof (cases rule: dedupScan_Cons)
    case (dup name r v es')
    then have "v \<in> E"
      using Cons.prems(5) map_of_SomeD [OF dup(2)] by force
    then show ?thesis
      using dup Cons.prems importOf_results [OF dup(1)] by (intro Cons.IH [OF dup(3), of "D \<union> {r}"]) auto
  next
    case (keep im' ops')
    have f: "\<forall>v \<in> set (defined [p]). f v = v" "\<forall>v \<in> set (defined ops'). f v = v"
      using Cons.prems(7) keep(2) by auto
    have "op_results (replaceUses f p) = op_results p"
      by (cases p) simp
    moreover have "ssa_op E (replaceUses f p)"
      using Cons.prems(2-4) f(1) by (intro ssa_replaceUses(1) [of D p f E]) auto
    moreover have "ssa_ops (E \<union> set (op_results p)) (map (replaceUses f) ops')"
    proof (rule Cons.IH [OF keep(1)])
      show "ssa_ops (D \<union> set (op_results p)) ps"
        using Cons.prems(2) by simp
      show "snd ` set im' \<subseteq> E \<union> set (op_results p)"
        using keep(3) Cons.prems(5) importOf_results by fastforce
    qed (use Cons.prems f keep in auto)
    ultimately show ?thesis
      by (simp add: keep(2))
  qed
qed simp

lemma dedupScan_types:
  "dedupScan im ps = (ops, es) \<Longrightarrow> (\<forall>(name, v) \<in> set im. types v = gt name \<and> v < n) \<Longrightarrow>
     (\<forall>q \<in> set (flat ps). op_ok gt types n q) \<Longrightarrow> (\<forall>(r, v) \<in> set es. types r = types v \<and> v < n)"
proof (induction ps arbitrary: im ops es)
  case (Cons p ps)
  have p: "types r = gt name \<and> r < n" if "importOf p = Some (name, r)" for name r
  proof -
    have "op_ok gt types n (flat1 p)"
      using Cons.prems(3) by (cases p) (auto simp: flat1_def)
    then show ?thesis
      using importOf_results [OF that] by (simp add: op_ok_def import_ok_def flat1_def)
  qed
  from Cons.prems(1) show ?case
  proof (cases rule: dedupScan_Cons)
    case (dup name r v es')
    then have "types v = gt name \<and> v < n"
      using Cons.prems(2) map_of_SomeD [OF dup(2)] by auto
    with p [OF dup(1)] Cons.IH [OF dup(3) Cons.prems(2)] Cons.prems(3) dup(4) show ?thesis
      by simp
  next
    case (keep im' ops')
    then have "\<forall>(name, v) \<in> set im'. types v = gt name \<and> v < n"
      using Cons.prems(2) p by auto
    then show ?thesis
      using Cons.IH [OF keep(1)] Cons.prems(3) by simp
  qed
qed simp

lemma dedup_ok:
  assumes "rw_ok gt D s" and "globalImportDedup (body s) = Some ops"
  shows "rw_ok gt D (s\<lparr>body := ops\<rparr>)"
proof -
  obtain qs es where d: "dedupScan [] (body s) = (qs, es)" and ops: "ops = map (replaceUses (replacing es)) qs"
    using assms(2) by (auto simp: globalImportDedup_def split: prod.splits if_splits)
  define f where "f = replacing es"
  have s: "ssa_ops D (body s)" "distinct (defined (body s))" "set (defined (body s)) \<inter> D = {}" "D \<subseteq> {..<nextValue s}"
    and q: "\<forall>q \<in> set (flat (body s)). op_ok gt (valueTypes s) (nextValue s) q"
    using assms(1) by (auto simp: rw_ok_def)
  note sub = dedupScan_sub [OF d]
  have es: "\<forall>(r, v) \<in> set es. valueTypes s r = valueTypes s v \<and> v < nextValue s"
    using dedupScan_types [OF d, of "valueTypes s" gt "nextValue s"] q by simp
  have fr: "\<forall>(r, v) \<in> set es. f r = v"
    using sub s(2) by (auto simp: f_def replacing_def)
  have fv: "f v = v" if "v \<notin> fst ` set es" for v
    using that by (force simp: f_def replacing_def split: option.splits dest: map_of_SomeD)
  have f: "valueTypes s (f v) = valueTypes s v" "v < nextValue s \<Longrightarrow> f v < nextValue s" for v
    using es fr fv [of v] by (cases "v \<in> fst ` set es"; force)+
  have out: "v \<notin> fst ` set es" if "v \<in> D \<or> v \<in> set (defined qs)" for v
    using that sub s(2,3) by blast
  have "ssa_ops D ops"
    unfolding ops f_def [symmetric]
  proof (rule dedupScan_ssa [OF d s(1) _ _ _ fr])
    show "\<forall>v \<in> D. f v \<in> D" "\<forall>v \<in> set (defined qs). f v = v"
      using fv out by auto
  qed simp_all
  moreover have "op_ok gt (valueTypes s) (nextValue s) p" if mem: "p \<in> set (flat ops)" for p
  proof -
    obtain k xs rs where k: "(k, xs, rs) \<in> set (flat (body s))" "p = (k, map f xs, rs)"
      using mem sub by (auto simp: ops f_def [symmetric] flat_replaceUses)
    then have "op_ok gt (valueTypes s) (nextValue s) (k, xs, rs)"
      using q by blast
    then show ?thesis
      unfolding k(2) by (rule op_ok_replaced) (simp_all add: f)
  qed
  ultimately show ?thesis
    using s sub by (auto simp: rw_ok_def ops defined_replaceUses)
qed

lemma flat1_plug: "flat1 p \<in> set (flat (plug C [p]))"
  by (cases p) (simp add: flat_plug flat1_def)

lemma step_recast:
  assumes "rw_ok gt D s" and "body s = plug C [p]"
    and "matchAndRewrite (valueTypes s, nextValue s) p = NewOps ps (types, n)"
  shows "recast (valueTypes s) (nextValue s) p ps types n"
proof (rule match_recast [OF assms(3)])
  have "op_ok gt (valueTypes s) (nextValue s) (flat1 p)"
    using assms(1,2) flat1_plug [of p C] by (simp add: rw_ok_def)
  then show "set (op_operands p) \<subseteq> {..<nextValue s}"
    by (simp add: op_ok_def flat1_def)
qed

lemma canon_step_ok: "canon_step s s' \<Longrightarrow> rw_ok gt D s \<Longrightarrow> rw_ok gt D s'"
proof (induction rule: canon_step.induct)
  case (new_ops s C p ps types new)
  then show ?case
    using recast_ok [OF step_recast] by blast
qed (simp_all add: dedup_ok erase_ok)

section \<open>Termination\<close>

definition is_import :: "flat_op \<Rightarrow> bool" where
  "is_import q = (case fst q of GlobalImportOp n \<Rightarrow> True | _ \<Rightarrow> False)"

text \<open>A cast from or to a value of unknown type.\<close>

definition any_cast :: "(val \<Rightarrow> ty) \<Rightarrow> flat_op \<Rightarrow> bool" where
  "any_cast types q = (case q of (BitCastOp, [x], [r]) \<Rightarrow> types x = AnyType \<or> types r = AnyType | _ \<Rightarrow> False)"

definition mismatches :: "(val \<Rightarrow> ty) \<Rightarrow> flat_op \<Rightarrow> nat" where
  "mismatches types q = length (filter (needs_cast types) (slots types q))"

definition rank :: "rw \<Rightarrow> nat \<times> nat \<times> nat" where
  "rank s = (length (filter is_import (flat (body s))), length (filter (any_cast (valueTypes s)) (flat (body s))),
     sum_list (map (mismatches (valueTypes s)) (flat (body s))))"

abbreviation lex3 :: "((nat \<times> nat \<times> nat) \<times> (nat \<times> nat \<times> nat)) set" where
  "lex3 \<equiv> less_than <*lex*> less_than <*lex*> less_than"

lemma any_cast_eq: "any_cast types (k, xs, rs) \<longleftrightarrow> k = BitCastOp \<and> (\<exists>x r. xs = [x] \<and> rs = [r] \<and> (types x = AnyType \<or> types r = AnyType))"
  by (auto simp: any_cast_def split: opkind.splits list.splits)

lemma filter_map_le: "(\<And>q. q \<in> set qs \<Longrightarrow> P (f q) \<Longrightarrow> Q q) \<Longrightarrow> length (filter P (map f qs)) \<le> length (filter Q qs)"
  by (induction qs) auto

lemma dedupScan_imports:
  "dedupScan im ps = (ops, es) \<Longrightarrow> length (filter is_import (flat ops)) + length es \<le> length (filter is_import (flat ps))"
proof (induction ps arbitrary: im ops es)
  case (Cons p ps)
  from Cons.prems show ?case
  proof (cases rule: dedupScan_Cons)
    case (dup name r v es')
    then have "1 \<le> length (filter is_import (flat_of p))"
      using importOf_results [OF dup(1)] by (cases p) (simp add: is_import_def)
    with Cons.IH [OF dup(3)] dup(4) show ?thesis by simp
  next
    case (keep im' ops')
    with Cons.IH [OF keep(1)] show ?thesis by simp
  qed
qed simp

lemma dedup_rank:
  assumes "globalImportDedup (body s) = Some ops"
  shows "(rank (s\<lparr>body := ops\<rparr>), rank s) \<in> lex3"
proof -
  obtain qs es where d: "dedupScan [] (body s) = (qs, es)" "es \<noteq> []" "ops = map (replaceUses (replacing es)) qs"
    using assms by (auto simp: globalImportDedup_def split: prod.splits if_splits)
  have "is_import (case q of (k, xs, rs) \<Rightarrow> (k, map f xs, rs)) = is_import q" for f q
    by (simp add: is_import_def case_prod_beta)
  then have "length (filter is_import (flat ops)) = length (filter is_import (flat qs))"
    by (simp add: d(3) flat_replaceUses filter_map comp_def)
  moreover have "0 < length es" using d(2) by simp
  ultimately have "length (filter is_import (flat ops)) < length (filter is_import (flat (body s)))"
    using dedupScan_imports [OF d(1)] by linarith
  then show ?thesis
    by (simp add: rank_def)
qed

lemma erase_rank:
  assumes "body s = plug C [p]" and "matchAndRewrite (valueTypes s, nextValue s) p = Erase (types', n') r x"
  shows "(rank \<lparr>valueTypes = types', nextValue = n', body = map (replaceUses (\<lambda>v. if v = r then x else v)) (plug C [])\<rparr>, rank s) \<in> lex3"
proof -
  let ?f = "\<lambda>v. if v = r then x else v"
  let ?g = "\<lambda>(k, xs, rs). (k, map ?f xs, rs)"
  let ?rest = "flat (plug C [])"
  define types where "types = valueTypes s"
  have m: "flat1 p = (BitCastOp, [x], [r])"
    and t: "types r = AnyType \<and> types' = types \<or> types r \<noteq> AnyType \<and> types x = AnyType \<and> types' = types(x := types r)"
    using match_erase [OF assms(2)] by (auto simp: types_def)
  obtain ps where p: "flat [p] = (BitCastOp, [x], [r]) # ps"
    using m by (cases p) (simp add: flat1_def)
  have "any_cast types q" if "any_cast types' (?g q)" for q
    using that t by (cases q) (auto simp: any_cast_eq split: if_splits)
  then have "length (filter (any_cast types') (map ?g ?rest)) \<le> length (filter (any_cast types) ?rest)"
    by (intro filter_map_le) auto
  moreover have "any_cast types (BitCastOp, [x], [r])"
    using t by (auto simp: any_cast_eq)
  then have "length (filter (any_cast types) ?rest) < length (filter (any_cast types) (flat (body s)))"
    by (simp add: assms(1) flat_plug p del: flat_simps(2))
  moreover have "length (filter is_import (map ?g ?rest)) \<le> length (filter is_import ?rest)"
    by (intro filter_map_le) (auto simp: is_import_def)
  moreover have "length (filter is_import ?rest) \<le> length (filter is_import (flat (body s)))"
    by (simp add: assms(1) flat_plug)
  ultimately show ?thesis
    by (auto simp: rank_def flat_replaceUses types_def)
qed

lemma recast_rank:
  assumes "recast types n p ps types' n'" and "rw_ok gt D s" and "body s = plug C [p]"
    and "valueTypes s = types" and "nextValue s = n"
  shows "(rank \<lparr>valueTypes = types', nextValue = n', body = plug C ps\<rparr>, rank s) \<in> lex3"
proof -
  obtain cs xs where r: "ps = cs @ [Op (op_kind p) xs (op_results p) []]"
    "\<forall>q \<in> set (flat cs). int_cast types' q \<and> set (fst (snd q)) \<subseteq> set (op_operands p)"
    "\<forall>s \<in> set (slots types' (op_kind p, xs, op_results p)). \<not> needs_cast types' s"
    and n: "n \<le> n'" "\<forall>v < n. types' v = types v" "\<forall>m. op_kind p \<noteq> GlobalImportOp m" "op_kind p \<noteq> BitCastOp"
    and need: "\<exists>s \<in> set (slots types (flat1 p)). needs_cast types s"
    using assms(1) by (auto simp: recast_def)
  let ?q = "(op_kind p, xs, op_results p)"
  let ?out = "flat_before C @ flat_after C"
  obtain qs where p: "flat [p] = flat1 p # qs"
    by (cases p) (simp add: flat1_def)
  have ok: "\<forall>q \<in> set ?out. op_ok gt types n q"
    using assms(2-5) by (auto simp: rw_ok_def flat_plug)
  have slots: "slots types' q = slots types q" "any_cast types' q = any_cast types q" "mismatches types' q = mismatches types q"
    if "q \<in> set ?out" for q
  proof -
    note o = op_ok_more [OF bspec [OF ok that] n(2,1)]
    then show "slots types' q = slots types q" by blast
    have "set (fst (snd q)) \<subseteq> {..<n}" "set (snd (snd q)) \<subseteq> {..<n}"
      using bspec [OF ok that] by (auto simp: op_ok_def)
    then show "any_cast types' q = any_cast types q"
      using n(2) by (cases q) (auto simp: any_cast_eq)
    show "mismatches types' q = mismatches types q"
      unfolding mismatches_def o(2) using o(3) n(2) by (auto simp: needs_cast_def intro!: arg_cong [of _ _ length] filter_cong)
  qed
  have cs: "\<not> is_import q \<and> \<not> any_cast types' q \<and> mismatches types' q = 0" if mem: "q \<in> set (flat cs)" for q
  proof -
    obtain v m where "q = (BitCastOp, [v], [m])" "isInteger (types' v)" "isInteger (types' m)"
      using r(2) mem by (auto simp: int_cast_def)
    then show ?thesis
      by (simp add: is_import_def any_cast_def mismatches_def slots_def isInteger_def split: ty.splits)
  qed
  have q: "\<not> is_import ?q" "\<not> any_cast types' ?q" "mismatches types' ?q = 0"
    using n(3,4) r(3) by (simp_all add: is_import_def any_cast_eq mismatches_def filter_empty_conv split: opkind.split)
  have pos: "0 < mismatches types (flat1 p)"
    using need by (auto simp: mismatches_def length_greater_0_conv filter_empty_conv)
  have new: "flat (plug C ps) = flat_before C @ flat cs @ ?q # flat_after C"
    and old: "flat (body s) = flat_before C @ flat1 p # qs @ flat_after C"
    using p by (simp_all add: flat_plug r(1) assms(3))
  have "filter is_import (flat cs) = []" "filter (any_cast types') (flat cs) = []" "sum_list (map (mismatches types') (flat cs)) = 0"
    using cs by (auto simp: filter_empty_conv sum_list_eq_0_iff)
  moreover have "filter (any_cast types') (flat_before C) = filter (any_cast types) (flat_before C)"
    "filter (any_cast types') (flat_after C) = filter (any_cast types) (flat_after C)"
    "map (mismatches types') (flat_before C) = map (mismatches types) (flat_before C)"
    "map (mismatches types') (flat_after C) = map (mismatches types) (flat_after C)"
    using slots by (auto intro!: filter_cong)
  ultimately have "length (filter is_import (flat (plug C ps))) \<le> length (filter is_import (flat (body s)))"
    "length (filter (any_cast types') (flat (plug C ps))) \<le> length (filter (any_cast types) (flat (body s)))"
    "sum_list (map (mismatches types') (flat (plug C ps))) < sum_list (map (mismatches types) (flat (body s)))"
    using q pos by (simp_all add: new old del: sum_list_eq_0_iff map_eq_conv)
  then show ?thesis
    by (auto simp: rank_def assms(4))
qed

lemma canon_step_rank: "canon_step s s' \<Longrightarrow> rw_ok gt D s \<Longrightarrow> (rank s', rank s) \<in> lex3"
proof (induction rule: canon_step.induct)
  case (new_ops s C p ps types new)
  then show ?case
    using recast_rank [OF step_recast] by blast
qed (simp_all add: dedup_rank erase_rank)

section \<open>Normal forms\<close>

definition no_step :: "rw \<Rightarrow> bool" where
  "no_step s \<longleftrightarrow> (\<forall>s'. \<not> canon_step s s')"

text \<open>What a function looks like when no pattern applies.\<close>

definition canonical :: "rw \<Rightarrow> bool" where
  "canonical s \<longleftrightarrow> distinct (map fst (List.map_filter importOf (body s))) \<and>
     (\<forall>q \<in> set (flat (body s)). \<not> any_cast (valueTypes s) q \<and> (\<forall>u \<in> set (slots (valueTypes s) q). \<not> needs_cast (valueTypes s) u))"

lemma flat_walk:
  "q \<in> set (flat_of o1) \<Longrightarrow> \<exists>p \<in> set (walk_op o1). flat1 p = q"
  "q \<in> set (flat ops) \<Longrightarrow> \<exists>p \<in> set (walk_ops ops). flat1 p = q"
  "q \<in> set (concat (map flat bs)) \<Longrightarrow> \<exists>p \<in> set (walk_regions bs). flat1 p = q"
  by (induction o1 and ops and bs rule: walk_op_walk_ops_walk_regions.induct) (auto simp: flat1_def)

lemma match_asserts: "matchAndRewrite (types, n) p = Assertion \<longleftrightarrow> \<not> access_ok types (flat1 p)"
  unfolding matchAndRewrite_def structUpdateTypeInfer_def updateTypeInfer_def lookupTypeInfer_def bitCastTypeInfer_def
    access_ok_def flat1_def
  by (auto simp: updateValue_eq Let_def split: opkind.splits list.splits ty.splits option.splits prod.splits if_splits)

lemma match_no_step:
  assumes "matchAndRewrite (types, n) p = NoMatch"
    and "set (op_operands p) \<subseteq> {..<n}" and "access_ok types (flat1 p)"
  shows "\<not> any_cast types (flat1 p) \<and> (\<forall>u \<in> set (slots types (flat1 p)). \<not> needs_cast types u)"
  using assms
  unfolding matchAndRewrite_def structUpdateTypeInfer_def updateTypeInfer_def lookupTypeInfer_def bitCastTypeInfer_def
    any_cast_def slots_def access_ok_def flat1_def
  by (auto simp: updateValue_eq Let_def split: opkind.splits list.splits ty.splits option.splits prod.splits if_splits)

lemma dedupScan_distinct:
  "dedupScan im ps = (ops, []) \<Longrightarrow> distinct (map fst (List.map_filter importOf ps)) \<and>
     fst ` set im \<inter> fst ` set (List.map_filter importOf ps) = {}"
proof (induction ps arbitrary: im ops)
  case (Cons p ps)
  from Cons.prems show ?case
  proof (cases rule: dedupScan_Cons)
    case (keep im' ops')
    from keep(3) show ?thesis
      using Cons.IH [OF keep(1)]
      by (elim disjE exE conjE) (simp_all add: List.map_filter_simps map_of_eq_None_iff Int_insert_right)
  qed simp
qed (simp add: List.map_filter_simps)

lemma no_step_canonical:
  assumes "no_step s" and "rw_ok gt D s"
  shows "canonical s"
proof -
  have "globalImportDedup (body s) = None"
    using assms(1) canon_step.dedup [of s] by (cases "globalImportDedup (body s)") (auto simp: no_step_def)
  then obtain ops where "dedupScan [] (body s) = (ops, [])"
    by (auto simp: globalImportDedup_def split: prod.splits if_splits)
  moreover have "\<not> any_cast (valueTypes s) q \<and> (\<forall>u \<in> set (slots (valueTypes s) q). \<not> needs_cast (valueTypes s) u)"
    if mem: "q \<in> set (flat (body s))" for q
  proof -
    obtain p where p: "p \<in> set (walk_ops (body s))" "flat1 p = q"
      using flat_walk(2) [OF mem] by blast
    then obtain C where C: "body s = plug C [p]"
      using plug_focus_all(2) by blast
    have "op_ok gt (valueTypes s) (nextValue s) (flat1 p)"
      using assms(2) mem p(2) by (simp add: rw_ok_def)
    then have "matchAndRewrite (valueTypes s, nextValue s) p = NoMatch"
      using assms(1) canon_step.new_ops [OF C] canon_step.erase [OF C] match_asserts unfolding no_step_def op_ok_def
      by (metis rewrite.exhaust surj_pair)
    then show ?thesis
      using \<open>op_ok gt (valueTypes s) (nextValue s) (flat1 p)\<close> unfolding p(2) [symmetric]
      by (intro match_no_step [of _ "nextValue s"]) (simp_all add: op_ok_def flat1_def)
  qed
  ultimately show ?thesis
    using dedupScan_distinct by (auto simp: canonical_def)
qed

lemma steps_ok: "canon_step\<^sup>*\<^sup>* s s' \<Longrightarrow> rw_ok gt D s \<Longrightarrow> rw_ok gt D s'"
  by (induction rule: rtranclp_induct) (auto intro: canon_step_ok)

lemma steps_terminate: "wf {(s', s). rw_ok gt D s \<and> canon_step s s'}"
proof (rule wf_subset [OF wf_inv_image])
  show "wf lex3" by (intro wf_lex_prod wf_less_than)
  show "{(s', s). rw_ok gt D s \<and> canon_step s s'} \<subseteq> inv_image lex3 rank"
    using canon_step_rank by auto
qed

lemma settles: "rw_ok gt D s \<Longrightarrow> \<exists>s'. canon_step\<^sup>*\<^sup>* s s' \<and> no_step s'"
proof (induction s rule: wf_induct_rule [OF steps_terminate [of gt D]])
  case (1 s)
  show ?case
  proof (cases "no_step s")
    case False
    then obtain t where t: "canon_step s t"
      by (auto simp: no_step_def)
    with 1 have "\<exists>s'. canon_step\<^sup>*\<^sup>* t s' \<and> no_step s'"
      using canon_step_ok by auto
    with t show ?thesis
      by (meson converse_rtranclp_into_rtranclp)
  qed auto
qed

end
