(* ===== verification/Ep2_Canonicalize.thy ===== *)
theory Ep2_Canonicalize
  imports Ep2_Codegen Ep2_Rewriting_Props
begin

text \<open>
  The claims on the canonicalizer, with a function the code generator produces, and the operations
  of the dialect that fold, print and verify.
\<close>

section \<open>From the code generator to the canonicalizer\<close>

text \<open>A generated function, as the canonicalizer finds it.\<close>

definition function_state :: "gen \<Rightarrow> func_op \<Rightarrow> rw" where
  "function_state g f = \<lparr>valueTypes = \<lambda>v. map fst (vinfo g) ! v, nextValue = length (vinfo g), body = fn_body f\<rparr>"

definition counting_source :: string where
  "counting_source =
     ''scope s <EV:a>[i]; [sync=s] global table<bits<16>, bits<32>, 16> t; '' @
     ''handler EV:a (context ctx, bits<32> n) { bits<32> x; x = t.lookup(n); t.update(n, 1); return x; }''"

definition counting_table :: ty where
  "counting_table = TableType (Some (IntegerType 16)) (Some (IntegerType 32)) 16"

definition counting_types :: "ty list" where
  "counting_types = [counting_table, ContextType, IntegerType 32, IntegerType 32, counting_table, IntegerType 32,
     IntegerType 64, counting_table, NoneType]"

definition counting_body :: "op list" where
  "counting_body = [Op InitOp [] [3] [], Op (GlobalImportOp ''t'') [] [4] [], Op LookupOp [4, 2] [5] [],
     Op (ConstantOp (IntAttr 1)) [] [6] [], Op (GlobalImportOp ''t'') [] [7] [], Op UpdateOp [7, 2, 6] [] [],
     Op NopOp [] [8] [], Op ReturnOp [5] [] [], Op TerminateOp [] [] []]"

definition counting_state :: rw where
  "counting_state = \<lparr>valueTypes = \<lambda>v. counting_types ! v, nextValue = 9, body = counting_body\<rparr>"

lemma counting_generated:
  "\<exists>gl f g. mlirGen (module_of counting_source) = Ok (Some [GlobalM gl, FuncM f]) g \<and>
     function_state g f = counting_state \<and> set (fn_args f) = {1, 2}"
proof -
  have "case mlirGen (module_of counting_source) of
      Ok (Some [GlobalM gl, FuncM f]) g \<Rightarrow> length (vinfo g) = 9 \<and> fn_args f = [1, 2] \<and> fn_body f = counting_body \<and>
        map fst (vinfo g) = counting_types
    | _ \<Rightarrow> False"
    by code_simp
  then obtain gl f g where "mlirGen (module_of counting_source) = Ok (Some [GlobalM gl, FuncM f]) g" "length (vinfo g) = 9"
    "fn_args f = [1, 2]" "fn_body f = counting_body" "map fst (vinfo g) = counting_types"
    by (auto split: outcome.splits option.splits list.splits module_op.splits) (metis list.exhaust)+
  then show ?thesis
    by (intro exI [of _ gl] exI [of _ f] exI [of _ g]) (simp add: function_state_def counting_state_def)
qed

lemma walk_append [simp]: "walk_ops (as @ bs) = walk_ops as @ walk_ops bs" "walk_regions (ra @ rb) = walk_regions ra @ walk_regions rb"
  by (induction as; simp) (induction ra; simp)

lemma walk_plug: "p \<in> set (walk_ops (plug C [p]))"
  by (induction C) (cases p, auto)

text \<open>Whether a step is possible can be computed.\<close>

lemma no_step_iff:
  "no_step s \<longleftrightarrow> globalImportDedup (body s) = None \<and>
     list_all (\<lambda>p. case matchAndRewrite (valueTypes s, nextValue s) p of NewOps ps vs \<Rightarrow> False | Erase vs r x \<Rightarrow> False | _ \<Rightarrow> True)
       (walk_ops (body s))" (is "_ \<longleftrightarrow> ?d \<and> list_all ?P _")
proof
  assume n: "no_step s"
  have "?P p" if mem: "p \<in> set (walk_ops (body s))" for p
  proof -
    obtain C where "body s = plug C [p]"
      using plug_focus_all(2) [OF mem] by blast
    with n show ?thesis
      using canon_step.new_ops [of s C p] canon_step.erase [of s C p]
      by (auto simp: no_step_def split: rewrite.split)
  qed
  moreover have ?d
    using n canon_step.dedup [of s] by (cases "globalImportDedup (body s)") (auto simp: no_step_def)
  ultimately show "?d \<and> list_all ?P (walk_ops (body s))"
    by (simp add: list_all_iff)
next
  assume a: "?d \<and> list_all ?P (walk_ops (body s))"
  then have "?P p" if "body s = plug C [p]" for p C
    using walk_plug [of p C] that by (simp add: list_all_iff)
  with a show "no_step s"
    by (fastforce simp: no_step_def elim!: canon_stepE)
qed

lemma counting_ok: "rw_ok (\<lambda>_. counting_table) {1, 2} counting_state"
  by (simp add: rw_ok_def counting_state_def counting_body_def defined_def op_ok_def access_ok_def import_ok_def
      counting_types_def counting_table_def)

definition counting_result :: "op list" where
  "counting_result = [Op InitOp [] [3] [], Op (GlobalImportOp ''t'') [] [4] [], Op BitCastOp [2] [9] [], Op LookupOp [4, 9] [5] [],
     Op (ConstantOp (IntAttr 1)) [] [6] [], Op BitCastOp [2] [10] [], Op BitCastOp [6] [11] [],
     Op UpdateOp [4, 10, 11] [] [], Op NopOp [] [8] [], Op ReturnOp [5] [] [], Op TerminateOp [] [] []]"

definition counting_end :: rw where
  "counting_end = counting_state\<lparr>
     valueTypes := (valueTypes counting_state)(9 := IntegerType 16, 10 := IntegerType 16, 11 := IntegerType 32),
     nextValue := 12, body := counting_result\<rparr>"

lemma counting_steps: "canon_step\<^sup>*\<^sup>* counting_state counting_end"
proof -
  let ?b1 = "take 4 counting_body @ [Op UpdateOp [4, 2, 6] [] []] @ drop 6 counting_body"
  let ?s1 = "counting_state\<lparr>body := ?b1\<rparr>"
  let ?b2 = "take 2 ?b1 @ [Op BitCastOp [2] [9] [], Op LookupOp [4, 9] [5] []] @ drop 3 ?b1"
  let ?s2 = "counting_state\<lparr>valueTypes := (valueTypes counting_state)(9 := IntegerType 16), nextValue := 10, body := ?b2\<rparr>"
  have "canon_step counting_state ?s1"
    by (rule canon_step.dedup) (simp add: globalImportDedup_def counting_state_def counting_body_def importOf_def replacing_def)
  moreover have "canon_step ?s1 ?s2"
    using canon_step.new_ops [of ?s1 "Here (take 2 ?b1) (drop 3 ?b1)" "Op LookupOp [4, 2] [5] []"]
    by (simp add: matchAndRewrite_def lookupTypeInfer_def updateValue_eq needs_cast_def counting_state_def counting_body_def
        counting_types_def counting_table_def isInteger_def)
  moreover have "canon_step ?s2 counting_end"
    using canon_step.new_ops [of ?s2 "Here (take 5 ?b2) (drop 6 ?b2)" "Op UpdateOp [4, 2, 6] [] []"]
    by (simp add: matchAndRewrite_def updateTypeInfer_def updateValue_eq needs_cast_def counting_state_def counting_body_def
        counting_types_def counting_table_def isInteger_def counting_result_def counting_end_def)
  ultimately show ?thesis
    by (meson rtranclp.rtrancl_refl rtranclp.rtrancl_into_rtrancl)
qed

lemma counting_no_step: "no_step counting_end"
  by (simp add: no_step_iff globalImportDedup_def counting_end_def counting_result_def counting_state_def importOf_def
      matchAndRewrite_def lookupTypeInfer_def updateTypeInfer_def bitCastTypeInfer_def updateValue_eq needs_cast_def
      counting_types_def counting_table_def)

section \<open>The canonicalizer\<close>

text \<open>
  C4: where the canonicalization patterns stop, in whatever order they were applied, the function is
  still well-formed (single assignment, dominance, readable declarations), it has no cast from or to
  an unknown type, its top block imports every global at most once (the pattern does not look into
  the branches of conditionals, where the code generator puts imports too), and every
  integer stored in a struct, used as a key of a table or written to a table has the width that the
  struct or table declares.
\<close>

theorem canonicalize_typed:
  assumes "rw_ok gt D s" and "canon_step\<^sup>*\<^sup>* s s'" and "no_step s'"
  shows "rw_ok gt D s' \<and> canonical s'"
  using steps_ok [OF assms(2,1)] no_step_canonical [OF assms(3)] by blast

theorem canonicalize_typed_witness:
  "(\<exists>gl f g. mlirGen (module_of counting_source) = Ok (Some [GlobalM gl, FuncM f]) g \<and> function_state g f = counting_state) \<and>
   \<not> canonical counting_state \<and> rw_ok (\<lambda>_. counting_table) {1, 2} counting_end \<and> canonical counting_end"
proof (intro conjI)
  show "\<exists>gl f g. mlirGen (module_of counting_source) = Ok (Some [GlobalM gl, FuncM f]) g \<and> function_state g f = counting_state"
    using counting_generated by blast
  show "\<not> canonical counting_state"
    by (simp add: canonical_def counting_state_def counting_body_def importOf_def List.map_filter_simps)
qed (use canonicalize_typed [OF counting_ok counting_steps counting_no_step] in blast)+

text \<open>
  C19: on a well-formed function canonicalization ends: no order of applying the patterns goes on
  forever, and one that stops exists.
\<close>

theorem canonicalize_terminates:
  assumes "rw_ok gt D s"
  shows "(\<exists>s'. canon_step\<^sup>*\<^sup>* s s' \<and> no_step s') \<and> (\<nexists>run. run 0 = s \<and> (\<forall>i::nat. canon_step (run i) (run (Suc i))))"
proof
  show "\<exists>s'. canon_step\<^sup>*\<^sup>* s s' \<and> no_step s'"
    using assms by (rule settles)
  show "\<nexists>run. run 0 = s \<and> (\<forall>i::nat. canon_step (run i) (run (Suc i)))"
  proof
    assume "\<exists>run. run 0 = s \<and> (\<forall>i::nat. canon_step (run i) (run (Suc i)))"
    then obtain run where run: "run 0 = s" "\<And>i. canon_step (run i) (run (Suc i))"
      by blast
    then have "rw_ok gt D (run i)" for i
      using assms by (induction i) (auto intro: canon_step_ok)
    with run(2) have "\<And>i. (run (Suc i), run i) \<in> {(s', s). rw_ok gt D s \<and> canon_step s s'}"
      by blast
    then show False
      using steps_terminate [of gt D] unfolding wf_iff_no_infinite_down_chain by blast
  qed
qed

theorem canonicalize_terminates_witness:
  "canon_step counting_state (counting_state\<lparr>body := map (replaceUses (replacing [(7, 4)])) (take 4 counting_body @ drop 5 counting_body)\<rparr>) \<and>
   (\<exists>s'. canon_step\<^sup>*\<^sup>* counting_state s' \<and> no_step s')"
proof
  show "canon_step counting_state (counting_state\<lparr>body := map (replaceUses (replacing [(7, 4)])) (take 4 counting_body @ drop 5 counting_body)\<rparr>)"
    by (rule canon_step.dedup) (simp add: globalImportDedup_def counting_state_def counting_body_def importOf_def replacing_def)
qed (use canonicalize_terminates [OF counting_ok] in blast)

text \<open>
  C20: on a well-formed function no pattern runs into an assertion: whatever was rewritten before,
  the struct type has the updated member and the table type has the types that a pattern reads.
\<close>

theorem canonicalize_never_asserts:
  assumes "rw_ok gt D s" and "canon_step\<^sup>*\<^sup>* s s'" and "p \<in> set (walk_ops (body s'))"
  shows "matchAndRewrite (valueTypes s', nextValue s') p \<noteq> Assertion"
proof -
  obtain C where "body s' = plug C [p]"
    using plug_focus_all(2) [OF assms(3)] by blast
  then have "op_ok gt (valueTypes s') (nextValue s') (flat1 p)"
    using steps_ok [OF assms(2,1)] flat1_plug [of p C] by (simp add: rw_ok_def)
  then show ?thesis
    by (simp add: match_asserts op_ok_def)
qed

theorem canonicalize_never_asserts_witness:
  "Op UpdateOp [4, 10, 11] [] [] \<in> set (walk_ops (body counting_end)) \<and>
   matchAndRewrite (valueTypes counting_end, nextValue counting_end) (Op UpdateOp [4, 10, 11] [] []) \<noteq> Assertion"
proof
  show "Op UpdateOp [4, 10, 11] [] [] \<in> set (walk_ops (body counting_end))"
    by (simp add: counting_end_def counting_result_def)
  then show "matchAndRewrite (valueTypes counting_end, nextValue counting_end) (Op UpdateOp [4, 10, 11] [] []) \<noteq> Assertion"
    by (rule canonicalize_never_asserts [OF counting_ok counting_steps])
qed

section \<open>Casts, binary operations and verifiers\<close>

text \<open>
  Folding a cast of a constant of at most 64 bits keeps its low bits; a wider one is first clipped
  to 64 bits, so a cast of \<^verbatim>\<open>2^64\<close> to 32 bits becomes \<^verbatim>\<open>0xffffffff\<close>.
\<close>

lemma bitCastFold_narrow:
  assumes "0 \<le> w" and "w \<le> 64" and "w \<noteq> width"
  shows "bitCastFold (IntegerType w) (IntegerType width) (Some c) = FoldConst (c mod 2 ^ nat w mod 2 ^ nat width)"
proof -
  have "c mod 2 ^ nat w < 2 ^ nat w" by simp
  also have "(2::int) ^ nat w \<le> 2 ^ 64"
    using assms by (intro power_increasing) auto
  finally show ?thesis
    using assms(3) by (simp add: bitCastFold_def min_def)
qed

lemma bitCastFold_clips: "bitCastFold (IntegerType 128) (IntegerType 32) (Some (2 ^ 64)) = FoldConst (2 ^ 32 - 1)"
  by (simp add: bitCastFold_def)

text \<open>
  A cast the verifier accepts reaches the end of \<^verbatim>\<open>fold\<close> without a return exactly when it goes from an
  unknown type to a known one.
\<close>

lemma bitCastFold_no_return:
  "areCastCompatible [i] [out] \<Longrightarrow> bitCastFold i out c = NoReturn \<longleftrightarrow> i = AnyType \<and> out \<noteq> AnyType"
  by (cases i; cases out) (auto simp: bitCastFold_def isInteger_def split: option.splits)

text \<open>The two printed forms of a binary operation are read back.\<close>

lemma binaryOp_roundtrip:
  "length operandTypes = 2 \<Longrightarrow> parseBinaryOp 2 (printBinaryOp operandTypes [resultType]) = Some (operandTypes, [resultType])"
  by (auto simp: printBinaryOp_def parseBinaryOp_def list_all_iff Let_def) (metis replicate_length_same)

text \<open>
  A struct constant passes its verifier only if all its leaves are structs: an integer member makes
  the verifier cast its type to a struct type.
\<close>

lemma verifyConstant_integer: "verifyStructConstantOp (StructType e [IntegerType w] n) (ArrayAttr [IntAttr i]) = None"
  by (simp add: verifyStructConstantOp_def)

text \<open>
  The type conversion removes one layer of single-element structs: what it returns for two layers it
  converts again.
\<close>

lemma convertType_one_layer:
  assumes "isTargetStruct t"
  shows "convertType (StructType False [t] n) = t" and "convertType t \<noteq> t"
proof -
  obtain u m where t: "t = StructType False [u] m"
    using assms by (auto simp: isTargetStruct_def length_Suc_conv split: ty.splits)
  show "convertType (StructType False [t] n) = t"
    by simp
  have "size u < size t"
    by (simp add: t)
  then have "u \<noteq> t" by blast
  then show "convertType t \<noteq> t"
    by (simp add: t)
qed

end
