(* ===== verification/Alkali_Runtime.thy ===== *)
theory Alkali_Runtime
  imports Ep2_Prelude "HOL-Library.Word"
begin

text \<open>
  The runtime library of the LLVM back end (\<^verbatim>\<open>runtime-llvm\<close>): packet buffers, tables, the event
  queues between handlers and the start-up of the worker threads.
\<close>

section \<open>Memory and errors\<close>

text \<open>
  A byte that was never written is \<open>None\<close>. An access outside an allocated block and a signed
  overflow are errors of the run. Allocation is taken to succeed.
\<close>

type_synonym byte = "8 word option"

datatype rt_error = OutOfBounds | SignedOverflow

type_synonym 'a rt = "rt_error + 'a"

definition bindE :: "'a rt \<Rightarrow> ('a \<Rightarrow> 'b rt) \<Rightarrow> 'b rt" where
  "bindE m f = (case m of Inl e \<Rightarrow> Inl e | Inr a \<Rightarrow> f a)"

lemma bindE_simps [simp]: "bindE (Inl e) f = Inl e" "bindE (Inr a) f = f a"
  by (simp_all add: bindE_def)

definition int32 :: "int \<Rightarrow> int rt" where
  "int32 i = (if - (2 ^ 31) \<le> i \<and> i < 2 ^ 31 then Inr i else Inl SignedOverflow)"

definition malloc :: "int \<Rightarrow> byte list" where
  "malloc n = replicate (nat n) None"

definition realloc :: "byte list \<Rightarrow> int \<Rightarrow> byte list" where
  "realloc block n = take (nat n) block @ replicate (nat n - length block) None"

definition load :: "byte list \<Rightarrow> int \<Rightarrow> int \<Rightarrow> byte list rt" where
  "load block at n =
     (if 0 \<le> at \<and> 0 \<le> n \<and> at + n \<le> int (length block)
      then Inr (take (nat n) (drop (nat at) block)) else Inl OutOfBounds)"

definition store :: "byte list \<Rightarrow> int \<Rightarrow> byte list \<Rightarrow> byte list rt" where
  "store block at bs =
     (if 0 \<le> at \<and> at + int (length bs) \<le> int (length block)
      then Inr (take (nat at) block @ bs @ drop (nat at + length bs) block) else Inl OutOfBounds)"

section \<open>Buffers\<close>

record buf_t =
  data :: "byte list"
  size :: int
  offset :: int

definition rt_buf_init :: buf_t where
  "rt_buf_init = \<lparr>data = malloc 1024, size = 1024, offset = 0\<rparr>"

text \<open>The second \<^verbatim>\<open>printf\<close> of \<^verbatim>\<open>extract\<close> and \<^verbatim>\<open>emit\<close> reads the four bytes at the offset.\<close>

definition trace4 :: "buf_t \<Rightarrow> byte list rt" where
  "trace4 b = load (data b) (offset b) 4"

text \<open>
  \<^verbatim>\<open>__rt_buf_extract\<close> returns a pointer into the block; the result here is the bytes of the
  \<open>size\<close>-byte object it points to, which is what the generated code loads through it.
\<close>

definition rt_buf_extract :: "buf_t \<Rightarrow> int \<Rightarrow> (byte list \<times> buf_t) rt" where
  "rt_buf_extract b n =
     bindE (trace4 b) (\<lambda>_.
     bindE (load (data b) (offset b) n) (\<lambda>bs.
     bindE (int32 (offset b + n)) (\<lambda>off. Inr (bs, b\<lparr>offset := off\<rparr>))))"

text \<open>The test and the reallocation shared by \<^verbatim>\<open>emit\<close> and \<^verbatim>\<open>concat\<close>.\<close>

definition grow :: "buf_t \<Rightarrow> int \<Rightarrow> buf_t rt" where
  "grow b n =
     bindE (int32 (offset b + n)) (\<lambda>end.
     if end > size b
     then bindE (int32 (size b * 2)) (\<lambda>sz. Inr (b\<lparr>size := sz, data := realloc (data b) sz\<rparr>))
     else Inr b)"

definition rt_buf_emit :: "buf_t \<Rightarrow> int \<Rightarrow> byte list \<Rightarrow> buf_t rt" where
  "rt_buf_emit b n src =
     bindE (grow b n) (\<lambda>b.
     bindE (load src 0 n) (\<lambda>bs.
     bindE (store (data b) (offset b) bs) (\<lambda>block.
     let b = b\<lparr>data := block\<rparr> in
     bindE (trace4 b) (\<lambda>_.
     bindE (int32 (offset b + n)) (\<lambda>off. Inr (b\<lparr>offset := off\<rparr>))))))"

definition rt_buf_concat :: "buf_t \<Rightarrow> buf_t \<Rightarrow> buf_t rt" where
  "rt_buf_concat b other =
     bindE (int32 (size other - offset other)) (\<lambda>n.
     bindE (grow b n) (\<lambda>b.
     bindE (load (data other) (offset other) n) (\<lambda>bs.
     bindE (store (data b) (offset b) bs) (\<lambda>block.
     bindE (int32 (offset b + offset other)) (\<lambda>off.
     Inr (b\<lparr>data := block, offset := off\<rparr>))))))"

text \<open>The block has the size the header says, and the offset is inside it.\<close>

definition buf_ok :: "buf_t \<Rightarrow> bool" where
  "buf_ok b \<longleftrightarrow> int (length (data b)) = size b \<and> 0 \<le> offset b \<and> offset b \<le> size b \<and> size b < 2 ^ 30"

definition written :: "buf_t \<Rightarrow> byte list" where
  "written b = take (nat (offset b)) (data b)"

lemma buf_ok_init: "buf_ok rt_buf_init"
  by (simp add: buf_ok_def rt_buf_init_def malloc_def)

lemma length_realloc [simp]: "length (realloc block n) = nat n"
  by (simp add: realloc_def)

lemma take_realloc: "k \<le> nat n \<Longrightarrow> k \<le> length block \<Longrightarrow> take k (realloc block n) = take k block"
  by (simp add: realloc_def min_def)

text \<open>One doubling suffices when the object fits into twice the size.\<close>

definition grown_size :: "buf_t \<Rightarrow> int \<Rightarrow> int" where
  "grown_size b n = (if offset b + n > size b then size b * 2 else size b)"

lemma grow_ok:
  assumes "buf_ok b" "0 \<le> n" "offset b + n \<le> grown_size b n"
  shows "\<exists>b'. grow b n = Inr b' \<and> size b' = grown_size b n \<and> offset b' = offset b \<and>
     int (length (data b')) = size b' \<and> take (nat (offset b)) (data b') = written b"
  using assms
  by (auto simp: grow_def int32_def buf_ok_def grown_size_def written_def take_realloc split: if_splits)

lemma load_0: "0 \<le> n \<Longrightarrow> n \<le> int (length src) \<Longrightarrow> load src 0 n = Inr (take (nat n) src)"
  by (simp add: load_def)

lemma store_ok:
  assumes "0 \<le> at" "at + int (length bs) \<le> int (length block)"
  shows "store block at bs = Inr (take (nat at) block @ bs @ drop (nat at + length bs) block)"
    and "length (take (nat at) block @ bs @ drop (nat at + length bs) block) = length block"
  using assms by (simp_all add: store_def)

lemma emit_ok:
  assumes ok: "buf_ok b" and n: "0 \<le> n" "n \<le> int (length src)"
    and fit: "offset b + n \<le> grown_size b n" "offset b + 4 \<le> grown_size b n"
  shows "\<exists>b'. rt_buf_emit b n src = Inr b' \<and> written b' = written b @ take (nat n) src \<and>
     size b' = grown_size b n \<and> offset b' = offset b + n \<and> int (length (data b')) = size b'"
proof -
  obtain b1 where g: "grow b n = Inr b1" and b1: "size b1 = grown_size b n" "offset b1 = offset b"
    "int (length (data b1)) = size b1" "take (nat (offset b)) (data b1) = written b"
    using grow_ok [OF ok n(1) fit(1)] by blast
  let ?bs = "take (nat n) src"
  let ?block = "take (nat (offset b)) (data b1) @ ?bs @ drop (nat (offset b) + length ?bs) (data b1)"
  have off: "0 \<le> offset b" "size b < 2 ^ 30" using ok by (auto simp: buf_ok_def)
  have len: "length ?bs = nat n" using n by (simp add: min_def) linarith
  have st: "store (data b1) (offset b) ?bs = Inr ?block" "length ?block = length (data b1)"
    using store_ok [of "offset b" ?bs "data b1"] b1 fit off len n by (simp_all)
  have t: "trace4 (b1\<lparr>data := ?block\<rparr>) \<noteq> Inl e" for e
    using st(2) b1 fit off by (simp add: trace4_def load_def)
  then obtain t where t: "trace4 (b1\<lparr>data := ?block\<rparr>) = Inr t"
    by (cases "trace4 (b1\<lparr>data := ?block\<rparr>)") auto
  have i: "int32 (offset b + n) = Inr (offset b + n)"
    using fit off n by (auto simp: int32_def grown_size_def split: if_splits)
  have r: "rt_buf_emit b n src = Inr (b1\<lparr>data := ?block, offset := offset b + n\<rparr>)"
    using g load_0 [OF n] st(1) t i b1(2) by (simp add: rt_buf_emit_def Let_def)
  have "nat (offset b + n) = nat (offset b) + nat n" using off n by simp
  moreover have "length (written b) = nat (offset b)"
    using ok by (auto simp: written_def buf_ok_def)
  ultimately have w: "take (nat (offset b + n)) ?block = written b @ ?bs"
    using b1(4) len by simp
  show ?thesis
  proof (intro exI conjI)
    show "written (b1\<lparr>data := ?block, offset := offset b + n\<rparr>) = written b @ ?bs"
      unfolding written_def [of "b1\<lparr>data := ?block, offset := offset b + n\<rparr>"] using w by simp
    show "int (length (data (b1\<lparr>data := ?block, offset := offset b + n\<rparr>)))
        = size (b1\<lparr>data := ?block, offset := offset b + n\<rparr>)"
      using st(2) b1(3) by simp
  qed (use r b1(1) in simp_all)
qed

text \<open>
  C30: \<^verbatim>\<open>__rt_buf_emit\<close> appends: when the object fits after at most one doubling, the bytes
  already written stay, the object follows them, the offset moves past it, and the block has
  the size the header says.
\<close>

theorem emit_appends:
  assumes "buf_ok b" "0 \<le> n" "n \<le> int (length src)"
    and "offset b + n \<le> grown_size b n" "offset b + 4 \<le> grown_size b n"
  shows "\<exists>b'. rt_buf_emit b n src = Inr b' \<and> written b' = written b @ take (nat n) src \<and>
     offset b' = offset b + n \<and> int (length (data b')) = size b' \<and> size b' = grown_size b n"
  using emit_ok [OF assms] by blast

theorem emit_appends_witness:
  "\<exists>b'. rt_buf_emit rt_buf_init 2 [Some 7, Some 9] = Inr b' \<and> written b' = [Some 7, Some 9]"
proof -
  have "\<exists>b'. rt_buf_emit rt_buf_init 2 [Some 7, Some 9] = Inr b' \<and>
      written b' = written rt_buf_init @ take (nat 2) [Some 7, Some 9] \<and>
      offset b' = offset rt_buf_init + 2 \<and> int (length (data b')) = size b' \<and>
      size b' = grown_size rt_buf_init 2"
    by (rule emit_appends)
      (simp_all add: buf_ok_init grown_size_def, simp_all add: rt_buf_init_def)
  then show ?thesis by (auto simp: written_def rt_buf_init_def)
qed

text \<open>A handler that reads the fields of a packet calls \<^verbatim>\<open>__rt_buf_extract\<close> once for each of them.\<close>

fun extract_all :: "buf_t \<Rightarrow> int list \<Rightarrow> (byte list list \<times> buf_t) rt" where
  "extract_all b [] = Inr ([], b)"
| "extract_all b (n # ns) =
     bindE (rt_buf_extract b n) (\<lambda>(bs, b). bindE (extract_all b ns) (\<lambda>(bss, b). Inr (bs # bss, b)))"

lemma extract_ok:
  assumes "buf_ok b" "0 \<le> n" "offset b + n \<le> size b" "offset b + 4 \<le> size b"
  shows "rt_buf_extract b n = Inr (take (nat n) (drop (nat (offset b)) (data b)), b\<lparr>offset := offset b + n\<rparr>)"
  using assms by (simp add: rt_buf_extract_def trace4_def load_def int32_def buf_ok_def)

text \<open>
  C31: Extracting a sequence of fields walks over the buffer. While four bytes stay in the block behind
  the last field, the calls of \<^verbatim>\<open>__rt_buf_extract\<close> return, field by field and without gap or
  overlap, the bytes from the offset on, and the offset ends behind them.
\<close>

theorem extract_consecutive:
  assumes "buf_ok b" "\<forall>n \<in> set ns. 0 \<le> n" "offset b + sum_list ns + 4 \<le> size b"
  shows "\<exists>bss. extract_all b ns = Inr (bss, b\<lparr>offset := offset b + sum_list ns\<rparr>) \<and>
    map (int \<circ> length) bss = ns \<and> concat bss = take (nat (sum_list ns)) (drop (nat (offset b)) (data b))"
  using assms
proof (induction ns arbitrary: b)
  case Nil
  then show ?case by simp
next
  case (Cons n ns)
  let ?b = "b\<lparr>offset := offset b + n\<rparr>" and ?s = "sum_list ns"
  have pos: "0 \<le> n" "0 \<le> ?s" "0 \<le> offset b" "int (length (data b)) = size b"
    using Cons.prems by (auto simp: sum_list_nonneg buf_ok_def)
  then have "buf_ok ?b"
    using Cons.prems by (simp add: buf_ok_def)
  then obtain bss where bss: "extract_all ?b ns = Inr (bss, b\<lparr>offset := offset b + n + ?s\<rparr>)"
    "map (int \<circ> length) bss = ns" "concat bss = take (nat ?s) (drop (nat (offset b + n)) (data b))"
    using Cons.IH [of ?b] Cons.prems by auto
  have e: "rt_buf_extract b n = Inr (take (nat n) (drop (nat (offset b)) (data b)), ?b)"
    using Cons.prems pos by (intro extract_ok) auto
  have "take (nat n) xs @ take (nat ?s) (drop (nat n) xs) = take (nat (n + ?s)) xs" for xs :: "byte list"
    using pos by (simp add: nat_add_distrib take_add)
  from this [of "drop (nat (offset b)) (data b)"] show ?case
    using e bss pos Cons.prems(3) by (auto simp: nat_add_distrib add.assoc add.commute)
qed

theorem extract_consecutive_witness:
  "\<exists>bss. extract_all (rt_buf_init\<lparr>data := replicate 512 (Some 7) @ replicate 512 (Some 9), offset := 510\<rparr>) [1, 2] =
      Inr (bss, rt_buf_init\<lparr>data := replicate 512 (Some 7) @ replicate 512 (Some 9), offset := 513\<rparr>) \<and>
    concat bss = [Some 7, Some 7, Some 9]"
proof -
  let ?b = "rt_buf_init\<lparr>data := replicate 512 (Some 7) @ replicate 512 (Some 9), offset := 510\<rparr>"
  have "buf_ok ?b" "\<forall>n \<in> set [1, 2 :: int]. 0 \<le> n" "offset ?b + sum_list [1, 2] + 4 \<le> size ?b"
    by (simp_all add: buf_ok_def rt_buf_init_def)
  moreover have "take (nat (sum_list [1, 2])) (drop (nat (offset ?b)) (data ?b)) = [Some 7, Some 7, Some 9]"
    by (simp add: numeral_eq_Suc)
  ultimately show ?thesis
    using extract_consecutive [of ?b "[1, 2]"] by auto
qed

text \<open>
  The trace of \<^verbatim>\<open>__rt_buf_extract\<close> reads four bytes at the offset even for a shorter field: near the
  end of the block it leaves it.
\<close>

lemma extract_tail_overread:
  assumes "buf_ok b" "size b < offset b + 4"
  shows "rt_buf_extract b n = Inl OutOfBounds"
  using assms by (simp add: rt_buf_extract_def trace4_def load_def buf_ok_def)

text \<open>
  The buffer grows at most once per \<^verbatim>\<open>emit\<close>: an object that does not fit after one doubling
  is copied past the end of the block.
\<close>

theorem emit_overruns:
  assumes "buf_ok b" "0 \<le> n" "n \<le> int (length src)" "size b * 2 < offset b + n" "offset b + n < 2 ^ 31"
  shows "rt_buf_emit b n src = Inl OutOfBounds"
proof -
  have len: "length (take (nat n) src) = nat n" using assms(2,3) by (simp add: min_def) linarith
  have g: "grow b n = Inr (b\<lparr>size := size b * 2, data := realloc (data b) (size b * 2)\<rparr>)"
    using assms by (simp add: grow_def int32_def buf_ok_def)
  have "store (realloc (data b) (size b * 2)) (offset b) (take (nat n) src) = Inl OutOfBounds"
    using assms len by (simp add: store_def buf_ok_def)
  with g load_0 [OF assms(2,3)] show ?thesis by (simp add: rt_buf_emit_def)
qed

theorem emit_overruns_witness:
  "rt_buf_emit rt_buf_init 3000 (replicate 3000 (Some 0)) = Inl OutOfBounds"
  by (rule emit_overruns) (simp_all add: buf_ok_init, simp_all add: rt_buf_init_def)

text \<open>
  \<^verbatim>\<open>__rt_buf_concat\<close> advances the offset by the offset of the other buffer, not by the number
  of bytes it copied: concatenating a buffer that was not read from leaves the offset where
  it was, and the next \<^verbatim>\<open>emit\<close> overwrites the copy.
\<close>

theorem concat_loses_offset:
  assumes "buf_ok b" "buf_ok other" "offset other = 0" "offset b + size other \<le> size b"
  shows "\<exists>b'. rt_buf_concat b other = Inr b' \<and> offset b' = offset b \<and>
     take (nat (size other)) (drop (nat (offset b)) (data b')) = data other"
proof -
  have len: "nat (size other) = length (data other)" using assms(2) by (auto simp: buf_ok_def)
  have fit: "nat (offset b) + length (data other) \<le> length (data b)"
    using assms by (auto simp: buf_ok_def)
  have "rt_buf_concat b other = Inr (b\<lparr>data := take (nat (offset b)) (data b) @ data other @
      drop (nat (offset b) + length (data other)) (data b), offset := offset b\<rparr>)"
    using assms len by (auto simp: rt_buf_concat_def int32_def grow_def load_def store_def buf_ok_def)
  with len fit show ?thesis by simp
qed

theorem concat_loses_offset_witness:
  "\<exists>b'. rt_buf_concat rt_buf_init \<lparr>data = [Some 1, Some 2], size = 2, offset = 0\<rparr> = Inr b' \<and> offset b' = 0"
proof -
  have "\<exists>b'. rt_buf_concat rt_buf_init \<lparr>data = [Some 1, Some 2], size = 2, offset = 0\<rparr> = Inr b' \<and>
     offset b' = offset rt_buf_init \<and>
     take (nat (size \<lparr>data = [Some 1, Some 2], size = 2, offset = 0\<rparr>)) (drop (nat (offset rt_buf_init)) (data b'))
       = data \<lparr>data = [Some 1, Some 2], size = 2, offset = 0\<rparr>"
    by (rule concat_loses_offset) (simp_all add: buf_ok_def rt_buf_init_def malloc_def)
  then show ?thesis by (auto simp: rt_buf_init_def)
qed

section \<open>Tables\<close>

record table_t =
  vsize :: int
  el :: "byte list"

definition rt_table_init :: "int \<Rightarrow> table_t" where
  "rt_table_init n = \<lparr>vsize = n, el = replicate (nat n) (Some 0)\<rparr>"

definition rt_table_alloc :: "int \<Rightarrow> table_t" where
  "rt_table_alloc n = rt_table_init n"

text \<open>Both operations print the first two integers of the element.\<close>

definition rt_table_lookup :: "table_t \<Rightarrow> int \<Rightarrow> byte list rt" where
  "rt_table_lookup t key = bindE (load (el t) 0 8) (\<lambda>_. Inr (el t))"

definition rt_table_update :: "table_t \<Rightarrow> int \<Rightarrow> byte list \<Rightarrow> table_t rt" where
  "rt_table_update t key v =
     bindE (load v 0 (vsize t)) (\<lambda>bs.
     bindE (store (el t) 0 bs) (\<lambda>e.
     bindE (load e 0 8) (\<lambda>_. Inr (t\<lparr>el := e\<rparr>))))"

text \<open>
  A table holds one element: a lookup returns the value last stored, under whatever key it
  was stored.
\<close>

theorem table_ignores_key:
  assumes "int (length (el t)) = vsize t" "8 \<le> vsize t" "int (length v) = vsize t"
  shows "\<exists>t'. rt_table_update t k v = Inr t' \<and> rt_table_lookup t' k' = Inr v \<and> vsize t' = vsize t"
  using assms by (auto simp: rt_table_update_def rt_table_lookup_def load_def store_def)

theorem table_ignores_key_witness:
  "\<exists>t'. rt_table_update (rt_table_alloc 8) 1 (replicate 8 (Some 5)) = Inr t' \<and>
     rt_table_lookup t' 2 = Inr (replicate 8 (Some 5)) \<and> vsize t' = vsize (rt_table_alloc 8)"
  by (rule table_ignores_key) (simp_all add: rt_table_alloc_def rt_table_init_def)

section \<open>Event queues\<close>

text \<open>
  \<^verbatim>\<open>__rt_generate\<close> copies the event and pushes the copy; a worker thread pops the queue of its
  tag and runs the handler. The queue is glib's \<^verbatim>\<open>GAsyncQueue\<close>, whose operations are arguments
  here: \<open>push\<close>, \<open>pop\<close> (which has nothing to return while the real one blocks) and the empty
  queue. What is relied on is its documented behaviour, \<open>fifo\<close>: pushing appends to the
  contents and popping takes their head; each call is atomic.
\<close>

type_synonym 'q queues = "nat \<Rightarrow> 'q"

definition rt_generate :: "('q \<Rightarrow> byte list \<Rightarrow> 'q) \<Rightarrow> nat \<Rightarrow> int \<Rightarrow> byte list \<Rightarrow> 'q queues \<Rightarrow> 'q queues rt" where
  "rt_generate push tag n src q = bindE (load src 0 n) (\<lambda>msg. Inr (q(tag := push (q tag) msg)))"

definition worker_pop :: "('q \<Rightarrow> (byte list \<times> 'q) option) \<Rightarrow> nat \<Rightarrow> 'q queues \<Rightarrow> (byte list \<times> 'q queues) option" where
  "worker_pop pop tag q = (case pop (q tag) of None \<Rightarrow> None | Some (m, q') \<Rightarrow> Some (m, q(tag := q')))"

definition fifo :: "('q \<Rightarrow> byte list \<Rightarrow> 'q) \<Rightarrow> ('q \<Rightarrow> (byte list \<times> 'q) option) \<Rightarrow> 'q \<Rightarrow>
    ('q \<Rightarrow> byte list list) \<Rightarrow> bool" where
  "fifo push pop q0 contents \<longleftrightarrow>
     contents q0 = [] \<and>
     (\<forall>q m. contents (push q m) = contents q @ [m]) \<and>
     (\<forall>q m q'. pop q = Some (m, q') \<longrightarrow> contents q = m # contents q')"

text \<open>A run is any interleaving of generating and working threads; two logs record it.\<close>

record 'q sys =
  queues_of :: "'q queues"
  sent :: "nat \<Rightarrow> byte list list"
  handled :: "nat \<Rightarrow> byte list list"

inductive sys_step :: "('q \<Rightarrow> byte list \<Rightarrow> 'q) \<Rightarrow> ('q \<Rightarrow> (byte list \<times> 'q) option) \<Rightarrow> 'q sys \<Rightarrow> 'q sys \<Rightarrow> bool"
  for push pop where
  generate: "rt_generate push tag n src (queues_of s) = Inr q \<Longrightarrow>
    sys_step push pop s (s\<lparr>queues_of := q, sent := (sent s)(tag := sent s tag @ [take (nat n) src])\<rparr>)"
| work: "worker_pop pop tag (queues_of s) = Some (m, q) \<Longrightarrow>
    sys_step push pop s (s\<lparr>queues_of := q, handled := (handled s)(tag := handled s tag @ [m])\<rparr>)"

inductive sys_reach :: "('q \<Rightarrow> byte list \<Rightarrow> 'q) \<Rightarrow> ('q \<Rightarrow> (byte list \<times> 'q) option) \<Rightarrow> 'q \<Rightarrow> 'q sys \<Rightarrow> bool"
  for push pop q0 where
  start: "sys_reach push pop q0 \<lparr>queues_of = (\<lambda>_. q0), sent = (\<lambda>_. []), handled = (\<lambda>_. [])\<rparr>"
| step: "sys_reach push pop q0 s \<Longrightarrow> sys_step push pop s s' \<Longrightarrow> sys_reach push pop q0 s'"

lemma sys_step_keeps:
  assumes "sys_step push pop s s'" "fifo push pop q0 contents"
    "\<forall>tag. handled s tag @ contents (queues_of s tag) = sent s tag"
  shows "handled s' tag @ contents (queues_of s' tag) = sent s' tag"
  using assms
  by (induction rule: sys_step.induct)
     (auto simp: rt_generate_def worker_pop_def load_def bindE_def fifo_def simp flip: append.assoc
       split: if_splits sum.splits option.splits dest!: spec [of _ tag])

text \<open>
  Events are neither lost, nor duplicated, nor reordered: in every interleaving of
  generating and working threads, the events handled under a tag followed by those still
  queued are exactly the events generated under that tag, in order.
\<close>

theorem queue_fifo:
  assumes "fifo push pop q0 contents" "sys_reach push pop q0 s"
  shows "handled s tag @ contents (queues_of s tag) = sent s tag"
  using assms(2)
proof (induction arbitrary: tag rule: sys_reach.induct)
  case start
  then show ?case using assms(1) by (simp add: fifo_def)
next
  case (step s s')
  then show ?case using sys_step_keeps [OF step.hyps(2) assms(1)] by blast
qed

theorem queue_fifo_witness:
  "\<exists>s. sys_reach (\<lambda>q m. q @ [m]) (\<lambda>q. case q of [] \<Rightarrow> None | m # q \<Rightarrow> Some (m, q)) [] s \<and>
     sent s 1 = [[Some 4]] \<and> handled s 1 @ queues_of s 1 = [[Some 4]]"
proof -
  let ?push = "\<lambda>(q :: byte list list) m. q @ [m]"
    and ?pop = "\<lambda>q :: byte list list. case q of [] \<Rightarrow> None | m # q \<Rightarrow> Some (m, q)"
  let ?s0 = "\<lparr>queues_of = (\<lambda>_. []), sent = (\<lambda>_. []), handled = (\<lambda>_. [])\<rparr> :: byte list list sys"
  let ?s1 = "?s0\<lparr>queues_of := (\<lambda>_. [])(1 := [[Some (4 :: 8 word)]]),
    sent := (sent ?s0)(1 := sent ?s0 1 @ [take (nat 1) [Some (4 :: 8 word)]])\<rparr>"
  have f: "fifo ?push ?pop [] (\<lambda>q. q)" by (simp add: fifo_def split: list.splits)
  have "sys_step ?push ?pop ?s0 ?s1"
    by (rule sys_step.generate) (simp add: rt_generate_def load_def)
  then have r: "sys_reach ?push ?pop [] ?s1"
    by (rule sys_reach.step [OF sys_reach.start])
  have "sent ?s1 1 = [[Some 4]]" by simp
  with r queue_fifo [OF f r, of 1] show ?thesis by metis
qed

section \<open>Start-up\<close>

text \<open>
  The thread creation loops of \<^verbatim>\<open>main.c\<close>: \<open>reps\<close> is the generated array
  \<^verbatim>\<open>handler_replications\<close>; the result lists the thread slots in creation order with the
  handler each runs.
\<close>

fun spawn :: "nat \<Rightarrow> nat \<Rightarrow> nat list \<Rightarrow> (nat \<times> nat) list" where
  "spawn i num_threads [] = []"
| "spawn i num_threads (r # rs) =
     map (\<lambda>j. (num_threads + j, i)) [0..<r] @ spawn (Suc i) (num_threads + r) rs"

definition start_workers :: "nat list \<Rightarrow> (nat \<times> nat) list" where
  "start_workers reps = spawn 0 0 reps"

lemma spawn_slots: "map fst (spawn i k rs) = [k..<k + sum_list rs]"
proof (induction i k rs rule: spawn.induct)
  case (2 i k r rs)
  have "map ((+) k) [0..<r] = [k..<k + r]" by (induction r) simp_all
  moreover have "[k..<k + (r + sum_list rs)] = [k..<k + r] @ [k + r..<k + r + sum_list rs]"
    using upt_add_eq_append [of k "k + r" "sum_list rs"] by (simp add: add.assoc)
  ultimately show ?case using 2 by (simp add: comp_def)
qed simp

lemma count_list_replicate: "count_list (replicate n x) y = (if x = y then n else 0)"
  by (induction n) auto

lemma count_spawn:
  "count_list (map snd (spawn i k rs)) h = (if i \<le> h \<and> h < i + length rs then rs ! (h - i) else 0)"
proof (induction i k rs rule: spawn.induct)
  case (2 i k r rs)
  have "map snd (spawn i k (r # rs)) = replicate r i @ map snd (spawn (Suc i) (k + r) rs)"
    by (simp add: comp_def map_replicate_const)
  with 2 show ?case by (auto simp: count_list_replicate nth_Cons' Suc_diff_le)
qed simp

text \<open>
  Start-up fills the thread slots \<open>0, 1, 2, ...\<close> without gaps or repetition and gives handler
  \<open>h\<close> exactly as many threads as its replication count; with as many slots as instances no
  index leaves the array.
\<close>

theorem start_workers_slots:
  assumes "h < length reps" "sum_list reps \<le> NUM_INSTANCES"
  shows "map fst (start_workers reps) = [0..<sum_list reps] \<and>
     count_list (map snd (start_workers reps)) h = reps ! h \<and>
     list_all (\<lambda>(slot, i). slot < NUM_INSTANCES) (start_workers reps)"
proof -
  have s: "map fst (start_workers reps) = [0..<sum_list reps]"
    using spawn_slots [of 0 0 reps] by (simp add: start_workers_def)
  then have "fst ` set (start_workers reps) = {0..<sum_list reps}"
    by (metis list.set_map set_upt)
  have "slot < NUM_INSTANCES" if "(slot, i) \<in> set (start_workers reps)" for slot i
  proof -
    have "slot \<in> fst ` set (start_workers reps)" using that by (metis fst_conv image_eqI)
    then show ?thesis using \<open>fst ` _ = _\<close> assms(2) by auto
  qed
  then have "list_all (\<lambda>(slot, i). slot < NUM_INSTANCES) (start_workers reps)"
    by (auto simp: list_all_iff)
  with s assms(1) count_spawn [of 0 0 reps h] show ?thesis by (simp add: start_workers_def)
qed

theorem start_workers_slots_witness:
  "map fst (start_workers [2, 1]) = [0, 1, 2] \<and> count_list (map snd (start_workers [2, 1])) 0 = 2"
  using start_workers_slots [of 0 "[2, 1]" 3] by (simp add: upt_rec)

end
