(* ===== verification/Rte_Common.thy ===== *)
theory Rte_Common
  imports Ep2_Prelude "HOL-Library.Word"
begin

text \<open>
  Alignment and bit searches of the Netronome runtime (\<^verbatim>\<open>include/rte/common.h\<close>), on machine words.
  The compiler builtins they use are undefined at zero, which is the value \<open>None\<close> here.
\<close>

unbundle bit_operations_syntax

type_synonym u8 = "8 word"
type_synonym u16 = "16 word"
type_synonym u32 = "32 word"
type_synonym u64 = "64 word"

section \<open>Alignment macros\<close>

definition RTE_ALIGN_FLOOR :: "'a::len word \<Rightarrow> 'a word \<Rightarrow> 'a word" where
  "RTE_ALIGN_FLOOR val align = val AND NOT (align - 1)"

definition RTE_ALIGN_CEIL :: "'a::len word \<Rightarrow> 'a word \<Rightarrow> 'a word" where
  "RTE_ALIGN_CEIL val align = RTE_ALIGN_FLOOR (val + (align - 1)) align"

definition rte_is_aligned :: "u64 \<Rightarrow> u32 \<Rightarrow> bool" where
  "rte_is_aligned ptr align \<longleftrightarrow> RTE_ALIGN_CEIL ptr (ucast align) = ptr"

section \<open>Powers of two\<close>

definition rte_combine32ms1b :: "u32 \<Rightarrow> u32" where
  "rte_combine32ms1b x =
     (let x = x OR drop_bit 1 x; x = x OR drop_bit 2 x; x = x OR drop_bit 4 x;
          x = x OR drop_bit 8 x; x = x OR drop_bit 16 x
      in x)"

definition rte_combine64ms1b :: "u64 \<Rightarrow> u64" where
  "rte_combine64ms1b v =
     (let v = v OR drop_bit 1 v; v = v OR drop_bit 2 v; v = v OR drop_bit 4 v;
          v = v OR drop_bit 8 v; v = v OR drop_bit 16 v; v = v OR drop_bit 32 v
      in v)"

definition rte_is_power_of_2 :: "u32 \<Rightarrow> bool" where
  "rte_is_power_of_2 n \<longleftrightarrow> n \<noteq> 0 \<and> n AND (n - 1) = 0"

definition rte_align32pow2 :: "u32 \<Rightarrow> u32" where
  "rte_align32pow2 x = rte_combine32ms1b (x - 1) + 1"

definition rte_align32prevpow2 :: "u32 \<Rightarrow> u32" where
  "rte_align32prevpow2 x = (let x = rte_combine32ms1b x in x - drop_bit 1 x)"

definition rte_align64pow2 :: "u64 \<Rightarrow> u64" where
  "rte_align64pow2 v = rte_combine64ms1b (v - 1) + 1"

definition rte_align64prevpow2 :: "u64 \<Rightarrow> u64" where
  "rte_align64prevpow2 v = (let v = rte_combine64ms1b v in v - drop_bit 1 v)"

text \<open>\<open>spread n x y\<close>: bit \<open>i\<close> of \<open>y\<close> says whether \<open>x\<close> has a bit among the \<open>n\<close> from \<open>i\<close> on.\<close>

definition spread :: "nat \<Rightarrow> 'a::len word \<Rightarrow> 'a word \<Rightarrow> bool" where
  "spread n x y \<longleftrightarrow> (\<forall>i. bit y i \<longleftrightarrow> (\<exists>j. i \<le> j \<and> j < i + n \<and> bit x j))"

lemma spread_one: "spread 1 x x"
  by (auto simp: spread_def less_Suc_eq_le dest: le_antisym)

lemma spread_double:
  assumes "spread n x y"
  shows "spread (n + n) x (y OR drop_bit n y)"
  unfolding spread_def
proof
  fix i
  have "bit (y OR drop_bit n y) i \<longleftrightarrow> bit y i \<or> bit y (n + i)"
    by (simp add: bit_or_iff bit_drop_bit_eq)
  also have "\<dots> \<longleftrightarrow> (\<exists>j. i \<le> j \<and> j < i + (n + n) \<and> bit x j)"
  proof
    assume "bit y i \<or> bit y (n + i)"
    then show "\<exists>j. i \<le> j \<and> j < i + (n + n) \<and> bit x j"
      using assms by (fastforce simp: spread_def)
  next
    assume "\<exists>j. i \<le> j \<and> j < i + (n + n) \<and> bit x j"
    then obtain j where "i \<le> j" "j < i + (n + n)" "bit x j" by blast
    then have "i \<le> j \<and> j < i + n \<and> bit x j \<or> n + i \<le> j \<and> j < n + i + n \<and> bit x j" by linarith
    then show "bit y i \<or> bit y (n + i)"
      using assms by (auto simp: spread_def)
  qed
  finally show "bit (y OR drop_bit n y) i \<longleftrightarrow> (\<exists>j. i \<le> j \<and> j < i + (n + n) \<and> bit x j)" .
qed

lemma bit_iff_unat: "bit (x :: 'a::len word) i \<longleftrightarrow> odd (unat x div 2 ^ i)"
  by (simp add: bit_unsigned_iff bit_iff_odd [symmetric] flip: bit_iff_odd)

text \<open>The position of the most significant bit.\<close>

lemma msb_exists:
  fixes x :: "'a::len word"
  assumes "x \<noteq> 0"
  obtains m where "m < LENGTH('a)" "2 ^ m \<le> unat x" "unat x < 2 ^ Suc m"
proof -
  have "0 < unat x"
    using assms by (simp add: unat_gt_0)
  then obtain m where m: "2 ^ m \<le> unat x" "unat x < 2 ^ (m + 1)"
    using ex_power_ivl1 [of 2 "unat x"] by auto
  have "(2::nat) ^ m < 2 ^ LENGTH('a)"
    using m(1) unsigned_less [of x] by (rule le_less_trans)
  then have "m < LENGTH('a)"
    by simp
  with m that show thesis
    by simp
qed

lemma bits_below_msb:
  fixes x :: "'a::len word"
  assumes "2 ^ m \<le> unat x" and "unat x < 2 ^ Suc m"
  shows "(\<exists>j \<ge> i. bit x j) \<longleftrightarrow> i \<le> m"
proof
  assume "\<exists>j \<ge> i. bit x j"
  then obtain j where "i \<le> j" "bit x j" by blast
  then have "unat x div 2 ^ j \<noteq> 0"
    by (auto simp: bit_iff_unat odd_pos)
  then have "(2::nat) ^ j \<le> unat x"
    by (simp add: div_eq_0_iff not_less)
  with assms(2) have "(2::nat) ^ j < 2 ^ Suc m"
    by simp
  then have "j < Suc m"
    by (simp only: power_strict_increasing_iff)
  with \<open>i \<le> j\<close> show "i \<le> m" by simp
next
  assume "i \<le> m"
  have "unat x div 2 ^ m = 1"
    using assms by (intro div_nat_eqI) simp_all
  then have "bit x m" by (simp add: bit_iff_unat)
  with \<open>i \<le> m\<close> show "\<exists>j \<ge> i. bit x j" by blast
qed

lemma unat_mask: "n \<le> LENGTH('a) \<Longrightarrow> unat (mask n :: 'a::len word) = 2 ^ n - 1"
proof -
  assume "n \<le> LENGTH('a)"
  then have "unat (mask n :: 'a word) = mask n"
    by (intro bit_eqI) (auto simp: bit_unsigned_iff bit_mask_iff)
  then show ?thesis
    by (simp add: mask_eq_exp_minus_1)
qed

lemma spread_all_value:
  fixes x :: "'a::len word"
  assumes "spread LENGTH('a) x y" and "2 ^ m \<le> unat x" and "unat x < 2 ^ Suc m" and "m < LENGTH('a)"
  shows "y = mask (Suc m)" and "unat y = 2 ^ Suc m - 1"
proof -
  have "bit y i \<longleftrightarrow> (\<exists>j \<ge> i. bit x j)" for i
    using assms(1) unfolding spread_def
    by (metis bit_imp_le_length le_add2 order_less_le_trans trans_less_add2)
  then show y: "y = mask (Suc m)"
    using bits_below_msb [OF assms(2,3)] assms(4)
    by (intro bit_word_eqI) (auto simp: bit_mask_iff)
  show "unat y = 2 ^ Suc m - 1"
    unfolding y using assms(4) by (intro unat_mask) simp
qed

lemma spread_step: "spread n x y \<Longrightarrow> m = n + n \<Longrightarrow> spread m x (y OR drop_bit n y)"
  using spread_double by simp

lemma combine32_spread: "spread 32 x (rte_combine32ms1b x)"
  unfolding rte_combine32ms1b_def Let_def
  by (rule spread_step [where n = 16], rule spread_step [where n = 8], rule spread_step [where n = 4],
      rule spread_step [where n = 2], rule spread_step [where n = 1], rule spread_one) simp_all

lemma combine64_spread: "spread 64 x (rte_combine64ms1b x)"
  unfolding rte_combine64ms1b_def Let_def
  by (rule spread_step [where n = 32], rule spread_step [where n = 16], rule spread_step [where n = 8],
      rule spread_step [where n = 4], rule spread_step [where n = 2], rule spread_step [where n = 1],
      rule spread_one) simp_all

section \<open>What they compute\<close>

lemma pow2_above:
  fixes x :: "'a::len word"
  assumes y: "spread LENGTH('a) (x - 1) y" and x: "0 < unat x" "unat x \<le> 2 ^ (LENGTH('a) - 1)" and w: "1 < LENGTH('a)"
  shows "\<exists>k < LENGTH('a). unat (y + 1) = 2 ^ k \<and> unat x \<le> 2 ^ k \<and> 2 ^ k < 2 * unat x"
proof (cases "unat x = 1")
  case True
  then have "x = 1"
    by (simp add: word_unat_eq_iff)
  then have "x - 1 = 0"
    by simp
  with y have "\<not> bit y i" for i
    by (simp add: spread_def)
  then have "y = 0"
    by (intro bit_word_eqI) simp
  with True show ?thesis
    using w by (intro exI [of _ 0]) simp
next
  case False
  have sub: "unat (x - 1) = unat x - 1"
    using x(1) by (intro unat_minus_one) auto
  have "x - 1 \<noteq> 0"
    using False by auto
  then obtain m where m: "m < LENGTH('a)" "2 ^ m \<le> unat (x - 1)" "unat (x - 1) < 2 ^ Suc m"
    by (rule msb_exists)
  have "(2::nat) ^ m < 2 ^ (LENGTH('a) - 1)"
    using m(2) sub x by linarith
  then have "m < LENGTH('a) - 1"
    by (simp only: power_strict_increasing_iff)
  then have Suc_m: "Suc m < LENGTH('a)"
    by simp
  have "unat y = 2 ^ Suc m - 1"
    using spread_all_value(2) [OF y m(2,3,1)] .
  moreover have "(2::nat) ^ Suc m < 2 ^ LENGTH('a)"
    using Suc_m by (rule power_strict_increasing) simp
  ultimately have "unat (y + 1) = 2 ^ Suc m"
    by (simp add: unat_word_ariths)
  with m(2,3) sub x(1) Suc_m show ?thesis
    by (intro exI [of _ "Suc m"]) auto
qed

lemma pow2_above_wraps:
  fixes x :: "'a::len word"
  assumes y: "spread LENGTH('a) (x - 1) y" and x: "x = 0 \<or> 2 ^ (LENGTH('a) - 1) < unat x"
  shows "y + 1 = 0"
proof -
  have big: "2 ^ (LENGTH('a) - 1) \<le> unat (x - 1)"
  proof (cases "x = 0")
    case True
    then have "unat (x - 1) = 2 ^ LENGTH('a) - 1"
      by (simp add: unsigned_minus_1_eq_mask mask_eq_exp_minus_1)
    moreover have "(2::nat) ^ (LENGTH('a) - 1) < 2 ^ LENGTH('a)"
      by (rule power_strict_increasing) simp_all
    ultimately show ?thesis by linarith
  next
    case False
    then have "unat (x - 1) = unat x - 1"
      by (rule unat_minus_one)
    with False x show ?thesis by simp
  qed
  have "y = mask LENGTH('a)"
    using spread_all_value(1) [OF y big] by simp
  then show ?thesis
    by (simp add: mask_eq_exp_minus_1)
qed

section \<open>Bit searches\<close>

text \<open>
  \<^verbatim>\<open>__builtin_ctz\<close> and \<^verbatim>\<open>__builtin_clz\<close> count trailing and leading zeros; on zero they are undefined,
  which is \<open>None\<close> here and in the functions built on them.
\<close>

definition builtin_ctz :: "'a::len word \<Rightarrow> nat option" where
  "builtin_ctz v = List.find (bit v) [0..<LENGTH('a)]"

definition builtin_clz :: "'a::len word \<Rightarrow> nat option" where
  "builtin_clz v = List.find (\<lambda>i. bit v (LENGTH('a) - 1 - i)) [0..<LENGTH('a)]"

definition rte_bsf32 :: "u32 \<Rightarrow> u32 option" where
  "rte_bsf32 v = map_option word_of_nat (builtin_ctz v)"

text \<open>The result and what is written to \<open>pos\<close>, if anything.\<close>

definition rte_bsf32_safe :: "u64 \<Rightarrow> (nat \<times> u32 option) option" where
  "rte_bsf32_safe v =
     (if v = 0 then Some (0, None) else map_option (\<lambda>p. (1, Some p)) (rte_bsf32 (ucast v)))"

definition rte_log2_u32 :: "u32 \<Rightarrow> u32 option" where
  "rte_log2_u32 v = (if v = 0 then Some 0 else rte_bsf32 (rte_align32pow2 v))"

definition rte_fls_u32 :: "u32 \<Rightarrow> nat option" where
  "rte_fls_u32 x = (if x = 0 then Some 0 else map_option (\<lambda>n. 32 - n) (builtin_clz x))"

definition rte_bsf64 :: "u64 \<Rightarrow> u32 option" where
  "rte_bsf64 v = map_option word_of_nat (builtin_ctz v)"

definition rte_bsf64_safe :: "u64 \<Rightarrow> (nat \<times> u32 option) option" where
  "rte_bsf64_safe v = (if v = 0 then Some (0, None) else map_option (\<lambda>p. (1, Some p)) (rte_bsf64 v))"

definition rte_fls_u64 :: "u64 \<Rightarrow> nat option" where
  "rte_fls_u64 x = (if x = 0 then Some 0 else map_option (\<lambda>n. 64 - n) (builtin_clz x))"

definition rte_log2_u64 :: "u64 \<Rightarrow> u32 option" where
  "rte_log2_u64 v = (if v = 0 then Some 0 else rte_bsf64 (rte_align64pow2 v))"

lemma ctz_power:
  fixes v :: "'a::len word"
  assumes "unat v = 2 ^ k"
  shows "builtin_ctz v = Some k"
proof -
  have "(2::nat) ^ k < 2 ^ LENGTH('a)"
    using unsigned_less [of v] assms by (metis (no_types))
  then have "k < LENGTH('a)" by simp
  moreover have "bit v i \<longleftrightarrow> i = k" for i
    unfolding bit_iff_unat assms bit_iff_odd [symmetric] by (auto simp: bit_exp_iff)
  ultimately show ?thesis
    by (simp add: builtin_ctz_def find_upt_least)
qed

lemma ctz_zero: "builtin_ctz v = None \<longleftrightarrow> v = 0"
  unfolding builtin_ctz_def find_upt_None
  by (metis bit_imp_le_length bit_word_eqI bit_0_eq bot_apply bot_bool_def)

section \<open>Claims on the bit utilities\<close>

lemma align32_cases:
  "0 < unat x \<Longrightarrow> unat x \<le> 2 ^ 31 \<Longrightarrow>
     \<exists>k < 32. unat (rte_align32pow2 x) = 2 ^ k \<and> unat x \<le> 2 ^ k \<and> 2 ^ k < 2 * unat x"
  "x = 0 \<or> 2 ^ 31 < unat x \<Longrightarrow> rte_align32pow2 x = 0"
  using pow2_above [of x "rte_combine32ms1b (x - 1)"] pow2_above_wraps [of x "rte_combine32ms1b (x - 1)"]
    combine32_spread [of "x - 1"]
  unfolding rte_align32pow2_def by simp_all

lemma align64_cases:
  "0 < unat x \<Longrightarrow> unat x \<le> 2 ^ 63 \<Longrightarrow>
     \<exists>k < 64. unat (rte_align64pow2 x) = 2 ^ k \<and> unat x \<le> 2 ^ k \<and> 2 ^ k < 2 * unat x"
  "x = 0 \<or> 2 ^ 63 < unat x \<Longrightarrow> rte_align64pow2 x = 0"
  using pow2_above [of x "rte_combine64ms1b (x - 1)"] pow2_above_wraps [of x "rte_combine64ms1b (x - 1)"]
    combine64_spread [of "x - 1"]
  unfolding rte_align64pow2_def by simp_all

text \<open>
  C35: \<^verbatim>\<open>rte_align32pow2\<close> returns the smallest power of two that is not below its argument, and zero
  when there is none in 32 bits or the argument is zero.
\<close>

theorem rte_align32pow2_least:
  "if 0 < unat x \<and> unat x \<le> 2 ^ 31
   then \<exists>k. unat (rte_align32pow2 x) = 2 ^ k \<and> unat x \<le> 2 ^ k \<and> 2 ^ k < 2 * unat x
   else rte_align32pow2 x = 0"
  using align32_cases [of x] by (auto simp: not_le unat_gt_0)

text \<open>
  \<^verbatim>\<open>rte_log2_u32\<close> is the logarithm rounded up for arguments up to \<open>2 ^ 31\<close>; above that it asks for
  the trailing zeros of zero, which is undefined.
\<close>

theorem rte_log2_u32_result:
  "if x = 0 then rte_log2_u32 x = Some 0
   else if unat x \<le> 2 ^ 31
   then \<exists>k < 32. rte_log2_u32 x = Some (word_of_nat k) \<and> unat x \<le> 2 ^ k \<and> 2 ^ k < 2 * unat x
   else rte_log2_u32 x = None"
proof -
  have "rte_log2_u32 x = Some (word_of_nat k)" if "x \<noteq> 0" "unat (rte_align32pow2 x) = 2 ^ k" for k
    using that by (simp add: rte_log2_u32_def rte_bsf32_def ctz_power)
  moreover have "rte_log2_u32 x = None" if "x \<noteq> 0" "rte_align32pow2 x = 0"
    using that by (simp add: rte_log2_u32_def rte_bsf32_def ctz_zero)
  ultimately show ?thesis
    using align32_cases [of x] by (cases "x = 0") (auto simp: not_le unat_gt_0 rte_log2_u32_def)
qed

text \<open>
  \<^verbatim>\<open>rte_bsf32_safe\<close> takes a 64-bit value but searches its low half: a value with bits only in
  the high half passes the zero test and the search is undefined.
\<close>

theorem rte_bsf32_safe_undefined:
  "rte_bsf32_safe v = None \<longleftrightarrow> v \<noteq> 0 \<and> unat v mod 2 ^ 32 = 0"
proof -
  have "unat (ucast v :: u32) = unat v mod 2 ^ 32"
    by (simp add: unsigned_ucast_eq take_bit_eq_mod)
  then have "(ucast v :: u32) = 0 \<longleftrightarrow> unat v mod 2 ^ 32 = 0"
    by (simp add: word_unat_eq_iff)
  then show ?thesis
    by (simp add: rte_bsf32_safe_def rte_bsf32_def ctz_zero)
qed

text \<open>Powers of two and the most significant bit.\<close>

lemma prevpow2:
  fixes x :: "'a::len word"
  assumes y: "spread LENGTH('a) x y" and x: "x \<noteq> 0"
  shows "\<exists>k < LENGTH('a). unat (y - drop_bit 1 y) = 2 ^ k \<and> 2 ^ k \<le> unat x \<and> unat x < 2 ^ Suc k"
proof -
  obtain m where m: "m < LENGTH('a)" "2 ^ m \<le> unat x" "unat x < 2 ^ Suc m"
    using x by (rule msb_exists)
  have uy: "unat y = 2 ^ Suc m - 1"
    using spread_all_value(2) [OF y m(2,3,1)] .
  have "unat (drop_bit 1 y) = unat y div 2"
    by (subst unat_drop_bit_eq) (simp add: drop_bit_eq_div)
  moreover have "(2 ^ Suc m - 1) div 2 = (2 ^ m - 1 :: nat)"
    by (cases "(2::nat) ^ m") simp_all
  ultimately have half: "unat (drop_bit 1 y) = 2 ^ m - 1"
    using uy by simp
  then have "drop_bit 1 y \<le> y"
    using uy by (simp add: word_le_nat_alt)
  then have "unat (y - drop_bit 1 y) = unat y - unat (drop_bit 1 y)"
    by (rule unat_sub)
  with uy half m show ?thesis
    by (intro exI [of _ m]) auto
qed

lemma rte_align32prevpow2_greatest:
  "if x = 0 then rte_align32prevpow2 x = 0
   else \<exists>k. unat (rte_align32prevpow2 x) = 2 ^ k \<and> 2 ^ k \<le> unat x \<and> unat x < 2 ^ Suc k"
  using prevpow2 [of x "rte_combine32ms1b x"] combine32_spread [of x]
  by (auto simp: rte_align32prevpow2_def Let_def rte_combine32ms1b_def)

lemma rte_is_power_of_2_iff: "rte_is_power_of_2 n \<longleftrightarrow> (\<exists>k. unat n = 2 ^ k)"
proof (cases "n = 0")
  case False
  obtain m where m: "m < 32" "2 ^ m \<le> unat n" "unat n < 2 ^ Suc m"
    using msb_exists [OF False] by auto
  show ?thesis
  proof (cases "unat n = 2 ^ m")
    case True
    have "n = word_of_nat (unat n)"
      by simp
    then have n: "n = 2 ^ m"
      by (simp only: True of_nat_power of_nat_numeral)
    have "n AND mask m = 0"
      unfolding n by (rule bit_word_eqI) (auto simp: bit_and_iff bit_exp_iff bit_mask_iff)
    then show ?thesis
      using True False by (auto simp: rte_is_power_of_2_def n mask_eq_exp_minus_1)
  next
    case False
    then have "2 ^ m \<le> unat (n - 1)" "unat (n - 1) < 2 ^ Suc m"
      using m \<open>n \<noteq> 0\<close> by (auto simp: unat_minus_one)
    then have "unat (n - 1) div 2 ^ m = 1" "unat n div 2 ^ m = 1"
      using m by (auto intro!: div_nat_eqI)
    then have "bit n m" "bit (n - 1) m"
      by (simp_all add: bit_iff_unat)
    then have "bit (n AND (n - 1)) m"
      by (simp only: bit_and_iff)
    then have "n AND (n - 1) \<noteq> 0"
      by auto
    moreover have "unat n \<noteq> 2 ^ k" for k
    proof
      assume k: "unat n = 2 ^ k"
      then have "m \<le> k" "k < Suc m"
        using m by (simp_all add: power_strict_increasing_iff del: power_Suc)
      then have "k = m" by simp
      with k False show "False" by simp
    qed
    ultimately show ?thesis
      by (simp add: rte_is_power_of_2_def)
  qed
qed (simp add: rte_is_power_of_2_def)

text \<open>Alignment to a power of two.\<close>

lemma align_floor_value:
  fixes v :: "'a::len word"
  assumes "k < LENGTH('a)"
  shows "unat (RTE_ALIGN_FLOOR v (2 ^ k)) = unat v - unat v mod 2 ^ k"
proof -
  have "RTE_ALIGN_FLOOR v (2 ^ k) = push_bit k (drop_bit k v)"
    unfolding RTE_ALIGN_FLOOR_def mask_eq_exp_minus_1 [symmetric]
    by (rule bit_word_eqI) (auto simp: bit_and_iff bit_not_iff bit_mask_iff bit_push_bit_iff bit_drop_bit_eq)
  then have "unat (RTE_ALIGN_FLOOR v (2 ^ k)) = take_bit LENGTH('a) (push_bit k (drop_bit k (unat v)))"
    by (simp add: unsigned_push_bit_eq unat_drop_bit_eq)
  also have "\<dots> = (unat v div 2 ^ k * 2 ^ k) mod 2 ^ LENGTH('a)"
    by (simp add: take_bit_eq_mod push_bit_eq_mult drop_bit_eq_div)
  also have "\<dots> = unat v - unat v mod 2 ^ k"
  proof -
    have "unat v - unat v mod 2 ^ k < 2 ^ LENGTH('a)"
      by (rule le_less_trans [OF diff_le_self unsigned_less])
    then show ?thesis
      by (simp add: minus_mod_eq_div_mult [symmetric])
  qed
  finally show ?thesis .
qed

text \<open>
  rounding up to a power of two gives the next multiple when that still fits, and zero when it
  does not.
\<close>

theorem RTE_ALIGN_CEIL_result:
  fixes v :: u64
  assumes "k < 64"
  shows "unat (RTE_ALIGN_CEIL v (2 ^ k)) =
    (if unat v + (2 ^ k - 1) < 2 ^ 64 then (unat v + (2 ^ k - 1)) div 2 ^ k * 2 ^ k else 0)"
proof -
  let ?w = "v + (2 ^ k - 1)"
  have m: "unat (2 ^ k - 1 :: u64) = 2 ^ k - 1"
    using unat_mask [of k, where 'a = 64] assms by (simp add: mask_eq_exp_minus_1)
  have floor: "unat (RTE_ALIGN_CEIL v (2 ^ k)) = unat ?w div 2 ^ k * 2 ^ k"
    using align_floor_value [of k ?w] assms by (simp add: RTE_ALIGN_CEIL_def minus_mod_eq_div_mult)
  show ?thesis
  proof (cases "unat v + (2 ^ k - 1) < 2 ^ 64")
    case True
    then have "unat ?w = unat v + (2 ^ k - 1)"
      using m by (simp add: unat_word_ariths)
    with floor True show ?thesis by simp
  next
    case False
    have "unat v < 2 ^ 64" "(2::nat) ^ k < 2 ^ 64"
      using unsigned_less [of v] power_strict_increasing [OF assms, of "2::nat"] by simp_all
    with False have "unat ?w = unat v + (2 ^ k - 1) - 2 ^ 64"
      using m by (simp add: unat_plus_if_size word_size not_less)
    then have "unat ?w < 2 ^ k"
      using \<open>unat v < 2 ^ 64\<close> zero_less_power [of "2::nat" k] by linarith
    with floor False show ?thesis by simp
  qed
qed

theorem RTE_ALIGN_CEIL_result_witness:
  "unat (RTE_ALIGN_CEIL (4097 :: u64) (2 ^ 12)) = 8192"
  using RTE_ALIGN_CEIL_result [of 12 4097] by simp

end
