(* ===== verification/Handler_Deps.thy ===== *)
theory Handler_Deps
  imports Ep2_IR
begin

text \<open>
  The analysis of the dependencies between handlers (\<^verbatim>\<open>lib/ep2/HandlerDependencyAnalysis.cpp\<close> and
  its class in \<^verbatim>\<open>Passes.h\<close>): names of handlers, the graph of generated events, its connected
  components and their order.
\<close>

section \<open>Names of handlers\<close>

datatype full_name = HandlerFullName (event: string) (atom: string)

instantiation full_name :: linorder
begin

definition less_full_name :: "full_name \<Rightarrow> full_name \<Rightarrow> bool" where
  "l < r \<longleftrightarrow> event l < event r \<or> event l = event r \<and> atom l < atom r"

definition less_eq_full_name :: "full_name \<Rightarrow> full_name \<Rightarrow> bool" where
  "l \<le> r \<longleftrightarrow> l < r \<or> l = (r :: full_name)"

instance
proof
  fix x y z :: full_name
  show "x < y \<longleftrightarrow> x \<le> y \<and> \<not> y \<le> x" "x \<le> x" "x \<le> y \<Longrightarrow> y \<le> z \<Longrightarrow> x \<le> z" "x \<le> y \<Longrightarrow> y \<le> x \<Longrightarrow> x = y"
    by (auto simp: less_full_name_def less_eq_full_name_def)
  show "x \<le> y \<or> y \<le> x"
    using full_name.expand [of x y] neq_iff [of "event x" "event y"] neq_iff [of "atom x" "atom y"]
    by (auto simp: less_full_name_def less_eq_full_name_def)
qed

end

definition mangle :: "full_name \<Rightarrow> string" where
  "mangle n = ''__handler_'' @ event n @ (if atom n = '''' then '''' else ''_'' @ atom n)"

definition join :: "full_name \<Rightarrow> string" where
  "join n = event n @ (if atom n = '''' then '''' else '':'' @ atom n)"

text \<open>
  An operation is known to the code by its address. A module is the list of its functions with
  their addresses, in the order of the file; \<open>types\<close> gives the type of every value.
\<close>

type_synonym addr = nat

type_synonym graph = "(addr, addr list) omap"

text \<open>\<^verbatim>\<open>getDefiningOp\<close>: null for an argument of the function.\<close>

definition getDefiningOp :: "op list \<Rightarrow> val \<Rightarrow> op option" where
  "getDefiningOp body v = find (\<lambda>p. v \<in> set (op_results p)) (walk_ops body)"

definition fullNameOfFunc :: "func_op \<Rightarrow> 's \<Rightarrow> (full_name, 's) outcome" where
  "fullNameOfFunc f s = (case map_of (fn_attrs f) ''event'' of
     Some (StrAttr e) \<Rightarrow>
       Ok (HandlerFullName e (case map_of (fn_attrs f) ''atom'' of Some (StrAttr a) \<Rightarrow> a | _ \<Rightarrow> '''')) s
   | _ \<Rightarrow> Crash AssertFail)"

definition setWithInit :: "(val \<Rightarrow> ty) \<Rightarrow> op list \<Rightarrow> op \<Rightarrow> 's \<Rightarrow> (full_name, 's) outcome" where
  "setWithInit types body p s = (case (op_results p, op_operands p) of
     (r # _, x # _) \<Rightarrow>
       (case types r of
          StructType True _ e \<Rightarrow>
            (case getDefiningOp body x of
               Some (Op (ConstantOp a) _ _ _) \<Rightarrow>
                 (case a of StrAttr n \<Rightarrow> Ok (HandlerFullName e n) s | _ \<Rightarrow> Crash AssertFail)
             | _ \<Rightarrow> Ok (HandlerFullName e '''') s)
        | _ \<Rightarrow> Crash AssertFail)
   | _ \<Rightarrow> Crash AssertFail)"

definition fullNameOfReturn :: "(val \<Rightarrow> ty) \<Rightarrow> op list \<Rightarrow> op \<Rightarrow> 's \<Rightarrow> (full_name, 's) outcome" where
  "fullNameOfReturn types body p s = (case op_operands p of
     x # _ \<Rightarrow>
       (case getDefiningOp body x of
          Some d \<Rightarrow> if op_kind d = InitOp then setWithInit types body d s else Crash AssertFail
        | None \<Rightarrow> Crash AssertFail)
   | [] \<Rightarrow> Crash AssertFail)"

section \<open>The analysis\<close>

record deps =
  graph :: graph
  subGraphs :: "graph list"
  subGraphsOrder :: "addr list list"
  eventDeps :: "(string \<times> string) set"
  handlersMap :: "(full_name, addr) omap"
  controllersMap :: "(full_name, addr) omap"
  externForwards :: "(string, full_name list) omap"
  extern_forward :: "addr set"

definition deps0 :: deps where
  "deps0 = \<lparr>graph = [], subGraphs = [], subGraphsOrder = [], eventDeps = {}, handlersMap = [],
     controllersMap = [], externForwards = [], extern_forward = {}\<rparr>"

definition emplace :: "'k::linorder \<Rightarrow> 'v \<Rightarrow> ('k, 'v) omap \<Rightarrow> ('k, 'v) omap" where
  "emplace k v m = (if map_of m k = None then insert_or_assign k v m else m)"

text \<open>\<^verbatim>\<open>operator[]\<close>, whose default is the empty list.\<close>

definition at :: "('k, 'v list) omap \<Rightarrow> 'k \<Rightarrow> 'v list" where
  "at m k = (case map_of m k of Some v \<Rightarrow> v | None \<Rightarrow> [])"

definition lookupHandler :: "deps \<Rightarrow> full_name \<Rightarrow> addr option" where
  "lookupHandler d n = (case map_of (handlersMap d) n of
     Some f \<Rightarrow> Some f
   | None \<Rightarrow> map_option snd (find (\<lambda>p. event (fst p) = event n \<and> atom (fst p) = '''') (handlersMap d)))"

definition lookupController :: "deps \<Rightarrow> full_name \<Rightarrow> addr option" where
  "lookupController d n = map_option snd (find (\<lambda>p. event (fst p) = event n) (controllersMap d))"

fun addControllers :: "(addr \<times> func_op) list \<Rightarrow> deps \<Rightarrow> (unit, deps) outcome" where
  "addControllers [] d = Ok () d"
| "addControllers ((a, f) # fs) d =
     thenP (fullNameOfFunc f d) (\<lambda>n d. addControllers fs (d\<lparr>controllersMap := emplace n a (controllersMap d)\<rparr>))"

fun addHandlers :: "(addr \<times> func_op) list \<Rightarrow> deps \<Rightarrow> (unit, deps) outcome" where
  "addHandlers [] d = Ok () d"
| "addHandlers ((a, f) # fs) d =
     thenP (fullNameOfFunc f d) (\<lambda>n d. addHandlers fs (d\<lparr>handlersMap := emplace n a (handlersMap d)\<rparr>))"

text \<open>The events a function generates: its returns with one operand.\<close>

fun returnNames :: "(val \<Rightarrow> ty) \<Rightarrow> op list \<Rightarrow> op list \<Rightarrow> 's \<Rightarrow> (full_name list, 's) outcome" where
  "returnNames types body [] s = Ok [] s"
| "returnNames types body (p # ps) s =
     (if op_kind p = ReturnOp \<and> length (op_operands p) = 1
      then thenP (fullNameOfReturn types body p s) (\<lambda>n s.
           thenP (returnNames types body ps s) (\<lambda>ns s. Ok (n # ns) s))
      else returnNames types body ps s)"

definition markForward :: "deps \<Rightarrow> full_name \<Rightarrow> deps" where
  "markForward d n = (case lookupHandler d n of
     Some f \<Rightarrow> d\<lparr>extern_forward := insert f (extern_forward d)\<rparr> | None \<Rightarrow> d)"

definition addExtern :: "addr \<Rightarrow> full_name \<Rightarrow> full_name list \<Rightarrow> deps \<Rightarrow> deps" where
  "addExtern a from to d =
     (let d = (if to \<noteq> [] then d\<lparr>extern_forward := insert a (extern_forward d)\<rparr> else d);
          d = foldl markForward d to
      in d\<lparr>externForwards := emplace (event from) to (externForwards d)\<rparr>)"

text \<open>
  The loop over the forwards of an external handler searches for \<open>target\<close> again, not for the name
  it has built.
\<close>

fun forwardTargets :: "deps \<Rightarrow> full_name \<Rightarrow> full_name list \<Rightarrow> addr list \<Rightarrow> addr list" where
  "forwardTargets d target [] targets = targets"
| "forwardTargets d target (target2 # rest) targets = (case map_of (handlersMap d) target of
     Some f \<Rightarrow> forwardTargets d target rest (targets @ [f])
   | None \<Rightarrow> forwardTargets d target rest targets)"

definition externAt :: "(addr \<times> func_op) list \<Rightarrow> addr \<Rightarrow> bool" where
  "externAt moduleOp a = (case map_of moduleOp a of Some f \<Rightarrow> isExtern f | None \<Rightarrow> False)"

fun addTargets ::
    "(addr \<times> func_op) list \<Rightarrow> full_name \<Rightarrow> full_name list \<Rightarrow> addr list \<Rightarrow> deps \<Rightarrow> (addr list, deps) outcome" where
  "addTargets fs from [] targets d = Ok targets d"
| "addTargets fs from (target # to) targets d =
     (let d = d\<lparr>eventDeps := insert (event from, event target) (eventDeps d)\<rparr>
      in case map_of (handlersMap d) target of
           Some f \<Rightarrow> addTargets fs from to (targets @ [f]) d
         | None \<Rightarrow>
             (case find (\<lambda>p. event (fst p) = event target \<and> atom (fst p) = '''') (handlersMap d) of
                None \<Rightarrow> Crash NullDeref
              | Some (n, f) \<Rightarrow>
                  (let targets = targets @ [f]
                   in if externAt fs f
                      then addTargets fs from to
                             (forwardTargets d target (at (externForwards d) (event target)) targets) d
                      else addTargets fs from to targets d)))"

fun addFunctions ::
    "(val \<Rightarrow> ty) \<Rightarrow> (addr \<times> func_op) list \<Rightarrow> (addr \<times> func_op) list \<Rightarrow> deps \<Rightarrow> (unit, deps) outcome" where
  "addFunctions types fs [] d = Ok () d"
| "addFunctions types fs ((a, f) # rest) d =
     thenP (fullNameOfFunc f d) (\<lambda>from d.
     thenP (returnNames types (fn_body f) (walk_ops (fn_body f)) d) (\<lambda>to d.
     if isExtern f then addFunctions types fs rest (addExtern a from to d)
     else thenP (addTargets fs from to [] d) (\<lambda>targets d.
       addFunctions types fs rest (d\<lparr>graph := insert_or_assign a targets (graph d)\<rparr>))))"

section \<open>Connected components\<close>

text \<open>The loop over the edges: in-degrees, and the undirected graph.\<close>

fun addEdges :: "addr \<Rightarrow> addr list \<Rightarrow> graph \<times> (addr \<Rightarrow> int) \<Rightarrow> graph \<times> (addr \<Rightarrow> int)" where
  "addEdges h [] (und, inDegree) = (und, inDegree)"
| "addEdges h (t # ts) (und, inDegree) =
     addEdges h ts
       ((let es = at und t in insert_or_assign t (if h \<in> set es then es else es @ [h]) und),
        inDegree(t := inDegree t + 1))"

definition undirected :: "graph \<Rightarrow> graph \<times> (addr \<Rightarrow> int)" where
  "undirected g = foldl (\<lambda>s (h, es). addEdges h es s) (g, \<lambda>_. 0) g"

record component =
  color :: "addr \<Rightarrow> nat"
  subGraph :: graph
  nodes :: "addr list"

definition vertices :: "graph \<Rightarrow> addr set" where
  "vertices g = set (map fst g) \<union> set (concat (map snd g))"

lemma at_vertices: "set (at g v) \<subseteq> vertices g"
  by (cases "map_of g v") (force simp: at_def vertices_def dest: map_of_SomeD)+

definition uncoloured :: "graph \<Rightarrow> (addr \<Rightarrow> nat) \<Rightarrow> addr set" where
  "uncoloured und c = {v \<in> vertices und. c v = 0}"

lemma finite_uncoloured [simp]: "finite (uncoloured und c)"
  by (simp add: uncoloured_def vertices_def)

text \<open>
  The traversal colours a vertex when it leaves the worklist, so a vertex may enter more than once.
  The colour is \<open>Suc c\<close>: colours start at one.
\<close>

function bfs :: "graph \<Rightarrow> graph \<Rightarrow> (addr \<Rightarrow> int) \<Rightarrow> nat \<Rightarrow> addr list \<Rightarrow> component \<Rightarrow> component" where
  "bfs g und inDegree c [] s = s"
| "bfs g und inDegree c (cur # worklist) s =
     (let s = s\<lparr>subGraph := insert_or_assign cur (at g cur) (subGraph s),
                nodes := (if inDegree cur = 0 then nodes s @ [cur] else nodes s),
                color := (color s)(cur := Suc c)\<rparr>
      in bfs g und inDegree c (worklist @ filter (\<lambda>t. color s t = 0) (at und cur)) s)"
  by pat_completeness auto
termination
proof (relation "measures
    [\<lambda>(g, und, inDegree, c, wl, s). card (uncoloured und (color s)),
     \<lambda>(g, und, inDegree, c, wl, s). length (filter (\<lambda>v. v \<notin> uncoloured und (color s)) wl)]")
  fix g und :: graph and inDegree :: "addr \<Rightarrow> int" and c cur and worklist :: "addr list" and s x :: component
  assume x: "x = s\<lparr>subGraph := insert_or_assign cur (at g cur) (subGraph s),
                nodes := (if inDegree cur = 0 then nodes s @ [cur] else nodes s),
                color := (color s)(cur := Suc c)\<rparr>"
  let ?U = "uncoloured und (color s)" and ?U' = "uncoloured und (color x)"
  have U': "?U' = ?U - {cur}"
    by (auto simp: uncoloured_def x)
  have new: "filter (\<lambda>v. v \<notin> ?U') (filter (\<lambda>t. color x t = 0) (at und cur)) = []"
    using at_vertices [of und cur] by (auto simp: filter_empty_conv uncoloured_def)
  show "((g, und, inDegree, c, worklist @ filter (\<lambda>t. color x t = 0) (at und cur), x),
      g, und, inDegree, c, cur # worklist, s) \<in> measures
    [\<lambda>(g, und, inDegree, c, wl, s). card (uncoloured und (color s)),
     \<lambda>(g, und, inDegree, c, wl, s). length (filter (\<lambda>v. v \<notin> uncoloured und (color s)) wl)]"
  proof (cases "cur \<in> ?U")
    case True
    then have "card ?U' < card ?U"
      unfolding U' by (intro card_Diff1_less) auto
    then show ?thesis by simp
  next
    case False
    then have "?U' = ?U" unfolding U' by simp
    with False new show ?thesis by simp
  qed
qed auto

text \<open>Components, their first vertices in the order of the traversal.\<close>

fun components ::
    "graph \<Rightarrow> graph \<Rightarrow> (addr \<Rightarrow> int) \<Rightarrow> nat \<Rightarrow> addr list \<Rightarrow> (addr \<Rightarrow> nat) \<Rightarrow> (graph \<times> addr list) list" where
  "components g und inDegree c [] col = []"
| "components g und inDegree c (h # hs) col =
     (if col h = 0
      then let s = bfs g und inDegree c [h] \<lparr>color = col, subGraph = [], nodes = []\<rparr>
           in (subGraph s, nodes s) # components g und inDegree (Suc c) hs (color s)
      else components g und inDegree c hs col)"

section \<open>Sorting a component\<close>

text \<open>The loop over the targets of a vertex: the counters, and the vertices that are ready.\<close>

fun release :: "addr list \<Rightarrow> (addr \<Rightarrow> int) \<Rightarrow> addr list \<times> (addr \<Rightarrow> int)" where
  "release [] inDegree = ([], inDegree)"
| "release (t # ts) inDegree =
     (let inDegree = inDegree(t := inDegree t - 1);
          (ready, inDegree') = release ts inDegree
      in (if inDegree t = 0 then t # ready else ready, inDegree'))"

definition waiting :: "graph \<Rightarrow> (addr \<Rightarrow> int) \<Rightarrow> addr set" where
  "waiting g inDegree = {v \<in> vertices g. 0 < inDegree v}"

lemma finite_waiting [simp]: "finite (waiting g d)"
  by (simp add: waiting_def vertices_def)

lemma release_waiting:
  assumes "set ts \<subseteq> vertices g"
  shows "length (fst (release ts d)) + card (waiting g (snd (release ts d))) = card (waiting g d)"
  using assms
proof (induction ts arbitrary: d)
  case Nil
  then show ?case by simp
next
  case (Cons t ts)
  let ?d = "d(t := d t - 1)"
  have "card (waiting g d) = (if ?d t = 0 then 1 else 0) + card (waiting g ?d)"
  proof (cases "?d t = 0")
    case True
    have "waiting g d = insert t (waiting g ?d)" "t \<notin> waiting g ?d"
      using True Cons.prems by (auto simp: waiting_def)
    with True show ?thesis by simp
  next
    case False
    then have "waiting g d = waiting g ?d"
      by (auto simp: waiting_def)
    with False show ?thesis by simp
  qed
  with Cons show ?case
    by (auto simp: Let_def split: prod.splits) (metis fst_conv snd_conv)+
qed

function topo :: "graph \<Rightarrow> addr list \<Rightarrow> (addr \<Rightarrow> int) \<Rightarrow> addr list \<Rightarrow> addr list \<times> (addr \<Rightarrow> int)" where
  "topo g [] inDegree ns = (ns, inDegree)"
| "topo g (cur # worklist) inDegree ns =
     (let (ready, inDegree') = release (at g cur) inDegree
      in topo g (worklist @ ready) inDegree' (ns @ [cur]))"
  by pat_completeness auto
termination
proof (relation "measure (\<lambda>(g, wl, d, ns). length wl + card (waiting g d))")
  fix g :: graph and cur and worklist ns ready :: "addr list" and inDegree inDegree' :: "addr \<Rightarrow> int" and x
  assume x: "x = release (at g cur) inDegree" "(ready, inDegree') = x"
  have "release (at g cur) inDegree = (ready, inDegree')"
    using x by simp
  then have "length ready + card (waiting g inDegree') = card (waiting g inDegree)"
    using release_waiting [OF at_vertices [of g cur], of inDegree] by simp
  then show "((g, worklist @ ready, inDegree', ns @ [cur]), g, cur # worklist, inDegree, ns)
      \<in> measure (\<lambda>(g, wl, d, ns). length wl + card (waiting g d))"
    by simp
qed auto

fun sortComponents :: "graph \<Rightarrow> addr list list \<Rightarrow> (addr \<Rightarrow> int) \<Rightarrow> addr list list" where
  "sortComponents g [] inDegree = []"
| "sortComponents g (initial # rest) inDegree =
     (let (ns, inDegree) = topo g initial inDegree [] in ns # sortComponents g rest inDegree)"

text \<open>Reading \<^verbatim>\<open>graph[cur]\<close> leaves an empty entry behind for an external handler.\<close>

definition touch :: "graph \<Rightarrow> addr list \<Rightarrow> graph" where
  "touch g vs = foldl (\<lambda>g v. emplace v [] g) g vs"

definition getConnectedComponents :: "deps \<Rightarrow> deps" where
  "getConnectedComponents d =
     (let g = graph d;
          (und, inDegree) = undirected g;
          cs = components g und inDegree 0 (map fst und) (\<lambda>_. 0)
      in d\<lparr>graph := touch g (map fst (concat (map fst cs))),
           subGraphs := map fst cs,
           subGraphsOrder := sortComponents g (map snd cs) inDegree\<rparr>)"

text \<open>\<^verbatim>\<open>llvm::copy_if\<close> with a test that may dereference null.\<close>

fun copy_if :: "(func_op \<Rightarrow> bool option) \<Rightarrow> (addr \<times> func_op) list \<Rightarrow> 's \<Rightarrow> ((addr \<times> func_op) list, 's) outcome" where
  "copy_if P [] s = Ok [] s"
| "copy_if P (p # ps) s = (case P (snd p) of
     None \<Rightarrow> Crash NullDeref
   | Some b \<Rightarrow> thenP (copy_if P ps s) (\<lambda>qs s. Ok (if b then p # qs else qs) s))"

definition HandlerDependencyAnalysis ::
    "(val \<Rightarrow> ty) \<Rightarrow> (addr \<times> func_op) list \<Rightarrow> (unit, deps) outcome" where
  "HandlerDependencyAnalysis types moduleOp =
     thenP (copy_if isController moduleOp deps0) (\<lambda>controllerOps d.
     thenP (addControllers controllerOps d) (\<lambda>_ d.
     thenP (copy_if isHandler moduleOp d) (\<lambda>funcOps d.
     thenP (addHandlers funcOps d) (\<lambda>_ d.
     thenP (addFunctions types moduleOp funcOps d) (\<lambda>_ d.
     Ok () (getConnectedComponents d))))))"

section \<open>Queries\<close>

definition getSuccessors :: "deps \<Rightarrow> addr \<Rightarrow> addr list" where
  "getSuccessors d a = at (graph d) a"

definition hasSuccessor :: "(addr \<times> func_op) list \<Rightarrow> deps \<Rightarrow> string \<Rightarrow> bool" where
  "hasSuccessor moduleOp d eventName = (case find (\<lambda>p. event (fst p) = eventName) (handlersMap d) of
     Some (_, a) \<Rightarrow> \<not> externAt moduleOp a | None \<Rightarrow> False)"

definition hasPredecessor :: "(addr \<times> func_op) list \<Rightarrow> deps \<Rightarrow> addr \<Rightarrow> bool" where
  "hasPredecessor moduleOp d a =
     (length (filter (\<lambda>(h, es). \<not> externAt moduleOp h \<and> count_list es a \<noteq> 0) (graph d)) \<noteq> 0)"

definition isStartOfChain :: "deps \<Rightarrow> addr \<Rightarrow> bool" where
  "isStartOfChain d a = (length (filter (\<lambda>(h, es). count_list es a = 0) (graph d)) \<noteq> 0)"

end
