(* ===== verification/Handler_Graph.thy ===== *)
theory Handler_Graph
  imports Handler_Deps
begin

text \<open>
  The graph algorithms of the analysis: the undirected graph and the in-degrees, the traversal that
  collects a component, and the sorting of a component, each by an invariant of its loop.
\<close>

section \<open>The undirected graph\<close>

definition edges :: "graph \<Rightarrow> (addr \<times> addr) set" where
  "edges g = {(u, v). v \<in> set (at g u)}"

text \<open>Two vertices are connected when a path of edges, in either direction, joins them.\<close>

definition connected :: "graph \<Rightarrow> (addr \<times> addr) set" where
  "connected g = (edges g \<union> (edges g)\<inverse>)\<^sup>*"

lemma edges_iff [simp]: "(u, v) \<in> edges g \<longleftrightarrow> v \<in> set (at g u)"
  by (simp add: edges_def)

lemma at_insert: "at (insert_or_assign k v m) x = (if x = k then v else at m x)"
  by (simp add: at_def map_of_insert_or_assign)

lemma connected_sym: "(u, v) \<in> connected g \<Longrightarrow> (v, u) \<in> connected g"
  unfolding connected_def by (metis converse_Un converse_converse rtrancl_converseD sup_commute)

lemma connected_trans: "(u, v) \<in> connected g \<Longrightarrow> (v, w) \<in> connected g \<Longrightarrow> (u, w) \<in> connected g"
  unfolding connected_def by (rule rtrancl_trans)

lemma connected_refl [simp]: "(u, u) \<in> connected g"
  by (simp add: connected_def)

text \<open>The number of edges between two vertices, and into a vertex.\<close>

definition into :: "graph \<Rightarrow> addr set \<Rightarrow> addr \<Rightarrow> int" where
  "into g us v = (\<Sum>u\<in>us. int (count_list (at g u) v))"

lemma addEdges_result:
  "addEdges h ts (und, d) = (und', d') \<Longrightarrow>
     d' = (\<lambda>v. d v + int (count_list ts v)) \<and>
     (\<forall>u. set (at und' u) = set (at und u) \<union> (if u \<in> set ts then {h} else {})) \<and>
     fst ` set und' = fst ` set und \<union> set ts \<and>
     (smap_inv und \<longrightarrow> smap_inv und')"
proof (induction ts arbitrary: und d)
  case Nil
  then show ?case by auto
next
  case (Cons t ts)
  let ?u = "insert_or_assign t (if h \<in> set (at und t) then at und t else at und t @ [h]) und"
  have "addEdges h ts (?u, d(t := d t + 1)) = (und', d')"
    using Cons.prems by (simp add: Let_def)
  from Cons.IH [OF this] show ?case
    by (auto simp: fun_eq_iff at_insert keys_insert_or_assign smap_inv_insert_or_assign)
qed

lemma undirected_fold:
  assumes "foldl (\<lambda>s (h, es). addEdges h es s) (und, d) hs = (und', d')"
  shows "d' v = d v + (\<Sum>(h, es) \<leftarrow> hs. int (count_list es v))"
    and "set (at und' u) = set (at und u) \<union> {h. \<exists>es. (h, es) \<in> set hs \<and> u \<in> set es}"
    and "fst ` set und' = fst ` set und \<union> set (concat (map snd hs))"
    and "smap_inv und \<Longrightarrow> smap_inv und'"
proof -
  have "d' = (\<lambda>v. d v + (\<Sum>(h, es) \<leftarrow> hs. int (count_list es v))) \<and>
      (\<forall>u. set (at und' u) = set (at und u) \<union> {h. \<exists>es. (h, es) \<in> set hs \<and> u \<in> set es}) \<and>
      fst ` set und' = fst ` set und \<union> set (concat (map snd hs)) \<and> (smap_inv und \<longrightarrow> smap_inv und')"
    using assms
  proof (induction hs arbitrary: und d)
    case Nil
    then show ?case by simp
  next
    case (Cons p hs)
    obtain h es where p: "p = (h, es)" by (cases p)
    obtain und1 d1 where one: "addEdges h es (und, d) = (und1, d1)"
      by (metis surj_pair)
    with Cons.prems have "foldl (\<lambda>s (h, es). addEdges h es s) (und1, d1) hs = (und', d')"
      by (simp add: p)
    from Cons.IH [OF this] addEdges_result [OF one] show ?case
      by (auto simp: p fun_eq_iff split: if_splits)
  qed
  then show "d' v = d v + (\<Sum>(h, es) \<leftarrow> hs. int (count_list es v))"
    "set (at und' u) = set (at und u) \<union> {h. \<exists>es. (h, es) \<in> set hs \<and> u \<in> set es}"
    "fst ` set und' = fst ` set und \<union> set (concat (map snd hs))" "smap_inv und \<Longrightarrow> smap_inv und'"
    by simp_all
qed

lemma at_mem:
  assumes "smap_inv g"
  shows "(u, es) \<in> set g \<Longrightarrow> at g u = es" and "at g u \<noteq> [] \<Longrightarrow> (u, at g u) \<in> set g"
  using smap_inv_distinct [OF assms]
  by (auto simp: at_def split: option.splits dest: map_of_SomeD)

lemma sum_at:
  assumes "distinct (map fst g)"
  shows "(\<Sum>(h, es) \<leftarrow> g. int (count_list es v)) = into g (fst ` set g) v"
proof -
  have "(\<Sum>(h, es) \<leftarrow> g. int (count_list es v)) = (\<Sum>p\<in>set g. int (count_list (snd p) v))"
    using assms by (simp add: distinct_map sum_list_distinct_conv_sum_set case_prod_beta)
  also have "\<dots> = (\<Sum>p\<in>set g. int (count_list (at g (fst p)) v))"
    using assms by (intro sum.cong) (auto simp: at_def)
  also have "\<dots> = into g (fst ` set g) v"
    using assms by (simp add: into_def distinct_map sum.reindex)
  finally show ?thesis .
qed

lemma undirected_result:
  assumes "smap_inv g" and "undirected g = (und, d)"
  shows "v \<in> set (at und u) \<longleftrightarrow> v \<in> set (at g u) \<or> u \<in> set (at g v)"
    and "d v = into g (fst ` set g) v"
    and "fst ` set und = vertices g"
    and "smap_inv und"
proof -
  note fold = undirected_fold [OF assms(2) [unfolded undirected_def]]
  have "(\<exists>es. (v, es) \<in> set g \<and> u \<in> set es) \<longleftrightarrow> u \<in> set (at g v)"
    using at_mem [OF assms(1)] by (metis empty_iff empty_set)
  then show "v \<in> set (at und u) \<longleftrightarrow> v \<in> set (at g u) \<or> u \<in> set (at g v)"
    unfolding fold(2) by simp
  show "d v = into g (fst ` set g) v"
    unfolding fold(1) using sum_at smap_inv_distinct [OF assms(1)] by simp
  show "fst ` set und = vertices g" "smap_inv und"
    using fold(3,4) assms(1) by (auto simp: vertices_def)
qed

section \<open>The traversal\<close>

text \<open>
  What holds while the traversal from \<open>h\<close> runs, \<open>C\<close> being the vertices coloured before it and \<open>R\<close> the
  component of \<open>h\<close>.
\<close>

definition bfs_inv ::
    "graph \<Rightarrow> graph \<Rightarrow> (addr \<Rightarrow> int) \<Rightarrow> addr set \<Rightarrow> addr set \<Rightarrow> addr \<Rightarrow> addr list \<Rightarrow> component \<Rightarrow> bool" where
  "bfs_inv g und d C R h wl s \<longleftrightarrow>
     (let P = fst ` set (subGraph s)
      in set wl \<subseteq> R \<and> P \<subseteq> R \<and> h \<in> P \<union> set wl \<and> {v. color s v \<noteq> 0} = C \<union> P \<and>
         (\<forall>u\<in>P. set (at und u) \<subseteq> P \<union> set wl) \<and> (\<forall>v\<in>P. map_of (subGraph s) v = Some (at g v)) \<and>
         set (nodes s) = {v \<in> P. d v = 0})"

lemma bfs_inv_step:
  assumes "bfs_inv g und d C R h (cur # wl) s" and "\<And>u v. u \<in> R \<Longrightarrow> v \<in> set (at und u) \<Longrightarrow> v \<in> R - C"
    and s': "s' = s\<lparr>subGraph := insert_or_assign cur (at g cur) (subGraph s),
                nodes := (if d cur = 0 then nodes s @ [cur] else nodes s),
                color := (color s)(cur := Suc c)\<rparr>"
  shows "bfs_inv g und d C R h (wl @ filter (\<lambda>t. color s' t = 0) (at und cur)) s'"
proof -
  let ?P = "fst ` set (subGraph s)" and ?P' = "fst ` set (subGraph s')"
  have P': "?P' = insert cur ?P"
    by (simp add: s' keys_insert_or_assign)
  have col: "{v. color s' v \<noteq> 0} = C \<union> ?P'"
    using assms(1) unfolding P' by (auto simp: s' bfs_inv_def)
  have cur: "cur \<in> R"
    using assms(1) by (simp add: bfs_inv_def Let_def)
  have "v \<in> ?P' \<or> color s' v = 0" if "v \<in> set (at und cur)" for v
    using assms(2) [OF cur that] col by auto
  then have "set (at und cur) \<subseteq> ?P' \<union> set (filter (\<lambda>t. color s' t = 0) (at und cur))"
    by auto
  moreover have "set (at und u) \<subseteq> ?P' \<union> set wl" if "u \<in> ?P" for u
    using assms(1) that unfolding P' by (auto simp: bfs_inv_def Let_def)
  ultimately have "\<forall>u\<in>?P'. set (at und u) \<subseteq> ?P' \<union> set (wl @ filter (\<lambda>t. color s' t = 0) (at und cur))"
    unfolding P' by fastforce
  moreover have "\<forall>v\<in>?P'. map_of (subGraph s') v = Some (at g v)"
  proof
    fix v assume "v \<in> ?P'"
    then have "v = cur \<or> v \<in> ?P" unfolding P' by simp
    moreover have "\<forall>v\<in>?P. map_of (subGraph s) v = Some (at g v)"
      using assms(1) unfolding bfs_inv_def Let_def by blast
    ultimately show "map_of (subGraph s') v = Some (at g v)"
      by (auto simp: s' map_of_insert_or_assign)
  qed
  moreover have "set (nodes s') = {v \<in> ?P'. d v = 0}"
    using assms(1) unfolding P' by (auto simp: s' bfs_inv_def Let_def)
  moreover have "set (wl @ filter (\<lambda>t. color s' t = 0) (at und cur)) \<subseteq> R" "?P' \<subseteq> R"
    "h \<in> ?P' \<union> set (wl @ filter (\<lambda>t. color s' t = 0) (at und cur))"
    using assms(1) assms(2) [OF cur] cur unfolding P' by (auto simp: bfs_inv_def Let_def)
  ultimately show ?thesis
    using col unfolding bfs_inv_def Let_def by (intro conjI)
qed

lemma bfs_inv_bfs:
  assumes "bfs_inv g und d C R h wl s" and "\<And>u v. u \<in> R \<Longrightarrow> v \<in> set (at und u) \<Longrightarrow> v \<in> R - C"
  shows "bfs_inv g und d C R h [] (bfs g und d c wl s)"
  using assms
proof (induction g und d c wl s rule: bfs.induct)
  case (1 g und inDegree c s)
  then show ?case by simp
next
  case (2 g und d c cur wl s)
  show ?case
    unfolding bfs.simps Let_def
    by (rule 2(1) [OF refl bfs_inv_step [OF 2(2) _ refl]]) (rule 2(3), assumption+)+
qed

definition whole :: "graph \<Rightarrow> (addr \<Rightarrow> nat) \<Rightarrow> bool" where
  "whole g col \<longleftrightarrow> (\<forall>u v. (u, v) \<in> connected g \<longrightarrow> col u \<noteq> 0 \<longrightarrow> col v \<noteq> 0)"

text \<open>A traversal from an uncoloured vertex collects its component and colours it.\<close>

lemma bfs_component:
  fixes c :: nat
  assumes "smap_inv g" "undirected g = (und, d)" and "col h = 0"
    and closed: "whole g col"
  defines "s \<equiv> bfs g und d c [h] \<lparr>color = col, subGraph = [], nodes = []\<rparr>"
  shows "fst ` set (subGraph s) = connected g `` {h}"
    and "\<And>v. (h, v) \<in> connected g \<Longrightarrow> map_of (subGraph s) v = Some (at g v)"
    and "set (nodes s) = {v \<in> connected g `` {h}. d v = 0}"
    and "{v. color s v \<noteq> 0} = {v. col v \<noteq> 0} \<union> connected g `` {h}"
proof -
  let ?R = "connected g `` {h}" and ?C = "{v. col v \<noteq> 0}"
  note und = undirected_result(1) [OF assms(1,2)]
  have step: "v \<in> ?R - ?C" if "u \<in> ?R" "v \<in> set (at und u)" for u v
  proof -
    have "(u, v) \<in> connected g"
      using that(2) unfolding connected_def by (intro r_into_rtrancl) (simp add: und)
    with that(1) have hv: "(h, v) \<in> connected g"
      by (auto intro: connected_trans)
    then have "col v = 0"
      using connected_sym [OF hv] closed assms(3) unfolding whole_def by metis
    with hv show ?thesis by simp
  qed
  have "bfs_inv g und d ?C ?R h [h] \<lparr>color = col, subGraph = [], nodes = []\<rparr>"
    by (simp add: bfs_inv_def)
  then have inv: "bfs_inv g und d ?C ?R h [] s"
    unfolding s_def using step by (rule bfs_inv_bfs)
  let ?P = "fst ` set (subGraph s)"
  have hP: "h \<in> ?P" and PR: "?P \<subseteq> ?R" and cl: "\<forall>u\<in>?P. set (at und u) \<subseteq> ?P"
    using inv by (simp_all add: bfs_inv_def Let_def)
  have "v \<in> ?P" if "(h, v) \<in> connected g" for v
    using that unfolding connected_def
  proof (induction rule: rtrancl_induct)
    case base
    show ?case by (rule hP)
  next
    case (step y z)
    then have "z \<in> set (at und y)" by (simp add: und)
    with step.IH cl show ?case by blast
  qed
  with PR show P: "?P = ?R" by blast
  show "\<And>v. (h, v) \<in> connected g \<Longrightarrow> map_of (subGraph s) v = Some (at g v)"
    "set (nodes s) = {v \<in> ?R. d v = 0}" "{v. color s v \<noteq> 0} = ?C \<union> ?R"
    using inv unfolding bfs_inv_def Let_def P by auto
qed

text \<open>Every listed vertex lies in one component, and no component is found twice.\<close>

definition component_ok :: "graph \<Rightarrow> (addr \<Rightarrow> int) \<Rightarrow> graph \<times> addr list \<Rightarrow> bool" where
  "component_ok g d = (\<lambda>(sg, ns).
     (\<forall>v \<in> fst ` set sg. map_of sg v = Some (at g v)) \<and> set ns = {v \<in> fst ` set sg. d v = 0})"

lemma connected_class: "(u, v) \<in> connected g \<Longrightarrow> connected g `` {u} = connected g `` {v}"
  by (auto intro: connected_trans connected_sym)

lemma components_result:
  assumes "smap_inv g" "undirected g = (und, d)"
    and "whole g col"
  shows "(\<lambda>p. fst ` set (fst p)) ` set (components g und d c hs col) =
      (\<lambda>h. connected g `` {h}) ` {h \<in> set hs. col h = 0} \<and>
    distinct (map (\<lambda>p. fst ` set (fst p)) (components g und d c hs col)) \<and>
    (\<forall>p \<in> set (components g und d c hs col). component_ok g d p)"
  using assms(3)
proof (induction hs arbitrary: c col)
  case Nil
  then show ?case by simp
next
  case (Cons h hs)
  show ?case
  proof (cases "col h = 0")
    case False
    then have "{x \<in> set (h # hs). col x = 0} = {x \<in> set hs. col x = 0}" by auto
    with False Cons.IH [OF Cons.prems] show ?thesis by simp
  next
    case True
    define s where "s = bfs g und d c [h] \<lparr>color = col, subGraph = [], nodes = []\<rparr>"
    note bfs = bfs_component [where c = c and col = col and h = h, OF assms(1,2) True Cons.prems, folded s_def]
    have col: "color s v \<noteq> 0 \<longleftrightarrow> col v \<noteq> 0 \<or> (h, v) \<in> connected g" for v
      using bfs(4) by auto
    have closed: "whole g (color s)"
      using Cons.prems unfolding whole_def col by (blast intro: connected_trans)
    note IH = Cons.IH [of "color s" "Suc c", OF closed]
    have zero: "color s x = 0 \<longleftrightarrow> col x = 0 \<and> (h, x) \<notin> connected g" for x
      using col [of x] by auto
    have "(\<lambda>x. connected g `` {x}) ` {x \<in> set (h # hs). col x = 0} =
        insert (connected g `` {h}) ((\<lambda>x. connected g `` {x}) ` {x \<in> set hs. color s x = 0})"
      using True connected_class [of h _ g] unfolding zero by auto
    moreover have "connected g `` {h} \<notin> (\<lambda>x. connected g `` {x}) ` {x \<in> set hs. color s x = 0}"
      unfolding zero by (auto simp: set_eq_iff)
    moreover have "component_ok g d (subGraph s, nodes s)"
      unfolding component_ok_def prod.case bfs(1) using bfs(2,3) by blast
    moreover have "components g und d c (h # hs) col = (subGraph s, nodes s) # components g und d (Suc c) hs (color s)"
      using True by (simp add: s_def Let_def)
    ultimately show ?thesis
      using IH bfs(1) by simp
  qed
qed

section \<open>Sorting\<close>

lemma release_result:
  assumes "release ts d = (ready, d')"
  shows "d' = (\<lambda>v. d v - int (count_list ts v))"
    and "\<forall>v \<in> set ts. int (count_list ts v) \<le> d v \<Longrightarrow>
      set ready = {v \<in> set ts. d v = int (count_list ts v)} \<and> distinct ready"
proof -
  have "d' = (\<lambda>v. d v - int (count_list ts v)) \<and>
    ((\<forall>v \<in> set ts. int (count_list ts v) \<le> d v) \<longrightarrow>
      set ready = {v \<in> set ts. d v = int (count_list ts v)} \<and> distinct ready)"
    using assms
  proof (induction ts arbitrary: d ready d')
    case Nil
    then show ?case by simp
  next
    case (Cons t ts)
    let ?d = "d(t := d t - 1)"
    obtain r where r: "release ts ?d = (r, d')" "ready = (if ?d t = 0 then t # r else r)"
      using Cons.prems by (auto simp: Let_def split: prod.splits)
    note IH = Cons.IH [OF r(1)]
    have "d' = (\<lambda>v. d v - int (count_list (t # ts) v))"
      using IH by (auto simp: fun_eq_iff)
    moreover have "set ready = {v \<in> set (t # ts). d v = int (count_list (t # ts) v)} \<and> distinct ready"
      if le: "\<forall>v \<in> set (t # ts). int (count_list (t # ts) v) \<le> d v"
    proof -
      have "\<forall>v \<in> set ts. int (count_list ts v) \<le> ?d v"
        using le by (auto split: if_splits)
      with IH have r': "set r = {v \<in> set ts. ?d v = int (count_list ts v)}" "distinct r"
        by blast+
      show ?thesis
      proof (cases "?d t = 0")
        case True
        then have "count_list ts t = 0"
          using le by simp
        then have "t \<notin> set ts"
          by (simp add: count_list_0_iff)
        with True r' r(2) show ?thesis by auto
      next
        case False
        then have "t \<in> set ts" if "d t - 1 = int (count_list ts t)"
          using that count_list_0_iff [of ts t] by auto
        then have "v \<in> set r \<longleftrightarrow> v \<in> set (t # ts) \<and> d v = int (count_list (t # ts) v)" for v
          unfolding r'(1) by (cases "v = t") auto
        then have "set r = {v \<in> set (t # ts). d v = int (count_list (t # ts) v)}"
          by blast
        moreover have "ready = r"
          using False r(2) by simp
        ultimately show ?thesis
          using r'(2) by simp
      qed
    qed
    ultimately show ?case by blast
  qed
  then show "d' = (\<lambda>v. d v - int (count_list ts v))"
    "\<forall>v \<in> set ts. int (count_list ts v) \<le> d v \<Longrightarrow>
      set ready = {v \<in> set ts. d v = int (count_list ts v)} \<and> distinct ready"
    by blast+
qed

text \<open>
  What holds while a component \<open>V\<close> is sorted, \<open>K\<close> being the vertices with an entry in the graph: a
  counter is the number of edges that are still to be released, the vertices seen are those with
  counter zero, and every sorted vertex comes after its predecessors.
\<close>

definition topo_inv :: "graph \<Rightarrow> addr set \<Rightarrow> addr list \<Rightarrow> addr list \<Rightarrow> (addr \<Rightarrow> int) \<Rightarrow> bool" where
  "topo_inv g V ns wl d \<longleftrightarrow>
     distinct (ns @ wl) \<and> set (ns @ wl) = {v \<in> V. d v = 0} \<and>
     (\<forall>v \<in> V. d v = into g (fst ` set g - set ns) v) \<and>
     (\<forall>j < length ns. \<forall>u. ns ! j \<in> set (at g u) \<longrightarrow> u \<in> set (take j ns))"

lemma at_key: "at g u \<noteq> [] \<Longrightarrow> u \<in> fst ` set g"
  by (auto simp: at_def split: option.splits dest: map_of_SomeD) (metis fst_conv image_eqI map_of_SomeD)

lemma into_zero:
  assumes "into g (fst ` set g - A) v = 0" and "v \<in> set (at g u)"
  shows "u \<in> A"
proof (rule ccontr)
  assume "u \<notin> A"
  moreover have "u \<in> fst ` set g"
    using assms(2) by (intro at_key) auto
  ultimately have "int (count_list (at g u) v) \<le> into g (fst ` set g - A) v"
    unfolding into_def by (intro member_le_sum) auto
  with assms show False
    by (simp add: count_list_0_iff)
qed

lemma into_remove:
  assumes "u \<notin> A"
  shows "into g (fst ` set g - insert u A) v = into g (fst ` set g - A) v - int (count_list (at g u) v)"
proof (cases "u \<in> fst ` set g")
  case True
  have "fst ` set g - insert u A = (fst ` set g - A) - {u}" by auto
  with True assms show ?thesis
    unfolding into_def by (simp add: sum_diff1)
next
  case False
  then have "at g u = []" and "fst ` set g - insert u A = fst ` set g - A"
    using at_key [of g u] by auto
  then show ?thesis by simp
qed

lemma into_nonneg: "0 \<le> into g A v"
  unfolding into_def by (intro sum_nonneg) simp

lemma topo_inv_step:
  assumes inv: "topo_inv g V ns (cur # wl) d" and closed: "set (at g cur) \<subseteq> V"
    and rel: "release (at g cur) d = (ready, d')"
  shows "topo_inv g V (ns @ [cur]) (wl @ ready) d'"
proof -
  have cur: "cur \<in> V" "d cur = 0" "cur \<notin> set ns" "cur \<notin> set wl" "distinct (ns @ wl)"
    and seen: "set ns \<union> insert cur (set wl) = {v \<in> V. d v = 0}"
    and d: "\<And>v. v \<in> V \<Longrightarrow> d v = into g (fst ` set g - set ns) v"
    using inv by (auto simp: topo_inv_def)
  have d': "d' v = d v - int (count_list (at g cur) v)" for v
    using release_result(1) [OF rel] by simp
  have into: "into g (fst ` set g - set (ns @ [cur])) v = into g (fst ` set g - set ns) v - int (count_list (at g cur) v)" for v
    using into_remove [OF cur(3), of g v] by simp
  have le: "\<forall>v \<in> set (at g cur). int (count_list (at g cur) v) \<le> d v"
    using d closed into into_nonneg [of g "fst ` set g - set (ns @ [cur])"] by fastforce
  note ready = release_result(2) [OF rel le]
  have pos: "0 < d v" if "v \<in> set (at g cur)" for v
    using that le count_list_0_iff [of "at g cur" v] by fastforce
  have "distinct ((ns @ [cur]) @ wl @ ready)"
    using cur seen ready pos by fastforce
  moreover have "v \<in> set ((ns @ [cur]) @ wl @ ready) \<longleftrightarrow> v \<in> V \<and> d' v = 0" for v
  proof (cases "v \<in> set (at g cur)")
    case True
    then have "v \<in> V" "v \<notin> set ns \<union> insert cur (set wl)"
      using pos [OF True] closed unfolding seen by auto
    with True ready show ?thesis
      by (simp add: d')
  next
    case False
    then have "d' v = d v" by (simp add: d' count_notin)
    with False seen ready show ?thesis by auto
  qed
  moreover have "d' v = into g (fst ` set g - set (ns @ [cur])) v" if "v \<in> V" for v
    using d [OF that] into d' by simp
  moreover have "u \<in> set ns" if "cur \<in> set (at g u)" for u
    using that d [OF cur(1)] cur(2) by (metis into_zero)
  then have "\<forall>j < length (ns @ [cur]). \<forall>u. (ns @ [cur]) ! j \<in> set (at g u) \<longrightarrow> u \<in> set (take j (ns @ [cur]))"
    using inv by (auto simp: topo_inv_def nth_append less_Suc_eq)
  ultimately show ?thesis
    unfolding topo_inv_def by blast
qed

lemma topo_inv_topo:
  assumes "topo_inv g V ns wl d" and "\<And>v. v \<in> V \<Longrightarrow> set (at g v) \<subseteq> V"
  shows "topo_inv g V (fst (topo g wl d ns)) [] (snd (topo g wl d ns))"
  using assms
proof (induction g wl d ns rule: topo.induct)
  case (1 g d ns)
  then show ?case by simp
next
  case (2 g cur wl d ns)
  obtain ready d' where rel: "release (at g cur) d = (ready, d')"
    by (metis surj_pair)
  have "cur \<in> V"
    using 2(2) by (auto simp: topo_inv_def)
  then have "topo_inv g V (ns @ [cur]) (wl @ ready) d'"
    by (intro topo_inv_step [OF 2(2) _ rel] 2(3))
  from 2(1) [OF rel [symmetric] refl this] 2(3) show ?case
    by (simp add: rel)
qed

lemma release_subset: "set (fst (release ts d)) \<subseteq> set ts"
proof (induction ts arbitrary: d)
  case Nil
  then show ?case by simp
next
  case (Cons t ts)
  obtain r d' where r: "release ts (d(t := d t - 1)) = (r, d')"
    by (metis surj_pair)
  then have "set r \<subseteq> set ts"
    by (metis Cons.IH fst_conv)
  with r show ?case
    unfolding release.simps Let_def r prod.case fst_conv by auto
qed

text \<open>Counters outside the component are left alone.\<close>

lemma topo_other:
  assumes "set wl \<subseteq> V" and "\<And>v. v \<in> V \<Longrightarrow> set (at g v) \<subseteq> V" and "v \<notin> V"
  shows "snd (topo g wl d ns) v = d v"
  using assms
proof (induction g wl d ns rule: topo.induct)
  case (1 g d ns)
  then show ?case by simp
next
  case (2 g cur wl d ns)
  obtain ready d' where rel: "release (at g cur) d = (ready, d')"
    by (metis surj_pair)
  have sub: "set (at g cur) \<subseteq> V"
    using 2(2,3) by auto
  then have "set (wl @ ready) \<subseteq> V"
    using 2(2) release_subset [of "at g cur" d] rel by auto
  moreover have "d' v = d v"
    using release_result(1) [OF rel] sub 2(4) by (auto simp: count_list_0_iff)
  ultimately show ?case
    using 2(1) [OF rel [symmetric] refl] 2(3,4) by (simp add: rel)
qed

section \<open>All components\<close>

text \<open>
  A sorted component: no vertex twice, each after all its predecessors, and complete when there is
  no cycle.
\<close>

definition sorted_component :: "graph \<Rightarrow> addr set \<Rightarrow> addr list \<Rightarrow> bool" where
  "sorted_component g V ns \<longleftrightarrow>
     distinct ns \<and> set ns \<subseteq> V \<and> (\<forall>j < length ns. \<forall>u. ns ! j \<in> set (at g u) \<longrightarrow> u \<in> set (take j ns)) \<and>
     (acyclic (edges g) \<longrightarrow> set ns = V)"

lemma finite_edges: "finite (edges g)"
proof (rule finite_subset)
  show "edges g \<subseteq> fst ` set g \<times> vertices g"
  proof (rule subrelI)
    fix u v assume "(u, v) \<in> edges g"
    then have "v \<in> set (at g u)" "at g u \<noteq> []"
      by auto
    then show "(u, v) \<in> fst ` set g \<times> vertices g"
      using at_vertices [of g u] at_key [of g u] by blast
  qed
  show "finite (fst ` set g \<times> vertices g)"
    by (simp add: vertices_def)
qed

lemma topo_inv_sorted:
  assumes "topo_inv g V ns [] d" and closed: "\<And>u v. v \<in> V \<Longrightarrow> v \<in> set (at g u) \<Longrightarrow> u \<in> V"
  shows "sorted_component g V ns"
proof -
  have "V \<subseteq> set ns" if "acyclic (edges g)"
  proof
    have "wf (edges g)"
      using finite_acyclic_wf [OF finite_edges that] .
    fix v assume "v \<in> V"
    with \<open>wf (edges g)\<close> show "v \<in> set ns"
    proof (induction v rule: wf_induct_rule)
      case (less v)
      have "int (count_list (at g u) v) = 0" if "u \<in> fst ` set g - set ns" for u
        using less closed that count_list_0_iff [of "at g u" v] by auto
      then have "into g (fst ` set g - set ns) v = 0"
        unfolding into_def by (simp add: sum.neutral)
      with less.prems assms(1) show ?case
        by (auto simp: topo_inv_def)
    qed
  qed
  with assms(1) show ?thesis
    by (auto simp: topo_inv_def sorted_component_def)
qed

lemma sortComponents_result:
  assumes "\<And>v. (\<exists>p \<in> set cs. v \<in> fst p) \<Longrightarrow> d v = into g (fst ` set g) v"
    and "\<And>p. p \<in> set cs \<Longrightarrow> set (snd p) = {v \<in> fst p. into g (fst ` set g) v = 0}"
    and closed: "\<And>p u v. p \<in> set cs \<Longrightarrow> v \<in> set (at g u) \<Longrightarrow> u \<in> fst p \<longleftrightarrow> v \<in> fst p"
    and "sorted_wrt (\<lambda>p q. fst p \<inter> fst q = {}) cs"
  shows "list_all2 (\<lambda>p ns. distinct (snd p) \<longrightarrow> sorted_component g (fst p) ns) cs
    (sortComponents g (map snd cs) d)"
  using assms
proof (induction cs arbitrary: d)
  case Nil
  then show ?case by simp
next
  case (Cons p cs)
  obtain ns d' where t: "topo g (snd p) d [] = (ns, d')"
    by (metis surj_pair)
  have cl: "set (at g v) \<subseteq> fst p" if "v \<in> fst p" for v
    using that Cons.prems(3) [of p] by auto
  have "d' v = d v" if "v \<notin> fst p" for v
    using topo_other [of "snd p" "fst p" g v d "[]"] that cl Cons.prems(2) [of p] by (auto simp: t)
  moreover have "v \<notin> fst p" if "\<exists>q \<in> set cs. v \<in> fst q" for v
    using that Cons.prems(4) by auto
  ultimately have "d' v = into g (fst ` set g) v" if "\<exists>q \<in> set cs. v \<in> fst q" for v
    using that Cons.prems(1) [of v] by auto
  then have "list_all2 (\<lambda>p ns. distinct (snd p) \<longrightarrow> sorted_component g (fst p) ns) cs
      (sortComponents g (map snd cs) d')"
    using Cons.prems(2-4) by (intro Cons.IH) auto
  moreover have "sorted_component g (fst p) ns" if "distinct (snd p)"
  proof -
    have "topo_inv g (fst p) [] (snd p) d"
      using that Cons.prems(1,2) by (auto simp: topo_inv_def)
    from topo_inv_topo [OF this cl] have "topo_inv g (fst p) ns [] d'"
      by (simp add: t)
    then show ?thesis
      using Cons.prems(3) [of p] by (intro topo_inv_sorted) auto
  qed
  ultimately show ?case
    by (simp add: t)
qed

end
