(* ===== verification/Handler_Analysis.thy ===== *)
theory Handler_Analysis
  imports Handler_Graph
begin

text \<open>
  The analysis as a whole: which modules it accepts, the successors it finds, the components and
  their order.
\<close>

section \<open>Names do not depend on the state\<close>

text \<open>Names are computed without touching the state, and fail only in an assertion.\<close>

definition result :: "('a, unit) outcome \<Rightarrow> 'a option" where
  "result m = (case m of Ok a _ \<Rightarrow> Some a | Crash _ \<Rightarrow> None)"

definition at_state :: "'a option \<Rightarrow> 's \<Rightarrow> ('a, 's) outcome" where
  "at_state r s = (case r of Some a \<Rightarrow> Ok a s | None \<Rightarrow> Crash AssertFail)"

lemma at_state_simps [simp]: "at_state (Some a) s = Ok a s" "at_state None s = Crash AssertFail"
  by (simp_all add: at_state_def)

lemma result_simps [simp]: "result (Ok a u) = Some a" "result (Crash c) = None"
  by (simp_all add: result_def)

lemma thenP_at_state: "thenP (at_state r s) k = (case r of Some a \<Rightarrow> k a s | None \<Rightarrow> Crash AssertFail)"
  by (cases r) simp_all

definition func_name :: "func_op \<Rightarrow> full_name option" where
  "func_name f = result (fullNameOfFunc f ())"

definition generated :: "(val \<Rightarrow> ty) \<Rightarrow> func_op \<Rightarrow> full_name list option" where
  "generated types f = result (returnNames types (fn_body f) (walk_ops (fn_body f)) ())"

lemma fullNameOfFunc_at: "fullNameOfFunc f s = at_state (func_name f) s"
  by (auto simp: func_name_def fullNameOfFunc_def split: option.splits attr.splits)

lemma setWithInit_at: "setWithInit types body p s = at_state (result (setWithInit types body p ())) s"
  by (auto simp: setWithInit_def
      split: list.splits ty.splits bool.splits option.splits op.splits opkind.splits attr.splits)

lemma fullNameOfReturn_at:
  "fullNameOfReturn types body p s = at_state (result (fullNameOfReturn types body p ())) s"
  using setWithInit_at [of types body _ s]
  by (auto simp: fullNameOfReturn_def split: list.splits option.splits)

lemma returnNames_at:
  "returnNames types body ps s = at_state (result (returnNames types body ps ())) s"
proof (induction ps)
  case (Cons p ps)
  show ?case
    using fullNameOfReturn_at [of types body p s] fullNameOfReturn_at [of types body p "()"]
      Cons returnNames.simps(2) [of types body p ps s] returnNames.simps(2) [of types body p ps "()"]
    by (cases "result (fullNameOfReturn types body p ())"; cases "result (returnNames types body ps ())";
        cases "returnNames types body ps ()") auto
qed simp

lemma func_name_thenP:
  "thenP (fullNameOfFunc f s) k = (case func_name f of Some n \<Rightarrow> k n s | None \<Rightarrow> Crash AssertFail)"
  by (simp add: fullNameOfFunc_at thenP_at_state)

lemma generated_thenP:
  "thenP (returnNames types (fn_body f) (walk_ops (fn_body f)) s) k =
     (case generated types f of Some ns \<Rightarrow> k ns s | None \<Rightarrow> Crash AssertFail)"
  unfolding generated_def by (subst returnNames_at) (simp only: thenP_at_state)

section \<open>The map of handlers\<close>

lemma map_of_emplace: "map_of (emplace k v m) = (if map_of m k = None then (map_of m)(k \<mapsto> v) else map_of m)"
  by (simp add: emplace_def map_of_insert_or_assign)

lemma smap_inv_emplace: "smap_inv m \<Longrightarrow> smap_inv (emplace k v m)"
  by (simp add: emplace_def smap_inv_insert_or_assign)

definition named :: "(addr \<times> func_op) list \<Rightarrow> (full_name \<times> addr) list" where
  "named fs = map (\<lambda>(a, f). (the (func_name f), a)) fs"

lemma addControllers_result:
  "(case addControllers fs d of Ok _ d' \<Rightarrow> (\<forall>p \<in> set fs. func_name (snd p) \<noteq> None) \<and> (\<exists>m. d' = d\<lparr>controllersMap := m\<rparr>)
    | Crash c \<Rightarrow> (\<exists>p \<in> set fs. func_name (snd p) = None))"
proof (induction fs arbitrary: d)
  case Nil
  then show ?case by (auto intro: exI [of _ "controllersMap d"])
next
  case (Cons p fs)
  obtain a f where p: "p = (a, f)" by (cases p)
  show ?case
  proof (cases "func_name f")
    case None
    then show ?thesis by (simp add: p func_name_thenP)
  next
    case (Some n)
    show ?thesis
      using Cons [of "d\<lparr>controllersMap := emplace n a (controllersMap d)\<rparr>"]
      by (auto simp: p func_name_thenP Some split: outcome.splits)
  qed
qed

text \<open>The first handler of a name keeps it.\<close>

lemma addHandlers_result:
  assumes "smap_inv (handlersMap d)"
  shows "case addHandlers fs d of
      Ok _ d' \<Rightarrow> (\<forall>p \<in> set fs. func_name (snd p) \<noteq> None) \<and>
        (\<exists>m. d' = d\<lparr>handlersMap := m\<rparr> \<and> smap_inv m \<and> map_of m = map_of (named fs) ++ map_of (handlersMap d))
    | Crash c \<Rightarrow> (\<exists>p \<in> set fs. func_name (snd p) = None)"
  using assms
proof (induction fs arbitrary: d)
  case Nil
  then show ?case by (auto simp: named_def intro: exI [of _ "handlersMap d"])
next
  case (Cons p fs)
  obtain a f where p: "p = (a, f)" by (cases p)
  show ?case
  proof (cases "func_name f")
    case None
    then show ?thesis by (simp add: p func_name_thenP)
  next
    case (Some n)
    let ?d = "d\<lparr>handlersMap := emplace n a (handlersMap d)\<rparr>"
    have "map_of (named fs) ++ map_of (handlersMap ?d) = map_of (named (p # fs)) ++ map_of (handlersMap d)"
      by (auto simp: fun_eq_iff map_of_emplace named_def p Some map_add_def split: option.splits)
    moreover have "smap_inv (handlersMap ?d)"
      using Cons.prems by (simp add: smap_inv_emplace)
    ultimately show ?thesis
      using Cons.IH [of ?d]
      by (auto simp: p func_name_thenP Some split: outcome.splits)
  qed
qed

section \<open>Resolving a name\<close>

text \<open>
  What a name resolves to: the handler of that event and atom, otherwise the one of the event
  without an atom.
\<close>

definition resolve :: "(full_name \<times> addr) list \<Rightarrow> full_name \<Rightarrow> addr option" where
  "resolve hs n = (case map_of hs n of Some a \<Rightarrow> Some a | None \<Rightarrow> map_of hs (HandlerFullName (event n) ''''))"

lemma general_match:
  "map_option snd (find (\<lambda>p. event (fst p) = e \<and> atom (fst p) = '''') m) = map_of m (HandlerFullName e '''')"
proof (induction m)
  case (Cons p m)
  then show ?case by (cases p; cases "fst p") auto
qed simp

lemma lookupHandler_resolve: "lookupHandler d n = resolve (handlersMap d) n"
  by (simp add: lookupHandler_def resolve_def general_match split: option.split)

lemma resolve_cong: "map_of hs = map_of hs' \<Longrightarrow> resolve hs n = resolve hs' n"
  by (simp add: resolve_def split: option.split)

text \<open>The search for the forwards of an external handler never adds a target.\<close>

lemma forwardTargets_none:
  "map_of (handlersMap d) target = None \<Longrightarrow> forwardTargets d target fw ts = ts"
  by (induction fw arbitrary: ts) auto

lemma addTargets_result:
  "addTargets fs from to ts d =
     (if \<forall>n \<in> set to. resolve (handlersMap d) n \<noteq> None
      then Ok (ts @ map (the \<circ> resolve (handlersMap d)) to)
             (d\<lparr>eventDeps := eventDeps d \<union> (\<lambda>n. (event from, event n)) ` set to\<rparr>)
      else Crash NullDeref)"
proof (induction to arbitrary: ts d)
  case Nil
  then show ?case by simp
next
  case (Cons n to)
  let ?d = "d\<lparr>eventDeps := insert (event from, event n) (eventDeps d)\<rparr>"
  show ?case
  proof (cases "map_of (handlersMap d) n")
    case (Some f)
    then show ?thesis
      using Cons.IH [of "ts @ [f]" ?d] by (auto simp: resolve_def Let_def)
  next
    case None
    let ?find = "find (\<lambda>p. event (fst p) = event n \<and> atom (fst p) = '''') (handlersMap d)"
    have r: "resolve (handlersMap d) n = map_option snd ?find"
      using None by (simp add: resolve_def general_match)
    show ?thesis
    proof (cases ?find)
      case none: None
      then show ?thesis using None r by (simp add: Let_def)
    next
      case (Some q)
      obtain m f where q: "q = (m, f)" by (cases q)
      have "addTargets fs from (n # to) ts d = addTargets fs from to (ts @ [f]) ?d"
        using None Some q forwardTargets_none [of ?d n] by (simp add: Let_def)
      then show ?thesis
        using Cons.IH [of "ts @ [f]" ?d] r Some q by auto
    qed
  qed
qed

lemma markForward_simps [simp]:
  "graph (markForward d n) = graph d" "handlersMap (markForward d n) = handlersMap d"
  "eventDeps (markForward d n) = eventDeps d"
  by (simp_all add: markForward_def split: option.split)

lemma addExtern_simps [simp]:
  "graph (addExtern a from to d) = graph d" "handlersMap (addExtern a from to d) = handlersMap d"
  "eventDeps (addExtern a from to d) = eventDeps d"
proof -
  have "graph (foldl markForward e to) = graph e \<and> handlersMap (foldl markForward e to) = handlersMap e \<and>
      eventDeps (foldl markForward e to) = eventDeps e" for e
    by (induction to arbitrary: e) auto
  then show "graph (addExtern a from to d) = graph d" "handlersMap (addExtern a from to d) = handlersMap d"
    "eventDeps (addExtern a from to d) = eventDeps d"
    by (simp_all add: addExtern_def Let_def)
qed

section \<open>The graph\<close>

text \<open>A handler can be analysed when it has a name, and the events it generates have names and handlers.\<close>

definition handler_ok :: "(val \<Rightarrow> ty) \<Rightarrow> (full_name \<times> addr) list \<Rightarrow> func_op \<Rightarrow> bool" where
  "handler_ok types hs f \<longleftrightarrow>
     func_name f \<noteq> None \<and> generated types f \<noteq> None \<and>
     (\<not> isExtern f \<longrightarrow> (\<forall>n \<in> set (the (generated types f)). resolve hs n \<noteq> None))"

definition successors :: "(val \<Rightarrow> ty) \<Rightarrow> (full_name \<times> addr) list \<Rightarrow> func_op \<Rightarrow> addr list" where
  "successors types hs f = map (the \<circ> resolve hs) (the (generated types f))"

definition full :: "(addr \<times> func_op) list \<Rightarrow> addr set" where
  "full fs = {a. \<exists>f. (a, f) \<in> set fs \<and> \<not> isExtern f}"

lemma addFunctions_result:
  assumes "smap_inv (graph d)"
  shows "case addFunctions types fs rest d of
      Ok _ d' \<Rightarrow> (\<forall>p \<in> set rest. handler_ok types (handlersMap d) (snd p)) \<and>
        handlersMap d' = handlersMap d \<and> smap_inv (graph d') \<and>
        fst ` set (graph d') = fst ` set (graph d) \<union> full rest \<and>
        (\<forall>a. a \<notin> fst ` set rest \<longrightarrow> map_of (graph d') a = map_of (graph d) a) \<and>
        (distinct (map fst rest) \<longrightarrow> (\<forall>(a, f) \<in> set rest. \<not> isExtern f \<longrightarrow>
           map_of (graph d') a = Some (successors types (handlersMap d) f)))
    | Crash c \<Rightarrow> (\<exists>p \<in> set rest. \<not> handler_ok types (handlersMap d) (snd p))"
  using assms
proof (induction rest arbitrary: d)
  case Nil
  then show ?case by (simp add: full_def)
next
  case (Cons p rest)
  obtain a f where p: "p = (a, f)" by (cases p)
  show ?case
  proof (cases "handler_ok types (handlersMap d) f")
    case False
    then have "\<exists>c. addFunctions types fs (p # rest) d = Crash c"
      by (cases "func_name f"; cases "generated types f")
        (auto simp: p handler_ok_def func_name_thenP generated_thenP addTargets_result simp del: not_None_eq)
    with False show ?thesis
      by (auto simp: p)
  next
    case ok: True
    then obtain src to where n: "func_name f = Some src" "generated types f = Some to"
      by (auto simp: handler_ok_def)
    show ?thesis
    proof (cases "isExtern f")
      case True
      have "full (p # rest) = full rest"
        using True by (auto simp: full_def p)
      moreover have "addFunctions types fs (p # rest) d = addFunctions types fs rest (addExtern a src to d)"
        by (simp add: p func_name_thenP generated_thenP n True)
      ultimately show ?thesis
        using Cons.IH [of "addExtern a src to d"] Cons.prems ok True
        by (simp add: p split: outcome.splits)
    next
      case False
      let ?e = "d\<lparr>eventDeps := eventDeps d \<union> (\<lambda>n. (event src, event n)) ` set to,
        graph := insert_or_assign a (successors types (handlersMap d) f) (graph d)\<rparr>"
      have "full (p # rest) = insert a (full rest)"
        using False by (auto simp: full_def p)
      moreover have "addFunctions types fs (p # rest) d = addFunctions types fs rest ?e"
        using ok by (simp add: p func_name_thenP generated_thenP n False addTargets_result handler_ok_def
            successors_def)
      ultimately show ?thesis
        using Cons.IH [of ?e] Cons.prems ok False
        by (simp add: p smap_inv_insert_or_assign keys_insert_or_assign map_of_insert_or_assign split: outcome.splits)
    qed
  qed
qed

section \<open>The whole analysis\<close>

lemma touch_result:
  "at (touch g vs) v = at g v" "smap_inv g \<Longrightarrow> smap_inv (touch g vs)"
  "fst ` set (touch g vs) = fst ` set g \<union> set vs"
proof -
  have at: "at (emplace u [] g) v = at g v" for u g
    by (simp add: at_def map_of_emplace)
  have keys: "fst ` set (emplace u [] g) = insert u (fst ` set g)" for u and g :: graph
    by (auto simp: emplace_def keys_insert_or_assign map_of_eq_None_iff)
  show "at (touch g vs) v = at g v" "smap_inv g \<Longrightarrow> smap_inv (touch g vs)"
    "fst ` set (touch g vs) = fst ` set g \<union> set vs"
    unfolding touch_def
    by (induction vs arbitrary: g) (simp_all add: at keys smap_inv_emplace)
qed

lemma connected_at: "(\<And>v. at g v = at g' v) \<Longrightarrow> connected g = connected g'"
  by (simp add: connected_def edges_def)

lemma sorted_component_at: "(\<And>v. at g v = at g' v) \<Longrightarrow> sorted_component g = sorted_component g'"
  by (simp add: sorted_component_def edges_def fun_eq_iff)

lemma sorted_wrt_distinct:
  assumes "distinct (map f xs)" and "\<And>x y. x \<in> set xs \<Longrightarrow> y \<in> set xs \<Longrightarrow> f x \<noteq> f y \<Longrightarrow> P (f x) (f y)"
  shows "sorted_wrt (\<lambda>x y. P (f x) (f y)) xs"
  using assms by (induction xs) auto

lemma connected_closed: "v \<in> set (at g u) \<Longrightarrow> (u, v) \<in> connected g"
  unfolding connected_def by (intro r_into_rtrancl) simp

lemma component_vertices:
  assumes "(u, v) \<in> connected g" and "u \<in> vertices g"
  shows "v \<in> vertices g"
  using assms unfolding connected_def
proof (induction rule: rtrancl_induct)
  case (step y z)
  then consider "z \<in> set (at g y)" | "y \<in> set (at g z)" by auto
  then show ?case
  proof cases
    case 1
    then show ?thesis using at_vertices [of g y] by auto
  next
    case 2
    then have "z \<in> fst ` set g" by (intro at_key) auto
    then show ?thesis by (simp add: vertices_def)
  qed
qed

text \<open>The components of a graph with their first vertices.\<close>

definition parts :: "graph \<Rightarrow> (graph \<times> addr list) list" where
  "parts g = (let (und, inDegree) = undirected g in components g und inDegree 0 (map fst und) (\<lambda>_. 0))"

definition vertices_of :: "graph \<times> addr list \<Rightarrow> addr set" where
  "vertices_of p = fst ` set (fst p)"

lemma parts_result:
  assumes "smap_inv g"
  shows "vertices_of ` set (parts g) = (\<lambda>v. connected g `` {v}) ` vertices g"
    and "distinct (map vertices_of (parts g))"
    and "p \<in> set (parts g) \<Longrightarrow> component_ok g (into g (fst ` set g)) p"
proof -
  obtain und deg where u: "undirected g = (und, deg)" by (metis surj_pair)
  note und = undirected_result [OF assms u]
  have deg: "deg = into g (fst ` set g)"
    by (rule ext) (rule und(2))
  have "whole g (\<lambda>_. 0)" by (simp add: whole_def)
  note cs = components_result [OF assms u this, of 0 "map fst und", unfolded deg]
  have p: "parts g = components g und (into g (fst ` set g)) 0 (map fst und) (\<lambda>_. 0)"
    by (simp add: parts_def u deg)
  show "vertices_of ` set (parts g) = (\<lambda>v. connected g `` {v}) ` vertices g"
    "distinct (map vertices_of (parts g))"
    "p \<in> set (parts g) \<Longrightarrow> component_ok g (into g (fst ` set g)) p"
    using cs und(3) by (simp_all add: p vertices_of_def [abs_def])
qed

lemma parts_class:
  assumes "smap_inv g" and "p \<in> set (parts g)"
  obtains h where "h \<in> vertices g" "vertices_of p = connected g `` {h}"
proof -
  have "vertices_of p \<in> (\<lambda>v. connected g `` {v}) ` vertices g"
    unfolding parts_result(1) [OF assms(1), symmetric] using assms(2) by (rule imageI)
  with that show ?thesis by blast
qed

lemma parts_disjoint:
  assumes "smap_inv g"
  shows "sorted_wrt (\<lambda>p q. vertices_of p \<inter> vertices_of q = {}) (parts g)"
proof (rule sorted_wrt_distinct [OF parts_result(2) [OF assms]])
  fix p q assume pq: "p \<in> set (parts g)" "q \<in> set (parts g)" "vertices_of p \<noteq> vertices_of q"
  obtain h k where hk: "vertices_of p = connected g `` {h}" "vertices_of q = connected g `` {k}"
    using pq(1,2) parts_class [OF assms] by metis
  have False if "(h, x) \<in> connected g" "(k, x) \<in> connected g" for x
    using connected_class [OF that(1)] connected_class [OF that(2)] hk pq(3) by simp
  then show "vertices_of p \<inter> vertices_of q = {}"
    unfolding hk by blast
qed

lemma parts_cover:
  assumes "smap_inv g"
  shows "(\<Union>p \<in> set (parts g). vertices_of p) = vertices g"
proof -
  have "(\<Union>p \<in> set (parts g). vertices_of p) = (\<Union>v \<in> vertices g. connected g `` {v})"
    using parts_result(1) [OF assms] by (metis (no_types, lifting))
  also have "\<dots> = vertices g"
    by (auto intro: component_vertices)
  finally show ?thesis .
qed

lemma getConnectedComponents_parts:
  "subGraphs (getConnectedComponents d) = map fst (parts (graph d))"
  "subGraphsOrder (getConnectedComponents d) = sortComponents (graph d) (map snd (parts (graph d))) (snd (undirected (graph d)))"
  "graph (getConnectedComponents d) = touch (graph d) (map fst (concat (map fst (parts (graph d)))))"
  "handlersMap (getConnectedComponents d) = handlersMap d"
  by (simp_all add: getConnectedComponents_def parts_def Let_def case_prod_beta)

lemma getConnectedComponents_graph:
  assumes "smap_inv (graph d)"
  shows "at (graph (getConnectedComponents d)) v = at (graph d) v"
    and "smap_inv (graph (getConnectedComponents d))"
    and "fst ` set (graph (getConnectedComponents d)) = vertices (graph d)"
proof -
  have "fst ` set (graph d) \<subseteq> vertices (graph d)"
    by (simp add: vertices_def)
  moreover have "set (map fst (concat (map fst (parts (graph d))))) = vertices (graph d)"
    using parts_cover [OF assms] by (simp add: vertices_of_def image_UN)
  ultimately show "fst ` set (graph (getConnectedComponents d)) = vertices (graph d)"
    unfolding getConnectedComponents_parts touch_result(3) by blast
qed (simp_all add: getConnectedComponents_parts touch_result assms)

lemma getConnectedComponents_order:
  assumes g: "smap_inv (graph d)" and dist: "\<forall>p \<in> set (parts (graph d)). distinct (snd p)"
  shows "list_all2 (\<lambda>sg ns. sorted_component (graph d) (fst ` set sg) ns)
    (subGraphs (getConnectedComponents d)) (subGraphsOrder (getConnectedComponents d))"
proof -
  let ?g = "graph d"
  let ?cs = "map (\<lambda>p. (vertices_of p, snd p)) (parts ?g)"
  obtain und deg where u: "undirected ?g = (und, deg)" by (metis surj_pair)
  have "list_all2 (\<lambda>p ns. distinct (snd p) \<longrightarrow> sorted_component ?g (fst p) ns) ?cs
      (sortComponents ?g (map snd ?cs) deg)"
  proof (rule sortComponents_result)
    show "deg v = into ?g (fst ` set ?g) v" for v
      by (rule undirected_result(2) [OF g u])
    show "sorted_wrt (\<lambda>p q. fst p \<inter> fst q = {}) ?cs"
      using parts_disjoint [OF g] by (simp add: sorted_wrt_map)
    fix p assume "p \<in> set ?cs"
    then obtain q where q: "q \<in> set (parts ?g)" "p = (vertices_of q, snd q)" by auto
    then show "set (snd p) = {v \<in> fst p. into ?g (fst ` set ?g) v = 0}"
      using parts_result(3) [OF g q(1)] by (simp add: component_ok_def case_prod_beta vertices_of_def)
    obtain h where "fst p = connected ?g `` {h}"
      using parts_class [OF g q(1)] q(2) by auto
    then show "\<And>u v. v \<in> set (at ?g u) \<Longrightarrow> u \<in> fst p \<longleftrightarrow> v \<in> fst p"
      using connected_closed connected_sym connected_trans by blast
  qed
  then show ?thesis
    using dist by (auto simp: getConnectedComponents_parts u list_all2_conv_all_nth comp_def vertices_of_def)
qed

section \<open>The state after each phase\<close>

definition handlers :: "(addr \<times> func_op) list \<Rightarrow> (addr \<times> func_op) list" where
  "handlers m = filter (\<lambda>p. isHandler (snd p) = Some True) m"

definition controllers :: "(addr \<times> func_op) list \<Rightarrow> (addr \<times> func_op) list" where
  "controllers m = filter (\<lambda>p. isController (snd p) = Some True) m"

lemma copy_if_result:
  "copy_if P ps s =
     (if \<forall>p \<in> set ps. P (snd p) \<noteq> None then Ok (filter (\<lambda>p. P (snd p) = Some True) ps) s else Crash NullDeref)"
  by (induction ps) (auto split: option.splits)

text \<open>The tests of the phases: kinds and names everywhere, and a handler for every generated event.\<close>

definition phases_ok :: "(val \<Rightarrow> ty) \<Rightarrow> (addr \<times> func_op) list \<Rightarrow> bool" where
  "phases_ok types m \<longleftrightarrow>
     (\<forall>p \<in> set m. typeAttr (snd p) \<noteq> None) \<and>
     (\<forall>p \<in> set (controllers m). func_name (snd p) \<noteq> None) \<and>
     (\<forall>p \<in> set (handlers m). func_name (snd p) \<noteq> None) \<and>
     (\<forall>p \<in> set (handlers m). handler_ok types (named (handlers m)) (snd p))"

lemma handler_ok_cong: "map_of hs = map_of hs' \<Longrightarrow> handler_ok types hs f = handler_ok types hs' f"
  using resolve_cong [of hs hs'] by (simp add: handler_ok_def)

lemma successors_cong: "map_of hs = map_of hs' \<Longrightarrow> successors types hs f = successors types hs' f"
  using resolve_cong [of hs hs'] by (simp add: successors_def comp_def)

lemma analysis_steps:
  assumes "\<forall>p \<in> set m. typeAttr (snd p) \<noteq> None"
  shows "HandlerDependencyAnalysis types m =
    thenP (addControllers (controllers m) deps0) (\<lambda>_ d.
    thenP (addHandlers (handlers m) d) (\<lambda>_ d.
    thenP (addFunctions types m (handlers m) d) (\<lambda>_ d. Ok () (getConnectedComponents d))))"
proof -
  have "copy_if isController m s = Ok (controllers m) s" "copy_if isHandler m s = Ok (handlers m) s" for s :: deps
    using assms by (auto simp: copy_if_result isController_def isHandler_def controllers_def handlers_def)
  then show ?thesis
    by (simp add: HandlerDependencyAnalysis_def)
qed

lemma analysis_untyped:
  assumes "\<not> (\<forall>p \<in> set m. typeAttr (snd p) \<noteq> None)"
  shows "HandlerDependencyAnalysis types m = Crash NullDeref"
proof -
  have "\<not> (\<forall>p \<in> set m. isController (snd p) \<noteq> None)"
    using assms by (simp add: isController_def)
  then have "copy_if isController m deps0 = Crash NullDeref"
    by (simp only: copy_if_result if_False)
  then show ?thesis
    by (simp add: HandlerDependencyAnalysis_def)
qed

lemma analysis_result:
  "case HandlerDependencyAnalysis types m of
     Ok _ d \<Rightarrow> phases_ok types m \<and>
       (\<exists>d0. d = getConnectedComponents d0 \<and> smap_inv (graph d0) \<and> map_of (handlersMap d0) = map_of (named (handlers m)) \<and>
         fst ` set (graph d0) = full (handlers m) \<and>
         (distinct (map fst m) \<longrightarrow> (\<forall>(a, f) \<in> set (handlers m). \<not> isExtern f \<longrightarrow>
            map_of (graph d0) a = Some (successors types (named (handlers m)) f))))
   | Crash c \<Rightarrow> \<not> phases_ok types m"
proof (cases "\<forall>p \<in> set m. typeAttr (snd p) \<noteq> None")
  case False
  then have "\<not> phases_ok types m"
    unfolding phases_ok_def by blast
  with analysis_untyped [OF False] show ?thesis
    by simp
next
  case typed: True
  note steps = analysis_steps [OF typed, of types]
  note c = addControllers_result [of "controllers m" deps0]
  show ?thesis
  proof (cases "addControllers (controllers m) deps0")
    case (Crash e)
    with c have "\<not> phases_ok types m"
      unfolding phases_ok_def by (simp only: outcome.case) blast
    with Crash show ?thesis
      by (simp add: steps)
  next
    case (Ok u d1)
    with c have d1: "handlersMap d1 = []" "graph d1 = []" and cn: "\<forall>p \<in> set (controllers m). func_name (snd p) \<noteq> None"
      by (auto simp: deps0_def)
    note h = addHandlers_result [of d1 "handlers m"]
    show ?thesis
    proof (cases "addHandlers (handlers m) d1")
      case crash: (Crash e)
      with h d1 have "\<exists>p \<in> set (handlers m). func_name (snd p) = None"
        by (simp add: smap_inv_def)
      then have "\<not> phases_ok types m"
        unfolding phases_ok_def by blast
      with crash Ok show ?thesis
        by (simp add: steps)
    next
      case ok: (Ok u d2)
      with h d1 have d2: "graph d2 = []" "map_of (handlersMap d2) = map_of (named (handlers m))"
        and hn: "\<forall>p \<in> set (handlers m). func_name (snd p) \<noteq> None"
        by (auto simp: smap_inv_def)
      note f = addFunctions_result [where d = d2 and types = types and fs = m and rest = "handlers m"]
      have dist: "distinct (map fst m) \<Longrightarrow> distinct (map fst (handlers m))"
        by (simp add: handlers_def distinct_map_filter)
      have run: "HandlerDependencyAnalysis types m =
          thenP (addFunctions types m (handlers m) d2) (\<lambda>_ d. Ok () (getConnectedComponents d))"
        using Ok ok by (simp add: steps)
      have "phases_ok types m \<longleftrightarrow> (\<forall>p \<in> set (handlers m). handler_ok types (named (handlers m)) (snd p))"
        unfolding phases_ok_def using typed cn hn by blast
      with f d2 dist show ?thesis
        unfolding run handler_ok_cong [OF d2(2)] successors_cong [OF d2(2)]
        by (cases "addFunctions types m (handlers m) d2") (auto simp: smap_inv_def simp del: not_None_eq)
    qed
  qed
qed

section \<open>Modules that can be analysed\<close>













section \<open>The properties\<close>


text \<open>
  C8: The successors of a handler that is not external are the handlers of the events it generates, in the order of its
  returns: the handler of that event and atom if there is one, otherwise the handler of the event
  without an atom. Of two handlers with one name the first in the module counts.
\<close>

theorem analysis_successors:
  assumes "HandlerDependencyAnalysis types m = Ok () d" and "distinct (map fst m)"
    and "(a, f) \<in> set m" and "isHandler f = Some True" and "\<not> isExtern f" and "generated types f = Some ns"
  shows "getSuccessors d a = map (the \<circ> lookupHandler d) ns \<and> (\<forall>n \<in> set ns. lookupHandler d n \<noteq> None) \<and>
    (\<forall>n. lookupHandler d n = resolve (named (handlers m)) n)"
proof -
  obtain d0 where d: "d = getConnectedComponents d0" and g: "smap_inv (graph d0)"
    and h: "map_of (handlersMap d0) = map_of (named (handlers m))"
    and succ: "\<forall>(a, f) \<in> set (handlers m). \<not> isExtern f \<longrightarrow> map_of (graph d0) a = Some (successors types (named (handlers m)) f)"
    and an: "phases_ok types m"
    using analysis_result [of types m] assms(1,2) by auto
  have f: "(a, f) \<in> set (handlers m)"
    using assms(3,4) by (simp add: handlers_def)
  have look: "lookupHandler d n = resolve (named (handlers m)) n" for n
    using resolve_cong [OF h] by (simp add: lookupHandler_resolve d getConnectedComponents_parts)
  have "map_of (graph d0) a = Some (successors types (named (handlers m)) f)"
    using succ f assms(5) by blast
  then have "getSuccessors d a = successors types (named (handlers m)) f"
    using getConnectedComponents_graph(1) [OF g] by (simp add: getSuccessors_def d at_def)
  moreover have "handler_ok types (named (handlers m)) f"
    using an f unfolding phases_ok_def by fastforce
  ultimately show ?thesis
    using assms(5,6) by (simp add: look successors_def handler_ok_def comp_def)
qed

text \<open>
  C9: The components of the analysis are the connected components of the graph: each connected set
  of handlers appears once, with the successors of its handlers.
\<close>

theorem analysis_components:
  assumes "HandlerDependencyAnalysis types m = Ok () d"
  shows "(\<lambda>sg. fst ` set sg) ` set (subGraphs d) = (\<lambda>v. connected (graph d) `` {v}) ` fst ` set (graph d) \<and>
    distinct (map (\<lambda>sg. fst ` set sg) (subGraphs d)) \<and>
    (\<forall>sg \<in> set (subGraphs d). \<forall>v \<in> fst ` set sg. at sg v = getSuccessors d v)"
proof -
  obtain d0 where d: "d = getConnectedComponents d0" and g: "smap_inv (graph d0)"
    using analysis_result [of types m] assms by auto
  note graph = getConnectedComponents_graph [OF g, folded d]
  have c: "connected (graph d) = connected (graph d0)"
    by (rule connected_at) (rule graph(1))
  have sub: "subGraphs d = map fst (parts (graph d0))"
    by (simp add: d getConnectedComponents_parts)
  have "(\<lambda>sg. fst ` set sg) ` set (subGraphs d) = (\<lambda>v. connected (graph d) `` {v}) ` fst ` set (graph d)"
    using parts_result(1) [OF g] unfolding sub c graph(3) by (simp add: image_image vertices_of_def)
  moreover have "distinct (map (\<lambda>sg. fst ` set sg) (subGraphs d))"
    using parts_result(2) [OF g] by (simp add: sub comp_def vertices_of_def [abs_def])
  moreover have "at (fst p) v = getSuccessors d v" if "p \<in> set (parts (graph d0))" "v \<in> fst ` set (fst p)" for p v
  proof -
    have "map_of (fst p) v = Some (at (graph d0) v)"
      using parts_result(3) [OF g that(1)] that(2) unfolding component_ok_def case_prod_beta by blast
    then have "at (fst p) v = at (graph d0) v"
      by (simp add: at_def)
    then show ?thesis
      by (simp add: graph(1) getSuccessors_def)
  qed
  ultimately show ?thesis
    by (simp add: sub)
qed

text \<open>
  C23: Where no component meets one of its initial handlers twice, its order is a topological one: no
  handler twice, each after all its predecessors, and all of them if the graph has no cycle.
\<close>

theorem component_order:
  assumes "smap_inv (graph d)" and "\<forall>p \<in> set (parts (graph d)). distinct (snd p)"
  shows "list_all2 (\<lambda>sg ns. sorted_component (graph d) (fst ` set sg) ns)
    (subGraphs (getConnectedComponents d)) (subGraphsOrder (getConnectedComponents d))"
  by (rule getConnectedComponents_order [OF assms])

definition chain :: deps where
  "chain = deps0\<lparr>graph := [(0, [2]), (1, [0]), (2, [])]\<rparr>"

theorem component_order_witness:
  "subGraphsOrder (getConnectedComponents chain) = [[1, 0, 2]] \<and>
   list_all2 (\<lambda>sg ns. sorted_component (graph chain) (fst ` set sg) ns)
    (subGraphs (getConnectedComponents chain)) (subGraphsOrder (getConnectedComponents chain))"
proof -
  have "smap_inv (graph chain)" "\<forall>p \<in> set (parts (graph chain)). distinct (snd p)"
    by code_simp+
  moreover have "subGraphsOrder (getConnectedComponents chain) = [[1, 0, 2]]"
    by code_simp
  ultimately show ?thesis
    using component_order [of chain] by blast
qed

definition tangled :: deps where
  "tangled = deps0\<lparr>graph := [(0, [1, 2]), (1, []), (2, []), (3, [1, 2, 6]), (4, [5]), (5, [6]), (6, [])]\<rparr>"

text \<open>
  In general the order is not topological. A handler is coloured when it leaves the worklist of
  the traversal, so one that two neighbours reach is collected twice, and its successors lose an
  edge too many: here handlers 3 and 4 come twice and handler 6 comes before its predecessor 5.
\<close>

theorem component_order_broken:
  "subGraphsOrder (getConnectedComponents tangled) = [[0, 3, 3, 4, 4, 1, 2, 6, 5]] \<and> 6 \<in> set (getSuccessors tangled 5)"
  by code_simp

section \<open>A module with two handlers\<close>

definition two_types :: "val \<Rightarrow> ty" where
  "two_types v = (if v = 1 then StructType True [] ''B'' else AtomType)"

definition two_handlers :: "(addr \<times> func_op) list" where
  "two_handlers =
    [(7, \<lparr>fn_name = ''__handler_A'', fn_attrs = [(''event'', StrAttr ''A''), (''type'', StrAttr ''handler'')],
       fn_private = True, fn_args = [],
       fn_body = [Op (ConstantOp (StrAttr ''x'')) [] [0] [], Op InitOp [0] [1] [], Op ReturnOp [1] [] [],
         Op TerminateOp [] [] []]\<rparr>),
     (3, \<lparr>fn_name = ''__handler_B'', fn_attrs = [(''event'', StrAttr ''B''), (''type'', StrAttr ''handler'')],
       fn_private = True, fn_args = [], fn_body = [Op TerminateOp [] [] []]\<rparr>)]"

lemma two_handlers_analysis:
  "\<exists>d. HandlerDependencyAnalysis two_types two_handlers = Ok () d \<and> graph d = [(3, []), (7, [3])] \<and>
     subGraphs d = [[(3, []), (7, [3])]] \<and> subGraphsOrder d = [[7, 3]]"
proof -
  have "case HandlerDependencyAnalysis two_types two_handlers of
      Ok _ d \<Rightarrow> graph d = [(3, []), (7, [3])] \<and> subGraphs d = [[(3, []), (7, [3])]] \<and> subGraphsOrder d = [[7, 3]]
    | Crash _ \<Rightarrow> False"
    by code_simp
  then show ?thesis
    by (auto split: outcome.splits)
qed

theorem analysis_successors_witness:
  "\<exists>d. HandlerDependencyAnalysis two_types two_handlers = Ok () d \<and> getSuccessors d 7 = [3] \<and>
     getSuccessors d 7 = map (the \<circ> lookupHandler d) [HandlerFullName ''B'' ''x'']"
proof -
  obtain d where d: "HandlerDependencyAnalysis two_types two_handlers = Ok () d" "graph d = [(3, []), (7, [3])]"
    using two_handlers_analysis by blast
  have "generated two_types (snd (hd two_handlers)) = Some [HandlerFullName ''B'' ''x'']"
    "isHandler (snd (hd two_handlers)) = Some True" "\<not> isExtern (snd (hd two_handlers))" "distinct (map fst two_handlers)"
    "(7, snd (hd two_handlers)) \<in> set two_handlers"
    by code_simp+
  then have "getSuccessors d 7 = map (the \<circ> lookupHandler d) [HandlerFullName ''B'' ''x'']"
    using analysis_successors [OF d(1)] by blast
  with d show ?thesis
    by (auto simp: getSuccessors_def at_def)
qed

theorem analysis_components_witness:
  "\<exists>d. HandlerDependencyAnalysis two_types two_handlers = Ok () d \<and>
     (\<lambda>sg. fst ` set sg) ` set (subGraphs d) = (\<lambda>v. connected (graph d) `` {v}) ` fst ` set (graph d) \<and>
     (\<lambda>sg. fst ` set sg) ` set (subGraphs d) = {{3, 7}}"
proof -
  obtain d where d: "HandlerDependencyAnalysis two_types two_handlers = Ok () d" "subGraphs d = [[(3, []), (7, [3])]]"
    using two_handlers_analysis by blast
  with analysis_components [OF d(1)] show ?thesis
    by simp
qed

end
