(* ===== verification/Alkali_Mapping.thy ===== *)
theory Alkali_Mapping
  imports Ep2_IR "HOL-Library.Multiset"
begin

text \<open>
  The performance models and the greedy mapping of handlers to compute units
  (\<^verbatim>\<open>include/ep2/passes/Mapping.h\<close>, \<^verbatim>\<open>lib/ep2/Passes/Mapping/PerformanceModel.cpp\<close>): the contract of
  a mapping, and the two models.
\<close>

section \<open>Machine integers\<close>

text \<open>Conversions between \<^verbatim>\<open>int\<close> and \<^verbatim>\<open>size_t\<close>.\<close>

definition as_size_t :: "int \<Rightarrow> int" where
  "as_size_t x = x mod 2 ^ 64"

definition as_int :: "int \<Rightarrow> int" where
  "as_int x = (x + 2 ^ 31) mod 2 ^ 32 - 2 ^ 31"

text \<open>\<^verbatim>\<open>std::to_string\<close> of a number that is not negative.\<close>

fun to_string :: "nat \<Rightarrow> string" where
  "to_string n = (if n < 10 then [char_of (48 + n)] else to_string (n div 10) @ [char_of (48 + n mod 10)])"

declare to_string.simps [simp del]

section \<open>Performance models\<close>

record perf_model =
  getLatency :: "func_op \<Rightarrow> int"
  getCommunicationCost :: "string list \<Rightarrow> string list \<Rightarrow> int"
  getLatencyTarget :: int
  getComputeUnits :: "string list"

definition isTableOp :: "op \<Rightarrow> bool" where
  "isTableOp p \<longleftrightarrow> op_kind p = LookupOp \<or> op_kind p = UpdateOp"

definition fpgaLatency :: "func_op \<Rightarrow> int" where
  "fpgaLatency f = foldl (\<lambda>latency p. if isTableOp p then 3 else latency) 1 (walk_ops (fn_body f))"

definition FPGAPerformanceModel :: perf_model where
  "FPGAPerformanceModel =
     \<lparr>getLatency = fpgaLatency, getCommunicationCost = \<lambda>froms tos. 0, getLatencyTarget = 1,
      getComputeUnits = map (\<lambda>i. ''vcu'' @ to_string i) [0..<128]\<rparr>"

definition netronomeLatency :: "func_op \<Rightarrow> int" where
  "netronomeLatency f = foldl (\<lambda>latency p.
     if isTableOp p then latency + 100
     else if op_kind p \<in> {AddOp, SubOp} then latency + 1
     else if op_kind p \<in> {EmitOp, ExtractOp} then latency + 1
     else latency) 0 (walk_ops (fn_body f))"

definition NetronomePerformanceModel :: perf_model where
  "NetronomePerformanceModel =
     \<lparr>getLatency = netronomeLatency, getCommunicationCost = \<lambda>froms tos. 0, getLatencyTarget = 100,
      getComputeUnits =
        [''cu0'', ''cu1'', ''cu2'', ''cu3'', ''cu4'', ''cu5'', ''cu6'',
         ''cu9'', ''cu10'', ''cu11'', ''cu12'', ''cu13'', ''cu14'', ''cu15'',
         ''cu16'', ''cu17'', ''cu18'', ''cu19'', ''cu20'', ''cu21'', ''cu22'', ''cu23'']\<rparr>"

text \<open>The walk of \<^verbatim>\<open>isTableClean\<close>: the key seen first, and whether all keys were that one.\<close>

definition tableKey :: "op \<Rightarrow> val option" where
  "tableKey p = (if isTableOp p then (case op_operands p of t # k # _ \<Rightarrow> Some k | _ \<Rightarrow> None) else None)"

definition keyStep :: "val option \<times> bool \<Rightarrow> op \<Rightarrow> val option \<times> bool" where
  "keyStep = (\<lambda>(key, keyUnique) p. case tableKey p of
     None \<Rightarrow> (key, keyUnique)
   | Some opKey \<Rightarrow> (case key of
       None \<Rightarrow> (Some opKey, keyUnique)
     | Some k \<Rightarrow> (Some k, keyUnique \<and> k = opKey)))"

definition isTableClean :: "func_op \<Rightarrow> bool" where
  "isTableClean f = (let (key, keyUnique) = foldl keyStep (None, True) (walk_ops (fn_body f))
     in keyUnique \<and> key \<noteq> None)"

section \<open>The greedy mapping\<close>

text \<open>\<^verbatim>\<open>UnitMap\<close> has exactly the indices of the pipeline as keys: a list.\<close>

type_synonym unit_map = "string list list"

record mapping_result =
  latency :: int
  bottleneckIndex :: nat
  unitMap :: unit_map

definition getLatencyForUnit :: "perf_model \<Rightarrow> func_op list \<Rightarrow> unit_map \<Rightarrow> nat \<Rightarrow> int" where
  "getLatencyForUnit model ops um idx =
     (let commLatency = (if idx < length ops - 1
          then getCommunicationCost model (um ! idx) (um ! (idx + 1)) else 0)
      in getLatency model (ops ! idx) + commLatency)"

text \<open>The body of the inner loop: whether the next unit goes to this handler.\<close>

definition takesUnit :: "perf_model \<Rightarrow> func_op list \<Rightarrow> unit_map \<Rightarrow> nat \<Rightarrow> bool" where
  "takesUnit model ops um idx \<longleftrightarrow>
     as_size_t (getLatencyForUnit model ops um idx) >
       as_size_t (as_size_t (getLatencyTarget model) * int (length (um ! idx))) \<and>
     \<not> (\<not> isTableClean (ops ! idx) \<and> length (um ! idx) \<ge> 1)"

fun assignUnits :: "perf_model \<Rightarrow> func_op list \<Rightarrow> string list \<Rightarrow> unit_map \<Rightarrow> unit_map" where
  "assignUnits model ops [] um = um"
| "assignUnits model ops (unit # units) um = (case find (takesUnit model ops um) [0..<length ops] of
     None \<Rightarrow> um
   | Some idx \<Rightarrow> assignUnits model ops units (um[idx := um ! idx @ [unit]]))"

text \<open>The second loop; \<open>None\<close> is the division by zero.\<close>

fun findBottleneck :: "perf_model \<Rightarrow> func_op list \<Rightarrow> unit_map \<Rightarrow> nat list \<Rightarrow> int \<Rightarrow> nat \<Rightarrow> (int \<times> nat) option" where
  "findBottleneck model ops um [] maxLatency targetIndex = Some (maxLatency, targetIndex)"
| "findBottleneck model ops um (idx # idxs) maxLatency targetIndex =
     (if um ! idx = [] then None
      else let totalLatency = as_size_t (getLatencyForUnit model ops um idx) div int (length (um ! idx))
           in if totalLatency > as_size_t maxLatency
              then findBottleneck model ops um idxs (as_int totalLatency) idx
              else findBottleneck model ops um idxs maxLatency targetIndex)"

definition getMapping :: "perf_model \<Rightarrow> func_op list \<Rightarrow> mapping_result option" where
  "getMapping model ops =
     (let um = assignUnits model ops (getComputeUnits model) (replicate (length ops) [])
      in case findBottleneck model ops um [0..<length ops] 0 0 of
           None \<Rightarrow> None
         | Some (maxLatency, targetIndex) \<Rightarrow>
             Some \<lparr>latency = maxLatency, bottleneckIndex = targetIndex, unitMap = um\<rparr>)"

section \<open>Assigning units\<close>

lemma concat_update:
  "i < length um \<Longrightarrow> mset (concat (um[i := um ! i @ xs])) = mset (concat um) + mset xs"
proof (induction um arbitrary: i)
  case (Cons x um)
  then show ?case by (cases i) auto
qed simp

lemma length_assignUnits [simp]: "length (assignUnits model ops units um) = length um"
  by (induction model ops units um rule: assignUnits.induct) (auto split: option.splits)

text \<open>Units are handed out in order, each once, until no handler takes one.\<close>

lemma assignUnits_units:
  assumes "length um = length ops"
  shows "\<exists>k \<le> length units. mset (concat (assignUnits model ops units um)) = mset (concat um) + mset (take k units) \<and>
    (k < length units \<longrightarrow> (\<forall>i < length ops. \<not> takesUnit model ops (assignUnits model ops units um) i))"
  using assms
proof (induction model ops units um rule: assignUnits.induct)
  case (1 model ops um)
  then show ?case by simp
next
  case (2 model ops unit units um)
  show ?case
  proof (cases "find (takesUnit model ops um) [0..<length ops]")
    case None
    then have "assignUnits model ops (unit # units) um = um" "\<forall>i < length ops. \<not> takesUnit model ops um i"
      by (simp, simp only: find_upt_None)
    then show ?thesis
      by (intro exI [of _ 0]) (simp only: take_0 mset.simps add_0_right le0 simp_thms, blast)
  next
    case (Some i)
    then have i: "i < length um"
      using 2(2) by (simp add: find_upt_least)
    obtain k where k: "k \<le> length units"
      "mset (concat (assignUnits model ops units (um[i := um ! i @ [unit]]))) =
        mset (concat (um[i := um ! i @ [unit]])) + mset (take k units)"
      "k < length units \<longrightarrow> (\<forall>j < length ops. \<not> takesUnit model ops (assignUnits model ops units (um[i := um ! i @ [unit]])) j)"
      using 2(1) [OF Some] 2(2) by auto
    then show ?thesis
      using Some concat_update [OF i, of "[unit]"] by (intro exI [of _ "Suc k"]) simp
  qed
qed

text \<open>A property of single handlers that every hand-out keeps.\<close>

lemma assignUnits_each:
  assumes "\<forall>i < length ops. P i (um ! i)" and "length um = length ops"
    and "\<And>i us u um'. i < length ops \<Longrightarrow> P i (um' ! i) \<Longrightarrow> takesUnit model ops um' i \<Longrightarrow> P i (um' ! i @ [u])"
  shows "\<forall>i < length ops. P i (assignUnits model ops units um ! i)"
  using assms
proof (induction model ops units um rule: assignUnits.induct)
  case (1 model ops um)
  then show ?case by simp
next
  case (2 model ops unit units um)
  show ?case
  proof (cases "find (takesUnit model ops um) [0..<length ops]")
    case None
    then show ?thesis using 2(2) by simp
  next
    case (Some i)
    then have i: "i < length ops" "takesUnit model ops um i"
      by (simp_all add: find_upt_least)
    let ?um = "um[i := um ! i @ [unit]]"
    have each: "\<forall>j < length ops. P j (?um ! j)"
      using 2(2,3) 2(4) [OF i(1) _ i(2)] i(1) by (auto simp: nth_list_update)
    have "\<forall>j < length ops. P j (assignUnits model ops units ?um ! j)"
      by (rule 2(1) [OF Some each]) (use 2(3,4) in auto)
    with Some show ?thesis by simp
  qed
qed

lemma assignUnits_unclean:
  assumes "i < length ops" and "\<not> isTableClean (ops ! i)"
  shows "length (assignUnits model ops units (replicate (length ops) []) ! i) \<le> 1"
  using assignUnits_each [where P = "\<lambda>i us. \<not> isTableClean (ops ! i) \<longrightarrow> length us \<le> 1" and model = model and units = units
      and um = "replicate (length ops) []"] assms
  by (auto simp: takesUnit_def not_le Suc_le_eq)

section \<open>The result of the mapping\<close>

text \<open>The range of the numbers in which the conversions of the code change nothing.\<close>

definition model_ok :: "perf_model \<Rightarrow> func_op list \<Rightarrow> bool" where
  "model_ok model ops \<longleftrightarrow>
     (\<forall>f \<in> set ops. \<forall>a b. 0 \<le> getLatency model f \<and> 0 \<le> getCommunicationCost model a b \<and>
        getLatency model f + getCommunicationCost model a b < 2 ^ 31) \<and>
     0 \<le> getLatencyTarget model \<and> getLatencyTarget model < 2 ^ 31 \<and>
     length (getComputeUnits model) < 2 ^ 31 \<and> distinct (getComputeUnits model)"

lemma as_size_t_id [simp]: "0 \<le> x \<Longrightarrow> x < 2 ^ 64 \<Longrightarrow> as_size_t x = x"
  by (simp add: as_size_t_def)

lemma as_int_id [simp]: "0 \<le> x \<Longrightarrow> x < 2 ^ 31 \<Longrightarrow> as_int x = x"
  by (simp add: as_int_def)

lemma total_range:
  assumes "model_ok model ops" and "i < length ops"
  shows "0 \<le> getLatencyForUnit model ops um i" and "getLatencyForUnit model ops um i < 2 ^ 31"
proof -
  have "ops ! i \<in> set ops" using assms(2) by simp
  then have l: "0 \<le> getLatency model (ops ! i)" "0 \<le> getCommunicationCost model a b"
    "getLatency model (ops ! i) + getCommunicationCost model a b < 2 ^ 31" for a b
    using assms(1) unfolding model_ok_def by blast+
  have "getLatency model (ops ! i) < 2 ^ 31"
    using l(2,3) [of "[]" "[]"] by linarith
  with l show "0 \<le> getLatencyForUnit model ops um i" "getLatencyForUnit model ops um i < 2 ^ 31"
    by (auto simp: getLatencyForUnit_def Let_def)
qed

lemma takesUnit_iff:
  assumes "model_ok model ops" and "i < length ops" and "length (um ! i) \<le> length (getComputeUnits model)"
  shows "takesUnit model ops um i \<longleftrightarrow>
    getLatencyTarget model * int (length (um ! i)) < getLatencyForUnit model ops um i \<and>
    (isTableClean (ops ! i) \<or> um ! i = [])"
proof -
  have t: "0 \<le> getLatencyTarget model" "getLatencyTarget model < 2 ^ 31" and u: "length (um ! i) < 2 ^ 31"
    using assms by (auto simp: model_ok_def)
  have "getLatencyTarget model * int (length (um ! i)) \<le> 2 ^ 31 * 2 ^ 31"
    using t u by (intro mult_mono) auto
  then have "as_size_t (getLatencyTarget model * int (length (um ! i))) = getLatencyTarget model * int (length (um ! i))"
    using t by (intro as_size_t_id) auto
  moreover have "as_size_t (getLatencyTarget model) = getLatencyTarget model"
    "as_size_t (getLatencyForUnit model ops um i) = getLatencyForUnit model ops um i"
    using t total_range [OF assms(1,2), of um] by simp_all
  ultimately show ?thesis
    by (cases "um ! i") (simp_all add: takesUnit_def)
qed

text \<open>What one packet costs in a stage with several units.\<close>

definition share :: "perf_model \<Rightarrow> func_op list \<Rightarrow> unit_map \<Rightarrow> nat \<Rightarrow> int" where
  "share model ops um i = getLatencyForUnit model ops um i div int (length (um ! i))"

lemma share_range:
  assumes "model_ok model ops" and "i < length ops"
  shows "0 \<le> share model ops um i" and "share model ops um i < 2 ^ 31"
proof -
  note t = total_range [OF assms, of um]
  show "0 \<le> share model ops um i"
    unfolding share_def using t(1) by (simp add: div_int_pos_iff)
  have "share model ops um i \<le> getLatencyForUnit model ops um i"
    unfolding share_def using t(1) by (cases "getLatencyForUnit model ops um i = 0") (auto intro: int_div_le_self)
  with t(2) show "share model ops um i < 2 ^ 31" by linarith
qed

lemma findBottleneck_result:
  assumes "model_ok model ops" and "\<forall>i \<in> set idxs. i < length ops" and "0 \<le> l" and "l < 2 ^ 31"
  shows "case findBottleneck model ops um idxs l t of
      None \<Rightarrow> (\<exists>i \<in> set idxs. um ! i = [])
    | Some (l', t') \<Rightarrow> (\<forall>i \<in> set idxs. um ! i \<noteq> [] \<and> share model ops um i \<le> l') \<and> l \<le> l' \<and>
        (l' = l \<and> t' = t \<or> t' \<in> set idxs \<and> share model ops um t' = l')"
  using assms(2-4)
proof (induction idxs arbitrary: l t)
  case Nil
  then show ?case by simp
next
  case (Cons i idxs)
  have i: "i < length ops" using Cons.prems by simp
  note r = total_range [OF assms(1) i, of um] share_range [OF assms(1) i, of um]
  show ?case
  proof (cases "um ! i = []")
    case True
    then show ?thesis by simp
  next
    case ne: False
    show ?thesis
    proof (cases "share model ops um i > l")
      case True
      then have "findBottleneck model ops um (i # idxs) l t = findBottleneck model ops um idxs (share model ops um i) i"
        using ne r Cons.prems by (simp add: Let_def flip: share_def)
      moreover note Cons.IH [of "share model ops um i" i]
      ultimately show ?thesis
        using Cons.prems ne r True by (cases "findBottleneck model ops um idxs (share model ops um i) i") auto
    next
      case False
      then have "findBottleneck model ops um (i # idxs) l t = findBottleneck model ops um idxs l t"
        using ne r Cons.prems by (simp add: Let_def flip: share_def)
      moreover note Cons.IH [of l t]
      ultimately show ?thesis
        using Cons.prems ne False by (cases "findBottleneck model ops um idxs l t") auto
    qed
  qed
qed

lemma mset_take_distinct:
  assumes "mset xs = mset (take k units)" and "distinct units"
  shows "distinct xs" and "set xs = set (take k units)" and "length xs \<le> length units"
proof -
  show "distinct xs"
    using assms by (metis distinct_take mset_eq_imp_distinct_iff)
  show "set xs = set (take k units)"
    using assms(1) by (metis set_mset_mset)
  show "length xs \<le> length units"
    using assms(1) by (metis length_take min.cobounded1 size_mset)
qed

lemma length_nth_concat: "i < length um \<Longrightarrow> length (um ! i) \<le> length (concat um)"
proof (induction um arbitrary: i)
  case (Cons x um)
  then show ?case by (cases i) (auto simp: trans_le_add2)
qed simp

text \<open>
  The contract of a mapping: every handler has units, no unit is used twice, one that may not be
  replicated has one unit, the latency is that of the slowest stage and the index that of such a
  stage, and when units are left every stage that may be replicated meets the target.
\<close>

definition mapping_ok :: "perf_model \<Rightarrow> func_op list \<Rightarrow> mapping_result \<Rightarrow> bool" where
  "mapping_ok model ops r \<longleftrightarrow>
     length (unitMap r) = length ops \<and>
     distinct (concat (unitMap r)) \<and> set (concat (unitMap r)) \<subseteq> set (getComputeUnits model) \<and>
     (\<forall>i < length ops. unitMap r ! i \<noteq> [] \<and> (\<not> isTableClean (ops ! i) \<longrightarrow> length (unitMap r ! i) = 1) \<and>
        share model ops (unitMap r) i \<le> latency r) \<and>
     (ops \<noteq> [] \<longrightarrow> bottleneckIndex r < length ops \<and> share model ops (unitMap r) (bottleneckIndex r) = latency r) \<and>
     (set (concat (unitMap r)) \<noteq> set (getComputeUnits model) \<longrightarrow>
        (\<forall>i < length ops. isTableClean (ops ! i) \<longrightarrow>
           getLatencyForUnit model ops (unitMap r) i \<le> getLatencyTarget model * int (length (unitMap r ! i))))"

lemma getMapping_assigned:
  assumes "getMapping model ops = Some r"
  shows "unitMap r = assignUnits model ops (getComputeUnits model) (replicate (length ops) [])"
    and "findBottleneck model ops (unitMap r) [0..<length ops] 0 0 = Some (latency r, bottleneckIndex r)"
  using assms by (auto simp: getMapping_def Let_def split: option.splits prod.splits)

lemma getMapping_ok:
  assumes ok: "model_ok model ops" and r: "getMapping model ops = Some r"
  shows "mapping_ok model ops r"
proof -
  let ?um = "unitMap r" and ?units = "getComputeUnits model"
  note um = getMapping_assigned(1) [OF r] and bot = getMapping_assigned(2) [OF r]
  have len: "length ?um = length ops" by (simp add: um)
  have dist: "distinct ?units" using ok by (simp add: model_ok_def)
  obtain k where k: "k \<le> length ?units" "mset (concat ?um) = mset (take k ?units)"
    "k < length ?units \<longrightarrow> (\<forall>i < length ops. \<not> takesUnit model ops ?um i)"
    using assignUnits_units [of "replicate (length ops) []" ops ?units model] by (auto simp flip: um)
  note units = mset_take_distinct [OF k(2) dist]
  have all: "\<forall>i < length ops. ?um ! i \<noteq> [] \<and> share model ops ?um i \<le> latency r"
    "0 \<le> latency r" "latency r = 0 \<and> bottleneckIndex r = 0 \<or>
       bottleneckIndex r < length ops \<and> share model ops ?um (bottleneckIndex r) = latency r"
    using findBottleneck_result [OF ok, of "[0..<length ops]" 0 ?um 0] bot by auto
  have "share model ops ?um 0 = 0" if "latency r = 0" "ops \<noteq> []"
    using all(1) share_range(1) [OF ok, of 0 ?um] that by force
  then have "ops \<noteq> [] \<longrightarrow> bottleneckIndex r < length ops \<and> share model ops ?um (bottleneckIndex r) = latency r"
    using all(3) by auto
  moreover have "getLatencyForUnit model ops ?um i \<le> getLatencyTarget model * int (length (?um ! i))"
    if "set (concat ?um) \<noteq> set ?units" "i < length ops" "isTableClean (ops ! i)" for i
  proof -
    have "k < length ?units"
      using that(1) units(2) k(1) by (cases "k = length ?units") auto
    moreover have "length (?um ! i) \<le> length ?units"
      using length_nth_concat [of i ?um] len that(2) units(3) by simp
    ultimately show ?thesis
      using k(3) takesUnit_iff [OF ok that(2)] that(2,3) by auto
  qed
  moreover have "length (?um ! i) = 1" if "i < length ops" "\<not> isTableClean (ops ! i)" for i
    using assignUnits_unclean [OF that, of model ?units] all(1) that(1)
    by (cases "?um ! i") (auto simp flip: um)
  ultimately show ?thesis
    unfolding mapping_ok_def using len units all(1) set_take_subset [of k ?units] by blast
qed

lemma getMapping_None:
  assumes "model_ok model ops"
  shows "getMapping model ops = None \<longleftrightarrow>
    (\<exists>i < length ops. assignUnits model ops (getComputeUnits model) (replicate (length ops) []) ! i = [])"
  using findBottleneck_result [OF assms, of "[0..<length ops]" 0
      "assignUnits model ops (getComputeUnits model) (replicate (length ops) [])" 0]
  by (auto simp: getMapping_def Let_def split: option.splits)

section \<open>The two models\<close>

lemma digits_val_snoc: "digits_val (s @ [c]) = 10 * digits_val s + digit_val c"
  by (simp add: digits_val_def)

lemma digits_val_to_string: "digits_val (to_string n) = int n"
proof (induction n rule: to_string.induct)
  case (1 n)
  have d: "digit_val (char_of (48 + k)) = int k" if "k < 10" for k :: nat
  proof -
    have "(of_char (char_of (48 + k)) :: int) = int (of_char (char_of (48 + k)))"
      by (rule of_nat_of_char [symmetric])
    also have "\<dots> = int (48 + k)"
      using that by (simp only: of_char_of) simp
    finally show ?thesis
      using that by (simp add: digit_val_def signed_char_def Let_def)
  qed
  show ?case
  proof (cases "n < 10")
    case True
    then show ?thesis
      by (simp add: to_string.simps [of n] digits_val_def d)
  next
    case False
    then show ?thesis
      using 1 [OF False] by (simp add: to_string.simps [of n] digits_val_snoc d) presburger
  qed
qed

lemma to_string_inject [simp]: "to_string m = to_string n \<longleftrightarrow> m = n"
  by (metis digits_val_to_string of_nat_eq_iff)

lemma fpgaLatency_cases: "fpgaLatency f = (if \<exists>p \<in> set (walk_ops (fn_body f)). isTableOp p then 3 else 1)"
proof -
  have "foldl (\<lambda>l p. if isTableOp p then 3 else l) k ps = (if \<exists>p \<in> set ps. isTableOp p then 3 else k)" for k :: int and ps
    by (induction ps arbitrary: k) auto
  then show ?thesis by (simp add: fpgaLatency_def)
qed

lemma foldl_increasing:
  fixes k :: "'a::order"
  assumes "\<And>k p. k \<le> f k p"
  shows "k \<le> foldl f k ps"
proof (induction ps arbitrary: k)
  case (Cons p ps)
  show ?case
    using order.trans [OF assms Cons [of "f k p"]] by simp
qed simp

lemma netronomeLatency_nonneg: "0 \<le> netronomeLatency f"
  unfolding netronomeLatency_def by (rule foldl_increasing) simp

lemma FPGA_simps [simp]:
  "getLatency FPGAPerformanceModel = fpgaLatency" "getCommunicationCost FPGAPerformanceModel a b = 0"
  "getLatencyTarget FPGAPerformanceModel = 1" "length (getComputeUnits FPGAPerformanceModel) = 128"
  by (simp_all add: FPGAPerformanceModel_def)

lemma FPGA_ok: "model_ok FPGAPerformanceModel ops"
  by (auto simp: model_ok_def fpgaLatency_cases) (simp add: FPGAPerformanceModel_def distinct_map inj_on_def)

lemma Netronome_ok:
  "(\<forall>f \<in> set ops. netronomeLatency f < 2 ^ 31) \<Longrightarrow> model_ok NetronomePerformanceModel ops"
  using netronomeLatency_nonneg by (auto simp: model_ok_def NetronomePerformanceModel_def)

lemma total_FPGA [simp]: "getLatencyForUnit FPGAPerformanceModel ops um i = fpgaLatency (ops ! i)"
  by (simp add: getLatencyForUnit_def)

lemma total_Netronome [simp]: "getLatencyForUnit NetronomePerformanceModel ops um i = netronomeLatency (ops ! i)"
  by (simp add: getLatencyForUnit_def NetronomePerformanceModel_def)

lemma findBottleneck_None: "findBottleneck model ops um idxs l t = None \<longleftrightarrow> (\<exists>i \<in> set idxs. um ! i = [])"
  by (induction idxs arbitrary: l t) (auto simp: Let_def)

lemma getMapping_None_iff:
  "getMapping model ops = None \<longleftrightarrow>
    (\<exists>i < length ops. assignUnits model ops (getComputeUnits model) (replicate (length ops) []) ! i = [])"
  using findBottleneck_None [of model ops
      "assignUnits model ops (getComputeUnits model) (replicate (length ops) [])" "[0..<length ops]" 0 0]
  by (auto simp: getMapping_def Let_def split: option.splits)

lemma length_concat_le: "(\<forall>i < length um. length (um ! i) \<le> b) \<Longrightarrow> length (concat um) \<le> b * length um"
proof (induction um)
  case (Cons x um)
  then have "length x \<le> b" "\<forall>i < length um. length (um ! i) \<le> b"
    by fastforce+
  with Cons.IH show ?case by simp
qed simp

text \<open>No stage asks the FPGA for more than three units, so 42 stages never run out of the 128.\<close>

lemma FPGA_units:
  assumes "length ops \<le> 42"
  defines "um \<equiv> assignUnits FPGAPerformanceModel ops (getComputeUnits FPGAPerformanceModel) (replicate (length ops) [])"
  shows "\<forall>i < length ops. \<not> takesUnit FPGAPerformanceModel ops um i" and "\<forall>i < length ops. length (um ! i) \<le> 3"
proof -
  let ?M = FPGAPerformanceModel
  show three: "\<forall>i < length ops. length (um ! i) \<le> 3"
    unfolding um_def
  proof (rule assignUnits_each)
    fix i u um' assume i: "i < length ops" "length (um' ! i) \<le> 3" "takesUnit ?M ops um' i"
    then have "int (length (um' ! i)) < fpgaLatency (ops ! i)"
      using takesUnit_iff [OF FPGA_ok i(1), of um'] by simp
    also have "fpgaLatency (ops ! i) \<le> 3"
      by (simp add: fpgaLatency_cases)
    finally show "length (um' ! i @ [u]) \<le> 3" by simp
  qed simp_all
  obtain k where k: "mset (concat um) = mset (take k (getComputeUnits ?M))" "k \<le> 128"
    "k < 128 \<longrightarrow> (\<forall>i < length ops. \<not> takesUnit ?M ops um i)"
    using assignUnits_units [of "replicate (length ops) []" ops "getComputeUnits ?M" ?M] by (auto simp: um_def)
  have "length (concat um) \<le> 3 * length ops"
    using length_concat_le [of um 3] three by (simp add: um_def)
  moreover have "length (concat um) = k"
    using k(1,2) by (metis FPGA_simps(4) length_take min.absorb2 size_mset)
  ultimately show "\<forall>i < length ops. \<not> takesUnit ?M ops um i"
    using k(3) assms(1) by simp
qed

lemma FPGA_maps:
  assumes "length ops \<le> 42"
  shows "\<exists>r. getMapping FPGAPerformanceModel ops = Some r \<and> latency r \<le> 3 \<and>
    (\<forall>i < length ops. isTableClean (ops ! i) \<longrightarrow> fpgaLatency (ops ! i) \<le> int (length (unitMap r ! i)))"
proof -
  let ?M = FPGAPerformanceModel
  let ?um = "assignUnits ?M ops (getComputeUnits ?M) (replicate (length ops) [])"
  note units = FPGA_units [OF assms]
  have idle: "fpgaLatency (ops ! i) \<le> int (length (?um ! i)) \<or> \<not> isTableClean (ops ! i) \<and> ?um ! i \<noteq> []"
    if "i < length ops" for i
    using units that takesUnit_iff [OF FPGA_ok that, of ?um] by (auto simp: not_less)
  have "1 \<le> fpgaLatency (ops ! i)" for i
    by (simp add: fpgaLatency_cases)
  then have "?um ! i \<noteq> []" if "i < length ops" for i
    using idle [OF that] by (metis list.size(3) not_one_le_zero of_nat_0 order.trans)
  then obtain r where r: "getMapping ?M ops = Some r"
    using getMapping_None_iff [of ?M ops] by auto
  note ok = getMapping_ok [OF FPGA_ok r]
  have "share ?M ops (unitMap r) i \<le> 3" for i
  proof -
    have "share ?M ops (unitMap r) i \<le> fpgaLatency (ops ! i)"
      by (simp add: share_def fpgaLatency_cases) (metis int_div_le_self zero_less_numeral zero_less_one)
    then show ?thesis by (simp add: fpgaLatency_cases split: if_splits)
  qed
  moreover have "latency r = 0" if "ops = []"
    using r that by (auto simp: getMapping_def)
  moreover have "share ?M ops (unitMap r) (bottleneckIndex r) = latency r" if "ops \<noteq> []"
    using ok that unfolding mapping_ok_def by blast
  ultimately have "latency r \<le> 3"
    by (metis zero_le_numeral)
  moreover have "fpgaLatency (ops ! i) \<le> int (length (unitMap r ! i))" if "i < length ops" "isTableClean (ops ! i)" for i
    using idle [OF that(1)] that(2) by (simp add: getMapping_assigned(1) [OF r])
  ultimately show ?thesis
    using r by blast
qed

end
