(* ===== verification/Alkali_Search.thy ===== *)
theory Alkali_Search
  imports Alkali_Mapping
begin

text \<open>
  The search for a pipeline (\<^verbatim>\<open>PipelineMapper\<close> of \<^verbatim>\<open>Mapping.h\<close>, \<^verbatim>\<open>PipeliningPass.cpp\<close>): a loop that
  keeps the best mapping it has seen. How a handler is cut is a parameter.
\<close>

section \<open>The search for a pipeline\<close>

text \<open>A function is known by its address.\<close>

type_synonym func_ref = "nat \<times> func_op"

type_synonym pipeline = "func_ref list"

record mapper =
  performanceModel :: perf_model
  mappedFunctions :: pipeline
  mappingResult :: mapping_result

definition PipelineMapper :: "perf_model \<Rightarrow> mapper" where
  "PipelineMapper model =
     \<lparr>performanceModel = model, mappedFunctions = [],
      mappingResult = \<lparr>latency = getLatencyTarget model + 1000, bottleneckIndex = 0, unitMap = []\<rparr>\<rparr>"

text \<open>\<open>None\<close> is the division by zero of \<^verbatim>\<open>getMapping\<close>.\<close>

definition tryMap :: "pipeline \<Rightarrow> mapper \<Rightarrow> ((bool \<times> mapping_result) \<times> mapper) option" where
  "tryMap pipeline mp = (case getMapping (performanceModel mp) (map snd pipeline) of
     None \<Rightarrow> None
   | Some result \<Rightarrow>
       (let updated = latency result < latency (mappingResult mp);
            mp = (if updated then mp\<lparr>mappingResult := result, mappedFunctions := pipeline\<rparr> else mp)
        in Some ((updated, mappingResult mp), mp)))"

text \<open>
  \<^verbatim>\<open>next\<close> of the explorer: the table cut, which may fail, replaces the bottleneck. \<open>None\<close> is the
  assertion of the vector on an index outside the pipeline.
\<close>

definition explorerNext :: "(func_ref \<Rightarrow> pipeline option) \<Rightarrow> pipeline \<Rightarrow> nat \<Rightarrow> pipeline list option" where
  "explorerNext tableCut pipeline idx =
     (if idx \<ge> length pipeline then None
      else case tableCut (pipeline ! idx) of
        Some newFuncs \<Rightarrow> Some [take idx pipeline @ newFuncs @ drop (idx + 1) pipeline]
      | None \<Rightarrow> Some [])"

definition PIPELINE_EXTRA_SEARCH :: nat where "PIPELINE_EXTRA_SEARCH = 1"

lemma getMapping_latency_ge: "getMapping model ops = Some r \<Longrightarrow> - (2 ^ 31) \<le> latency r"
proof -
  have ge: "- (2 ^ 31) \<le> as_int x" for x
    by (simp add: as_int_def)
  have "- (2 ^ 31) \<le> l'" if "findBottleneck model ops um idxs l t = Some (l', t')" "- (2 ^ 31) \<le> l" for um idxs l t l' t'
    using that
    by (induction idxs arbitrary: l t) (auto simp: Let_def ge split: if_splits simp del: power_numeral)
  then show "getMapping model ops = Some r \<Longrightarrow> - (2 ^ 31) \<le> latency r"
    by (auto simp: getMapping_def Let_def split: option.splits prod.splits)
qed

lemma tryMap_updated:
  assumes "tryMap pipeline mp = Some ((True, result), mp')"
  shows "latency (mappingResult mp') < latency (mappingResult mp)" and "- (2 ^ 31) \<le> latency (mappingResult mp')"
  using assms getMapping_latency_ge
  by (auto simp: tryMap_def Let_def split: option.splits if_splits)

text \<open>
  The log of the loop goes through the units of the best result and names the function of the
  current pipeline at each of its indices; \<open>False\<close> is the assertion of the vector when the
  current pipeline is shorter.
\<close>

definition logMapping :: "pipeline \<Rightarrow> mapping_result \<Rightarrow> bool" where
  "logMapping pipeline result = list_all (\<lambda>index. index < length pipeline) [0..<length (unitMap result)]"

text \<open>The loop. It goes on only after an improvement, so it ends.\<close>

function optimizationLoop ::
    "(pipeline \<Rightarrow> nat \<Rightarrow> pipeline list option) \<Rightarrow> pipeline list \<Rightarrow> nat \<Rightarrow> mapper \<Rightarrow> mapper option" where
  "optimizationLoop explore [] numNonOpts mp = Some mp"
| "optimizationLoop explore (pipeline # pipelines) numNonOpts mp = (case tryMap pipeline mp of
     None \<Rightarrow> None
   | Some ((updated, result), mp') \<Rightarrow>
       if \<not> logMapping pipeline result then None
       else (let numNonOpts = (if updated then 0 else numNonOpts + 1)
        in if numNonOpts \<ge> PIPELINE_EXTRA_SEARCH then Some mp'
           else (case explore pipeline (bottleneckIndex result) of
               None \<Rightarrow> None
             | Some nexts \<Rightarrow> optimizationLoop explore (pipelines @ nexts) numNonOpts mp')))"
  by pat_completeness auto
termination
proof (relation "measure (\<lambda>(explore, ps, k, mp). nat (latency (mappingResult mp) + 2 ^ 31))")
  fix explore :: "pipeline \<Rightarrow> nat \<Rightarrow> pipeline list option" and pipeline pipelines numNonOpts mp v x y mp' updated result numNonOpts' nexts
  assume "tryMap pipeline mp = Some v" "(x, mp') = v" "(updated, result) = x"
    and "numNonOpts' = (if updated then 0 else numNonOpts + 1)" "\<not> PIPELINE_EXTRA_SEARCH \<le> numNonOpts'"
  then have "tryMap pipeline mp = Some ((True, result), mp')"
    by (cases updated) (auto simp: PIPELINE_EXTRA_SEARCH_def)
  from tryMap_updated [OF this]
  show "((explore, pipelines @ nexts, numNonOpts', mp'), explore, pipeline # pipelines, numNonOpts, mp)
      \<in> measure (\<lambda>(explore, ps, k, mp). nat (latency (mappingResult mp) + 2 ^ 31))"
    by simp
qed auto

definition setAttr :: "string \<Rightarrow> attr \<Rightarrow> func_op \<Rightarrow> func_op" where
  "setAttr k a f = f\<lparr>fn_attrs := insert_or_assign k a (fn_attrs f)\<rparr>"

text \<open>
  \<^verbatim>\<open>finalize\<close>: the handlers that are not part of the pipeline go, the others learn their units. The
  kind of an external function is not read; \<open>None\<close> is the null dereference on another function
  without a kind.
\<close>

definition setInstances :: "mapper \<Rightarrow> func_ref \<Rightarrow> func_ref" where
  "setInstances mp = (\<lambda>(a, f). foldl (\<lambda>(a, f) i.
     if fst (mappedFunctions mp ! i) = a then (a, setAttr ''instances'' (StrArrayAttr (unitMap (mappingResult mp) ! i)) f)
     else (a, f)) (a, f) [0..<length (mappedFunctions mp)])"

definition finalize :: "mapper \<Rightarrow> func_ref list \<Rightarrow> func_ref list option" where
  "finalize mp m =
     (if list_all (\<lambda>(a, f). isExtern f \<or> isHandler f \<noteq> None) m
      then Some (map (setInstances mp) (filter (\<lambda>(a, f).
        isExtern f \<or> isHandler f = Some False \<or> a \<in> set (map fst (mappedFunctions mp))) m))
      else None)"

section \<open>What the search keeps\<close>

text \<open>The mapper holds the mapping of its pipeline, or nothing yet.\<close>

definition mapper_inv :: "mapper \<Rightarrow> bool" where
  "mapper_inv mp \<longleftrightarrow>
     mp = PipelineMapper (performanceModel mp) \<or>
     getMapping (performanceModel mp) (map snd (mappedFunctions mp)) = Some (mappingResult mp) \<and>
     latency (mappingResult mp) < getLatencyTarget (performanceModel mp) + 1000"

lemma mapper_inv_init: "mapper_inv (PipelineMapper model)"
  by (simp add: mapper_inv_def PipelineMapper_def)

lemma mapper_inv_latency:
  assumes "mapper_inv mp"
  shows "latency (mappingResult mp) \<le> getLatencyTarget (performanceModel mp) + 1000"
proof -
  have "latency (mappingResult (PipelineMapper model)) = getLatencyTarget model + 1000" for model
    by (simp add: PipelineMapper_def)
  with assms show ?thesis
    unfolding mapper_inv_def by (metis less_imp_le order_refl)
qed

lemma tryMap_inv:
  assumes "mapper_inv mp" and "tryMap pipeline mp = Some ((updated, result), mp')"
  shows "mapper_inv mp'" and "latency (mappingResult mp') \<le> latency (mappingResult mp)"
    and "performanceModel mp' = performanceModel mp"
    and "\<And>r. getMapping (performanceModel mp) (map snd pipeline) = Some r \<Longrightarrow> latency (mappingResult mp') \<le> latency r"
    and "result = mappingResult mp'"
proof -
  obtain r where r: "getMapping (performanceModel mp) (map snd pipeline) = Some r"
    and mp': "mp' = (if latency r < latency (mappingResult mp) then mp\<lparr>mappingResult := r, mappedFunctions := pipeline\<rparr> else mp)"
    and res: "result = mappingResult mp'"
    using assms(2) by (auto simp: tryMap_def Let_def split: option.splits)
  then show "latency (mappingResult mp') \<le> latency (mappingResult mp)" "performanceModel mp' = performanceModel mp"
    "\<And>r. getMapping (performanceModel mp) (map snd pipeline) = Some r \<Longrightarrow> latency (mappingResult mp') \<le> latency r"
    "result = mappingResult mp'"
    by auto
  show "mapper_inv mp'"
  proof (cases "latency r < latency (mappingResult mp)")
    case True
    then show ?thesis
      using r mp' mapper_inv_latency [OF assms(1)] by (simp add: mapper_inv_def)
  next
    case False
    then show ?thesis using mp' assms(1) by simp
  qed
qed

lemma loop_step:
  assumes "optimizationLoop explore (p # ps) k mp = Some mp'"
  obtains (stop) updated result where "tryMap p mp = Some ((updated, result), mp')"
      "PIPELINE_EXTRA_SEARCH \<le> (if updated then 0 else k + 1)"
  | (continue) updated result mp1 nexts where "tryMap p mp = Some ((updated, result), mp1)" "logMapping p result"
      "\<not> PIPELINE_EXTRA_SEARCH \<le> (if updated then 0 else k + 1)" "explore p (bottleneckIndex result) = Some nexts"
      "optimizationLoop explore (ps @ nexts) (if updated then 0 else k + 1) mp1 = Some mp'"
proof -
  obtain updated result mp1 where t: "tryMap p mp = Some ((updated, result), mp1)"
    using assms by (auto split: option.splits)
  have log: "logMapping p result"
    using assms t by (simp split: if_splits)
  show thesis
  proof (cases "PIPELINE_EXTRA_SEARCH \<le> (if updated then 0 else k + 1)")
    case True
    then have "mp1 = mp'"
      using assms t log by (simp add: Let_def)
    with True t show ?thesis by (auto intro: stop)
  next
    case False
    then obtain nexts where "explore p (bottleneckIndex result) = Some nexts"
      "optimizationLoop explore (ps @ nexts) (if updated then 0 else k + 1) mp1 = Some mp'"
      using assms t log by (simp add: Let_def del: optimizationLoop.simps(1) split: option.splits)
    from continue [OF t log False this] show ?thesis .
  qed
qed

lemma loop_inv:
  assumes "mapper_inv mp" and "optimizationLoop explore ps k mp = Some mp'"
  shows "mapper_inv mp' \<and> performanceModel mp' = performanceModel mp \<and>
    latency (mappingResult mp') \<le> latency (mappingResult mp)"
  using assms
proof (induction explore ps k mp arbitrary: mp' rule: optimizationLoop.induct)
  case (1 explore k mp)
  then show ?case by simp
next
  case (2 explore p ps k mp)
  from 2(3) show ?case
  proof (cases rule: loop_step)
    case stop
    from tryMap_inv [OF 2(2) stop(1)] show ?thesis by simp
  next
    case (continue updated result mp1 nexts)
    note inv = tryMap_inv [OF 2(2) continue(1)]
    have "\<not> \<not> logMapping p result" using continue(2) by simp
    from 2(1) [OF continue(1) refl refl this refl continue(3,4) inv(1) continue(5)] inv show ?thesis
      by auto
  qed
qed

lemma loop_first:
  assumes "getMapping model (map snd p) = Some r" and "optimizationLoop explore [p] 0 (PipelineMapper model) = Some mp"
  shows "latency (mappingResult mp) \<le> latency r"
  using assms(2)
proof (cases rule: loop_step)
  case (stop updated result)
  then show ?thesis
    by (auto simp: tryMap_def assms(1) PipelineMapper_def Let_def not_less split: if_splits)
next
  case (continue updated result mp1 nexts)
  have "performanceModel (PipelineMapper model) = model"
    by (simp add: PipelineMapper_def)
  note inv = tryMap_inv [OF mapper_inv_init continue(1), unfolded this]
  from loop_inv [OF inv(1) continue(5)] inv(4) [OF assms(1)] show ?thesis by simp
qed

lemma search_result:
  assumes "getMapping model [snd f] = Some r" and "latency r < getLatencyTarget model + 1000"
    and "optimizationLoop explore [[f]] 0 (PipelineMapper model) = Some mp"
  shows "getMapping model (map snd (mappedFunctions mp)) = Some (mappingResult mp) \<and>
    latency (mappingResult mp) \<le> latency r \<and> mp \<noteq> PipelineMapper model"
proof -
  have r: "getMapping model (map snd [f]) = Some r"
    using assms(1) by simp
  have pm: "performanceModel (PipelineMapper model) = model"
    by (simp add: PipelineMapper_def)
  note first = loop_first [OF r assms(3)]
  then have "mp \<noteq> PipelineMapper model"
    using assms(2) by (auto simp: PipelineMapper_def)
  then show ?thesis
    using first loop_inv [OF mapper_inv_init assms(3)] unfolding mapper_inv_def pm by auto
qed

section \<open>The search returns\<close>

text \<open>
  Pipelines that the cuts of the explorer lead to: each of them can be mapped, and no cut
  replaces a stage by nothing.
\<close>

definition closed_cuts :: "perf_model \<Rightarrow> (func_ref \<Rightarrow> pipeline option) \<Rightarrow> (pipeline \<Rightarrow> bool) \<Rightarrow> bool" where
  "closed_cuts model tableCut S \<longleftrightarrow>
     (\<forall>p. S p \<longrightarrow> p \<noteq> [] \<and> getMapping model (map snd p) \<noteq> None \<and>
       (\<forall>i < length p. \<forall>fs. tableCut (p ! i) = Some fs \<longrightarrow> fs \<noteq> [] \<and> S (take i p @ fs @ drop (i + 1) p)))"

lemma getMapping_sizes:
  assumes "getMapping model ops = Some r" and "ops \<noteq> []"
  shows "length (unitMap r) = length ops" and "bottleneckIndex r < length ops"
proof -
  have "t' = t \<or> t' \<in> set idxs" if "findBottleneck model ops um idxs l t = Some (l', t')" for um idxs l t l' t'
    using that by (induction idxs arbitrary: l t) (fastforce simp: Let_def split: if_splits)+
  then show "length (unitMap r) = length ops" "bottleneckIndex r < length ops"
    using assms by (fastforce simp: getMapping_def Let_def split: option.splits)+
qed

lemma tryMap_sizes:
  assumes "tryMap p mp = Some ((updated, result), mp')" and "p \<noteq> []"
  shows "updated \<Longrightarrow> length (unitMap result) = length p \<and> bottleneckIndex result < length p \<and> mappedFunctions mp' = p"
    and "\<not> updated \<Longrightarrow> mp' = mp" and "result = mappingResult mp'"
  using assms getMapping_sizes [of "performanceModel mp" "map snd p"]
  by (auto simp: tryMap_def Let_def split: option.splits if_splits)

lemma logMapping_iff: "logMapping p result \<longleftrightarrow> length (unitMap result) \<le> length p"
  by (auto simp: logMapping_def list_all_iff not_le intro: order_less_le_trans)

text \<open>A pipeline shorter than the best one that is no improvement ends in the assertion of the log.\<close>

lemma shorter_pipeline_log:
  assumes "tryMap p mp = Some ((False, result), mp')" and "length p < length (unitMap (mappingResult mp))" and "p \<noteq> []"
  shows "optimizationLoop explore (p # ps) k mp = None"
  using assms tryMap_sizes(2,3) [OF assms(1,3)] by (simp add: logMapping_iff)

lemma loop_returns:
  assumes "closed_cuts (performanceModel mp) tableCut S"
    and "ps = [] \<or> (\<exists>p. ps = [p] \<and> S p \<and> length (unitMap (mappingResult mp)) \<le> length p)"
    and "mp = mp0 \<or> S (mappedFunctions mp)"
  shows "\<exists>mp'. optimizationLoop (explorerNext tableCut) ps k mp = Some mp' \<and> (mp' = mp0 \<or> S (mappedFunctions mp'))"
  using assms
proof (induction "explorerNext tableCut" ps k mp rule: optimizationLoop.induct)
  case (1 k mp)
  then show ?case by simp
next
  case (2 p ps k mp)
  then have p: "ps = []" "S p" "length (unitMap (mappingResult mp)) \<le> length p" by auto
  with 2(2) have "p \<noteq> []" and "getMapping (performanceModel mp) (map snd p) \<noteq> None"
    and cut: "\<And>i fs. i < length p \<Longrightarrow> tableCut (p ! i) = Some fs \<Longrightarrow> fs \<noteq> [] \<and> S (take i p @ fs @ drop (i + 1) p)"
    unfolding closed_cuts_def by blast+
  then obtain updated result mp1 where t: "tryMap p mp = Some ((updated, result), mp1)"
    by (auto simp: tryMap_def Let_def)
  note sizes = tryMap_sizes [OF t \<open>p \<noteq> []\<close>]
  have log: "logMapping p result"
    using sizes p(3) by (cases updated) (auto simp: logMapping_iff)
  have mf: "mp1 = mp0 \<or> S (mappedFunctions mp1)"
    using sizes p(2) 2(4) by (cases updated) auto
  show ?case
  proof (cases "PIPELINE_EXTRA_SEARCH \<le> (if updated then 0 else k + 1)")
    case True
    with t log mf show ?thesis by (simp add: Let_def)
  next
    case False
    then have updated by (auto simp: PIPELINE_EXTRA_SEARCH_def split: if_splits)
    let ?b = "bottleneckIndex result"
    have b: "?b < length p" using sizes \<open>updated\<close> by simp
    then obtain nexts where n: "explorerNext tableCut p ?b = Some nexts"
      by (cases "tableCut (p ! ?b)") (auto simp: explorerNext_def)
    have "nexts = [] \<or> (\<exists>q. nexts = [q] \<and> S q \<and> length p \<le> length q)"
      using n b cut [OF b] by (cases "tableCut (p ! ?b)") (auto simp: explorerNext_def neq_Nil_conv)
    then have next_ok: "ps @ nexts = [] \<or> (\<exists>q. ps @ nexts = [q] \<and> S q \<and> length (unitMap (mappingResult mp1)) \<le> length q)"
      using p(1) sizes \<open>updated\<close> by auto
    have "performanceModel mp1 = performanceModel mp"
      using t by (auto simp: tryMap_def Let_def split: option.splits if_splits)
    with 2(2) have closed: "closed_cuts (performanceModel mp1) tableCut S" by simp
    have "\<not> \<not> logMapping p result" using log by simp
    from 2(1) [OF t refl refl this refl False n closed next_ok mf] t log False n show ?thesis
      by (simp add: Let_def del: optimizationLoop.simps(1))
  qed
qed

lemma search_returns:
  assumes "closed_cuts model tableCut S" and "S [f]"
  shows "\<exists>mp. optimizationLoop (explorerNext tableCut) [[f]] 0 (PipelineMapper model) = Some mp \<and>
    (mp = PipelineMapper model \<or> S (mappedFunctions mp))"
  by (rule loop_returns) (use assms in \<open>simp_all add: PipelineMapper_def\<close>)

section \<open>Properties of the mapping\<close>

text \<open>
  C10: What a mapping promises. Every handler of the pipeline gets a compute unit and no unit serves
  twice; a handler that uses a table with different keys gets one unit only; the latency is that
  of the slowest stage and the bottleneck index names such a stage; and while there are units
  left, every stage that may be replicated meets the latency target.
\<close>

theorem getMapping_contract:
  assumes "model_ok model ops" and "getMapping model ops = Some r"
  shows "mapping_ok model ops r"
  by (rule getMapping_ok [OF assms])

definition table_handler :: "val list \<Rightarrow> func_op" where
  "table_handler keys =
     \<lparr>fn_name = ''__handler_H'', fn_attrs = [(''event'', StrAttr ''H''), (''type'', StrAttr ''handler'')],
      fn_private = True, fn_args = [],
      fn_body = map (\<lambda>k. Op LookupOp [0, k] [k + 100] []) keys @ [Op TerminateOp [] [] []]\<rparr>"

theorem getMapping_contract_witness:
  "\<exists>r. getMapping NetronomePerformanceModel [table_handler [1, 1, 1], table_handler [1, 2]] = Some r \<and>
     unitMap r = [[''cu0'', ''cu1'', ''cu2''], [''cu3'']] \<and>
     mapping_ok NetronomePerformanceModel [table_handler [1, 1, 1], table_handler [1, 2]] r"
proof -
  let ?ops = "[table_handler [1, 1, 1], table_handler [1, 2]]"
  have "case getMapping NetronomePerformanceModel ?ops of
      Some r \<Rightarrow> unitMap r = [[''cu0'', ''cu1'', ''cu2''], [''cu3'']] | None \<Rightarrow> False"
    by code_simp
  then obtain r where r: "getMapping NetronomePerformanceModel ?ops = Some r"
    "unitMap r = [[''cu0'', ''cu1'', ''cu2''], [''cu3'']]"
    by (auto split: option.splits)
  have "\<forall>f \<in> set ?ops. netronomeLatency f < 2 ^ 31"
    by code_simp
  from getMapping_contract [OF Netronome_ok [OF this] r(1)] r show ?thesis
    by blast
qed

text \<open>
  C28: The FPGA always has room: a pipeline of up to 42 stages is mapped, no stage is slower than
  three cycles, and every stage that may be replicated takes a packet in every cycle.
\<close>

theorem fpga_mapping_exists:
  assumes "length ops \<le> 42"
  shows "\<exists>r. getMapping FPGAPerformanceModel ops = Some r \<and> latency r \<le> 3 \<and>
    (\<forall>i < length ops. isTableClean (ops ! i) \<longrightarrow> fpgaLatency (ops ! i) \<le> int (length (unitMap r ! i)))"
  by (rule FPGA_maps [OF assms])

theorem fpga_mapping_exists_witness:
  "\<exists>r. getMapping FPGAPerformanceModel [table_handler [1, 1]] = Some r \<and> latency r \<le> 3"
  using fpga_mapping_exists [of "[table_handler [1, 1]]"] by auto

text \<open>
  C34: On Netronome a handler without table access, arithmetic and buffer operation has latency zero
  and never gets a unit; the mapping then divides by its number of units.
\<close>

theorem idle_handler_divides_by_zero:
  assumes "f \<in> set ops" and "netronomeLatency f = 0"
  shows "getMapping NetronomePerformanceModel ops = None"
proof -
  let ?M = NetronomePerformanceModel
  let ?um = "assignUnits ?M ops (getComputeUnits ?M) (replicate (length ops) [])"
  obtain i where i: "i < length ops" "ops ! i = f"
    using assms(1) by (auto simp: in_set_conv_nth)
  have "\<forall>i < length ops. netronomeLatency (ops ! i) = 0 \<longrightarrow> ?um ! i = []"
    by (rule assignUnits_each) (auto simp: takesUnit_def as_size_t_def)
  with i assms(2) show ?thesis
    using getMapping_None_iff [of ?M ops] by auto
qed

theorem idle_handler_divides_by_zero_witness:
  "netronomeLatency (table_handler []) = 0 \<and> getMapping NetronomePerformanceModel [table_handler []] = None"
proof -
  have "netronomeLatency (table_handler []) = 0"
    by code_simp
  then show ?thesis
    using idle_handler_divides_by_zero [of "table_handler []" "[table_handler []]"] by simp
qed

text \<open>
  C27: The search returns and keeps the best mapping it has seen. Where every pipeline that the table
  cut leads to can be mapped and no cut is empty, and the unsplit handler is faster than the
  target plus 1000, the loop ends with one of those pipelines, the result is its mapping, and it
  is no slower than the unsplit handler.
\<close>

theorem search_keeps_best:
  assumes "closed_cuts model tableCut S" and "S [f]"
    and "getMapping model [snd f] = Some r" and "latency r < getLatencyTarget model + 1000"
  shows "\<exists>mp. optimizationLoop (explorerNext tableCut) [[f]] 0 (PipelineMapper model) = Some mp \<and>
    S (mappedFunctions mp) \<and> getMapping model (map snd (mappedFunctions mp)) = Some (mappingResult mp) \<and>
    latency (mappingResult mp) \<le> latency r"
proof -
  obtain mp where mp: "optimizationLoop (explorerNext tableCut) [[f]] 0 (PipelineMapper model) = Some mp"
    "mp = PipelineMapper model \<or> S (mappedFunctions mp)"
    using search_returns [OF assms(1,2)] by blast
  with search_result [OF assms(3,4) mp(1)] show ?thesis by blast
qed

definition split_once :: "func_ref \<Rightarrow> pipeline option" where
  "split_once f = (if fst f = 0 then Some [(1, table_handler [1]), (2, table_handler [2])] else None)"

lemma split_once_closed:
  "closed_cuts NetronomePerformanceModel split_once
     (\<lambda>p. p = [(0, table_handler [1, 2])] \<or> p = [(1, table_handler [1]), (2, table_handler [2])])"
proof -
  have "getMapping NetronomePerformanceModel [table_handler [1, 2]] \<noteq> None"
    "getMapping NetronomePerformanceModel [table_handler [1], table_handler [2]] \<noteq> None"
    by code_simp+
  then show ?thesis
    by (auto simp: closed_cuts_def split_once_def less_Suc_eq)
qed

theorem search_keeps_best_witness:
  "\<exists>mp r. getMapping NetronomePerformanceModel [table_handler [1, 2]] = Some r \<and> latency r = 200 \<and>
     optimizationLoop (explorerNext split_once) [[(0, table_handler [1, 2])]] 0 (PipelineMapper NetronomePerformanceModel) = Some mp \<and>
     latency (mappingResult mp) \<le> latency r"
proof -
  let ?M = NetronomePerformanceModel and ?f = "(0 :: nat, table_handler [1, 2])"
  have "case getMapping ?M [table_handler [1, 2]] of Some r \<Rightarrow> latency r = 200 | None \<Rightarrow> False"
    by code_simp
  then obtain r where r: "getMapping ?M [snd ?f] = Some r" "latency r = 200"
    by (auto split: option.splits)
  have "latency r < getLatencyTarget ?M + 1000"
    by (simp add: r NetronomePerformanceModel_def)
  from search_keeps_best [OF split_once_closed _ r(1) this] r show ?thesis
    by auto
qed

text \<open>Here the cut is taken, and halves the latency.\<close>

lemma split_once_search:
  "case optimizationLoop (explorerNext split_once) [[(0, table_handler [1, 2])]] 0 (PipelineMapper NetronomePerformanceModel) of
     Some mp \<Rightarrow> map fst (mappedFunctions mp) = [1, 2] \<and> latency (mappingResult mp) = 100 | None \<Rightarrow> False"
  by code_simp

lemma finalize_instances:
  assumes "distinct (map fst (mappedFunctions mp))" and "i < length (mappedFunctions mp)"
    and "(fst (mappedFunctions mp ! i), f) \<in> set m" and "finalize mp m = Some m'"
  shows "\<exists>f'. (fst (mappedFunctions mp ! i), f') \<in> set m' \<and>
    map_of (fn_attrs f') ''instances'' = Some (StrArrayAttr (unitMap (mappingResult mp) ! i))"
proof -
  let ?a = "fst (mappedFunctions mp ! i)" and ?u = "StrArrayAttr (unitMap (mappingResult mp) ! i)"
  have "\<exists>f'. foldl (\<lambda>(a, f) i. if fst (mappedFunctions mp ! i) = a
        then (a, setAttr ''instances'' (StrArrayAttr (unitMap (mappingResult mp) ! i)) f) else (a, f)) (?a, f) [0..<n] = (?a, f') \<and>
      (i < n \<longrightarrow> map_of (fn_attrs f') ''instances'' = Some ?u)" if "n \<le> length (mappedFunctions mp)" for n
    using that
  proof (induction n)
    case (Suc n)
    then obtain f' where f': "foldl (\<lambda>(a, f) i. if fst (mappedFunctions mp ! i) = a
        then (a, setAttr ''instances'' (StrArrayAttr (unitMap (mappingResult mp) ! i)) f) else (a, f)) (?a, f) [0..<n] = (?a, f')"
      "i < n \<longrightarrow> map_of (fn_attrs f') ''instances'' = Some ?u"
      by auto
    have "fst (mappedFunctions mp ! n) = ?a \<longleftrightarrow> n = i"
      using assms(1,2) Suc.prems by (metis Suc_le_eq length_map nth_eq_iff_index_eq nth_map)
    with f' show ?case
      by (auto simp: setAttr_def map_of_insert_or_assign)
  qed simp
  from this [of "length (mappedFunctions mp)"] assms(2-4) show ?thesis
    by (force simp: finalize_def setInstances_def split: if_splits)
qed

text \<open>
  C33: A handler that is too slow disappears. The search starts from a result of target plus 1000, so a
  first mapping at or above that is not kept, the search stops, and \<^verbatim>\<open>finalize\<close> removes every
  handler that is not external, as none is part of the empty pipeline. (A function that is neither
  external nor has a kind ends it in a null dereference.)
\<close>

theorem slow_handler_dropped:
  assumes "getMapping model [snd f] = Some r" and "getLatencyTarget model + 1000 \<le> latency r"
  shows "\<exists>mp. optimizationLoop explore [[f]] 0 (PipelineMapper model) = Some mp \<and>
    finalize mp m = (if \<forall>(a, g) \<in> set m. isExtern g \<or> typeAttr g \<noteq> None
      then Some (filter (\<lambda>(a, g). isExtern g \<or> isHandler g \<noteq> Some True) m) else None)"
proof -
  let ?mp = "PipelineMapper model"
  have "optimizationLoop explore [[f]] 0 ?mp = Some ?mp"
    using assms by (simp add: tryMap_def Let_def PIPELINE_EXTRA_SEARCH_def PipelineMapper_def logMapping_def)
  moreover have "finalize ?mp m = (if \<forall>(a, g) \<in> set m. isExtern g \<or> typeAttr g \<noteq> None
      then Some (filter (\<lambda>(a, g). isExtern g \<or> isHandler g \<noteq> Some True) m) else None)"
    by (auto simp: finalize_def setInstances_def PipelineMapper_def list_all_iff isHandler_def intro!: filter_cong)
  ultimately show ?thesis by blast
qed

theorem slow_handler_dropped_witness:
  "\<exists>mp. optimizationLoop (explorerNext split_once) [[(0, table_handler [1, 2, 3, 4, 5, 6, 7, 8, 9, 10, 11])]] 0
       (PipelineMapper NetronomePerformanceModel) = Some mp \<and>
     finalize mp [(0, table_handler [1, 2, 3, 4, 5, 6, 7, 8, 9, 10, 11])] = Some []"
proof -
  let ?f = "(0 :: nat, table_handler [1, 2, 3, 4, 5, 6, 7, 8, 9, 10, 11])"
  have "case getMapping NetronomePerformanceModel [snd ?f] of Some r \<Rightarrow> latency r = 1100 | None \<Rightarrow> False"
    by code_simp
  then obtain r where r: "getMapping NetronomePerformanceModel [snd ?f] = Some r" "latency r = 1100"
    by (auto split: option.splits)
  have "getLatencyTarget NetronomePerformanceModel + 1000 \<le> latency r"
    by (simp add: r NetronomePerformanceModel_def)
  from slow_handler_dropped [OF r(1) this, of "explorerNext split_once" "[?f]"] show ?thesis
    by (simp add: table_handler_def isHandler_def typeAttr_def isExtern_def)
qed

end
