(* ===== verification/Alkali_Pipeline.thy ===== *)
theory Alkali_Pipeline
  imports Alkali_Search
begin

text \<open>
  From a module of split handlers to a pipeline with unit names
  (\<^verbatim>\<open>PipelineCanonicalizePass.cpp\<close>, \<^verbatim>\<open>MappingUtils.cpp\<close>).
\<close>

section \<open>From the module to the pipeline\<close>

text \<open>
  Splitting a handler of generation \<open>g\<close> gives one of generation \<open>2 * g\<close> and one of \<open>2 * g + 1\<close>.
  The generations are the keys of a \<^verbatim>\<open>DenseMap<int, FuncOp>\<close>, which keeps the largest and the smallest
  number for its empty and its deleted slots and asserts that they are never looked up or inserted.
  \<open>placeGeneration\<close> is called with positive numbers only; \<open>None\<close> is that assertion, or the overflow
  of the doubling.
\<close>

definition reservedKey :: "int \<Rightarrow> bool" where
  "reservedKey k \<longleftrightarrow> k = 2 ^ 31 - 1 \<or> k = - (2 ^ 31)"

function placeGeneration :: "(int \<Rightarrow> func_ref option) \<Rightarrow> int \<Rightarrow> pipeline option" where
  "placeGeneration funcMap generation = (if reservedKey generation then None else case funcMap generation of
     Some f \<Rightarrow> Some [f]
   | None \<Rightarrow>
       if generation \<le> 0 \<or> generation * 2 \<ge> 2 ^ 31 then None
       else (case placeGeneration funcMap (generation * 2) of
           None \<Rightarrow> None
         | Some front \<Rightarrow> (case placeGeneration funcMap (generation * 2 + 1) of
             None \<Rightarrow> None
           | Some rest \<Rightarrow> Some (front @ rest))))"
  by pat_completeness auto
termination
  by (relation "measure (\<lambda>(fm, g). nat (2 ^ 31 - g))") auto

declare placeGeneration.simps [simp del]

definition generationIndex :: "func_op \<Rightarrow> int" where
  "generationIndex f = (case map_of (fn_attrs f) ''generationIndex'' of Some (IntAttr i) \<Rightarrow> as_int i | _ \<Rightarrow> 1)"

text \<open>
  \<^verbatim>\<open>try_emplace\<close> keeps the first function of an index, as \<open>map_of\<close> does. \<open>None\<close> is the null dereference
  on a function without a kind, or the assertion of the map.
\<close>

fun generations :: "func_ref list \<Rightarrow> (int \<times> func_ref) list option" where
  "generations [] = Some []"
| "generations ((a, f) # m) = (case isHandler f of
     None \<Rightarrow> None
   | Some handler \<Rightarrow>
       if handler \<and> \<not> isExtern f then
         if reservedKey (generationIndex f) then None
         else map_option (\<lambda>gs. (generationIndex f, (a, f)) # gs) (generations m)
       else generations m)"

definition getPipeline :: "func_ref list \<Rightarrow> pipeline option" where
  "getPipeline m = (case generations m of None \<Rightarrow> None | Some gs \<Rightarrow> placeGeneration (map_of gs) 1)"

section \<open>Simple mapping\<close>




section \<open>Order of the stages\<close>

text \<open>The history of a handler: the stages it was split into, source before sink.\<close>

datatype cuts = Stage func_ref | Split cuts cuts

fun stages :: "cuts \<Rightarrow> pipeline" where
  "stages (Stage f) = [f]"
| "stages (Split s t) = stages s @ stages t"

fun depth :: "cuts \<Rightarrow> nat" where
  "depth (Stage f) = 0"
| "depth (Split s t) = Suc (max (depth s) (depth t))"

fun generationMap :: "cuts \<Rightarrow> int \<Rightarrow> (int \<times> func_ref) list" where
  "generationMap (Stage f) g = [(g, f)]"
| "generationMap (Split s t) g = generationMap s (2 * g) @ generationMap t (2 * g + 1)"

text \<open>The generations that were split.\<close>

fun parents :: "cuts \<Rightarrow> int \<Rightarrow> int set" where
  "parents (Stage f) g = {}"
| "parents (Split s t) g = insert g (parents s (2 * g) \<union> parents t (2 * g + 1))"

text \<open>The generations that come from \<open>g\<close> in \<open>d\<close> splits.\<close>

definition below :: "int \<Rightarrow> int \<Rightarrow> bool" where
  "below g i \<longleftrightarrow> (\<exists>d. g * 2 ^ d \<le> i \<and> i < (g + 1) * 2 ^ d)"

lemma below_refl [simp]: "below g g"
  unfolding below_def by (rule exI [of _ 0]) simp

lemma below_step:
  assumes "below h i" and "h = 2 * g \<or> h = 2 * g + 1"
  shows "below g i"
proof -
  obtain d where d: "h * 2 ^ d \<le> i" "i < (h + 1) * 2 ^ d"
    using assms(1) by (auto simp: below_def)
  have "g * 2 ^ Suc d \<le> h * 2 ^ d" "(h + 1) * 2 ^ d \<le> (g + 1) * 2 ^ Suc d"
    using assms(2) by auto
  with d show ?thesis
    unfolding below_def by (intro exI [of _ "Suc d"]) linarith
qed

lemma below_ge:
  assumes "0 < g" and "below g i"
  shows "g \<le> i"
proof -
  obtain d where "g * 2 ^ d \<le> i"
    using assms(2) by (auto simp: below_def)
  moreover have "g * 1 \<le> g * 2 ^ d"
    using assms(1) by (intro mult_left_mono) auto
  ultimately show ?thesis by simp
qed

lemma below_disjoint:
  assumes "below (2 * g) i" and "below (2 * g + 1) i" and "0 < g"
  shows False
proof -
  obtain d e where d: "2 * g * 2 ^ d \<le> i" "i < (2 * g + 1) * 2 ^ d"
    and e: "(2 * g + 1) * 2 ^ e \<le> i" "i < (2 * g + 1 + 1) * 2 ^ e"
    using assms(1,2) unfolding below_def by blast
  show False
  proof (cases "d \<le> e")
    case True
    then have "(2 * g + 1) * 2 ^ d \<le> (2 * g + 1) * 2 ^ e"
      using assms(3) by (intro mult_left_mono power_increasing) auto
    with d e show False by linarith
  next
    case False
    then obtain k where k: "d = Suc (e + k)"
      using less_imp_Suc_add by (metis add_Suc_right not_le)
    have "(2 * g + 1 + 1) * 2 ^ e \<le> (4 * g) * 2 ^ e"
      using assms(3) by (intro mult_right_mono) auto
    also have "\<dots> \<le> (4 * g) * 2 ^ (e + k)"
      using assms(3) by (intro mult_left_mono power_increasing) auto
    finally show False
      using d e by (simp add: k)
  qed
qed

lemma generationMap_below:
  "i \<in> fst ` set (generationMap t g) \<union> parents t g \<Longrightarrow> below g i"
proof (induction t arbitrary: g)
  case (Split s t)
  then consider "i = g" | "below (2 * g) i" | "below (2 * g + 1) i"
    unfolding generationMap.simps parents.simps set_append image_Un by blast
  then show ?case
    by cases (auto intro: below_step)
qed simp

text \<open>Indices of the two halves do not meet, and a generation that was split is gone.\<close>

lemma generationMap_distinct:
  assumes "0 < g"
  shows "distinct (map fst (generationMap t g))" and "fst ` set (generationMap t g) \<inter> parents t g = {}"
proof -
  have "distinct (map fst (generationMap t g)) \<and> fst ` set (generationMap t g) \<inter> parents t g = {}"
    using assms
  proof (induction t arbitrary: g)
    case (Stage f)
    then show ?case by simp
  next
    case (Split s t)
    let ?L = "fst ` set (generationMap s (2 * g)) \<union> parents s (2 * g)"
      and ?R = "fst ` set (generationMap t (2 * g + 1)) \<union> parents t (2 * g + 1)"
    have disj: "?L \<inter> ?R = {}"
      using generationMap_below below_disjoint Split.prems by (meson disjoint_iff)
    have g: "g \<notin> ?L \<union> ?R"
    proof
      assume "g \<in> ?L \<union> ?R"
      then have "below (2 * g) g \<or> below (2 * g + 1) g"
        using generationMap_below by blast
      then show False
        using below_ge [of "2 * g" g] below_ge [of "2 * g + 1" g] Split.prems by auto
    qed
    have s: "distinct (map fst (generationMap s (2 * g)))" "fst ` set (generationMap s (2 * g)) \<inter> parents s (2 * g) = {}"
      and t: "distinct (map fst (generationMap t (2 * g + 1)))"
        "fst ` set (generationMap t (2 * g + 1)) \<inter> parents t (2 * g + 1) = {}"
      using Split.IH(1) [of "2 * g"] Split.IH(2) [of "2 * g + 1"] Split.prems by simp_all
    have "fst ` set (generationMap s (2 * g)) \<inter> fst ` set (generationMap t (2 * g + 1)) = {}"
      using disj by blast
    then have "distinct (map fst (generationMap (Split s t) g))"
      using s(1) t(1) by (simp only: generationMap.simps map_append distinct_append set_map simp_thms)
    moreover have "fst ` set (generationMap (Split s t) g) \<inter> parents (Split s t) g = {}"
      using disj g s(2) t(2) unfolding generationMap.simps parents.simps set_append image_Un by blast
    ultimately show ?case by blast
  qed
  then show "distinct (map fst (generationMap t g))" "fst ` set (generationMap t g) \<inter> parents t g = {}"
    by blast+
qed

lemma placeGeneration_stages:
  assumes "\<forall>(i, f) \<in> set (generationMap t g). fm i = Some f" and "\<forall>i \<in> parents t g. fm i = None"
    and "0 < g" and "(g + 1) * 2 ^ depth t < 2 ^ 31"
  shows "placeGeneration fm g = Some (stages t)"
  using assms
proof (induction t arbitrary: g)
  case (Stage f)
  then show ?case by (simp add: placeGeneration.simps reservedKey_def)
next
  case (Split s t)
  let ?k = "max (depth s) (depth t)"
  have size: "(2 * g + 2) * 2 ^ ?k < 2 ^ 31"
    using Split.prems(4) by (simp add: algebra_simps)
  have part: "(h + 1) * 2 ^ e < 2 ^ 31" if "0 \<le> h" "h \<le> 2 * g + 1" "e \<le> ?k" for h e
  proof -
    have "(h + 1) * 2 ^ e \<le> (2 * g + 2) * 2 ^ ?k"
      using that by (intro mult_mono power_increasing) auto
    with size show ?thesis by linarith
  qed
  have "placeGeneration fm (2 * g) = Some (stages s)"
    by (rule Split.IH(1)) (use Split.prems part [of "2 * g" "depth s"] in auto)
  moreover have "placeGeneration fm (2 * g + 1) = Some (stages t)"
    by (rule Split.IH(2)) (use Split.prems part [of "2 * g + 1" "depth t"] in auto)
  moreover have "2 * g + 2 < 2 ^ 31"
    using part [of "2 * g + 1" 0] Split.prems(3) by simp
  ultimately show ?case
    using Split.prems by (simp add: placeGeneration.simps [of fm g] reservedKey_def mult.commute)
qed

text \<open>The handlers of the module with their generations, and what the walk collects of them.\<close>

definition indexed :: "func_ref list \<Rightarrow> (int \<times> func_ref) list" where
  "indexed m = map (\<lambda>(a, f). (generationIndex f, (a, f))) (filter (\<lambda>(a, f). isHandler f = Some True \<and> \<not> isExtern f) m)"

lemma generations_result:
  "generations m =
     (if (\<forall>(a, f) \<in> set m. typeAttr f \<noteq> None) \<and> (\<forall>(i, f) \<in> set (indexed m). \<not> reservedKey i)
      then Some (indexed m) else None)"
proof (induction m)
  case Nil
  then show ?case by (simp add: indexed_def)
next
  case (Cons p m)
  obtain a f where p: "p = (a, f)" by (cases p)
  show ?case
  proof (cases "isHandler f")
    case None
    then have "typeAttr f = None" by (simp add: isHandler_def)
    with None show ?thesis by (simp add: p)
  next
    case (Some h)
    then have t: "typeAttr f \<noteq> None" by (auto simp: isHandler_def)
    have "indexed (p # m) = (if h \<and> \<not> isExtern f then (generationIndex f, (a, f)) # indexed m else indexed m)"
      using Some by (simp add: p indexed_def)
    with Some t Cons.IH show ?thesis
      by (simp add: p del: not_None_eq)
  qed
qed

lemma generationMap_range:
  assumes "0 < g" and "(i, f) \<in> set (generationMap t g)"
  shows "0 < i \<and> i < (g + 1) * 2 ^ depth t"
  using assms
proof (induction t arbitrary: g)
  case (Split s t)
  let ?k = "max (depth s) (depth t)"
  have "0 < i" and "i < (2 * g + 1) * 2 ^ depth s \<or> i < (2 * g + 1 + 1) * 2 ^ depth t"
    using Split.IH(1) [of "2 * g"] Split.IH(2) [of "2 * g + 1"] Split.prems by auto
  moreover have "(2 * g + 1) * 2 ^ depth s \<le> (2 * g + 2) * 2 ^ ?k" "(2 * g + 1 + 1) * 2 ^ depth t \<le> (2 * g + 2) * 2 ^ ?k"
    using Split.prems(1) by (auto intro!: mult_mono power_increasing)
  moreover have "(2 * g + 2) * 2 ^ ?k = (g + 1) * 2 ^ depth (Split s t)"
    by (simp add: algebra_simps)
  ultimately show ?case by linarith
qed simp

text \<open>
  C29: The stages of a pipeline come in the order of the cuts. When the functions of a module have their
  kind and its handlers are the leaves of up to 29 levels of splits, each numbered by the path
  that leads to it, the pipeline is those leaves from left to right: every source part before its
  sink part. (On level 30 the numbers reach the reserved keys of the map.)
\<close>

theorem getPipeline_order:
  assumes "\<forall>(a, f) \<in> set m. typeAttr f \<noteq> None"
    and "map_of (indexed m) = map_of (generationMap t 1)" and "depth t \<le> 29"
  shows "getPipeline m = Some (stages t)"
proof -
  have "(2 :: int) ^ depth t \<le> 2 ^ 29"
    using assms(3) by (intro power_increasing) auto
  then have small: "(1 + 1) * 2 ^ depth t < (2 ^ 31 :: int)"
    by simp
  have "fst ` set (indexed m) = fst ` set (generationMap t 1)"
    using assms(2) by (metis dom_map_of_conv_image_fst)
  then have "\<exists>f'. (i, f') \<in> set (generationMap t 1)" if "(i, f) \<in> set (indexed m)" for i f
    using that by (metis (no_types, lifting) fst_conv image_iff prod.exhaust_sel)
  then have "0 < i \<and> i < (1 + 1) * 2 ^ depth t" if "(i, f) \<in> set (indexed m)" for i f
    using that generationMap_range [of 1 i _ t] zero_less_one by blast
  then have "\<not> reservedKey i" if "(i, f) \<in> set (indexed m)" for i f
    using that \<open>2 ^ depth t \<le> 2 ^ 29\<close> by (fastforce simp: reservedKey_def)
  then have "generations m = Some (indexed m)"
    using assms(1) by (auto simp: generations_result)
  moreover have "\<forall>(i, f) \<in> set (generationMap t 1). map_of (generationMap t 1) i = Some f"
    using generationMap_distinct(1) [of 1 t] by auto
  moreover have "\<forall>i \<in> parents t 1. map_of (generationMap t 1) i = None"
    using generationMap_distinct(2) [of 1 t] by (auto simp: map_of_eq_None_iff)
  ultimately show ?thesis
    unfolding getPipeline_def using small assms(2) by (auto intro: placeGeneration_stages)
qed

definition stage_handler :: "int \<Rightarrow> func_op" where
  "stage_handler i =
     \<lparr>fn_name = ''__handler_S'',
      fn_attrs = [(''event'', StrAttr ''S''), (''generationIndex'', IntAttr i), (''type'', StrAttr ''handler'')],
      fn_private = True, fn_args = [], fn_body = [Op TerminateOp [] [] []]\<rparr>"

theorem getPipeline_order_witness:
  "getPipeline [(10, stage_handler 3), (11, stage_handler 4), (12, stage_handler 5)] =
     Some [(11, stage_handler 4), (12, stage_handler 5), (10, stage_handler 3)]"
proof -
  let ?m = "[(10, stage_handler 3), (11, stage_handler 4), (12, stage_handler 5)]"
  let ?t = "Split (Split (Stage (11, stage_handler 4)) (Stage (12, stage_handler 5))) (Stage (10, stage_handler 3))"
  have "indexed ?m = [(3, (10, stage_handler 3)), (4, (11, stage_handler 4)), (5, (12, stage_handler 5))]"
    by (simp add: indexed_def stage_handler_def generationIndex_def isHandler_def typeAttr_def isExtern_def as_int_def)
  then have "map_of (indexed ?m) = map_of (generationMap ?t 1)"
    by (auto simp: fun_eq_iff)
  from getPipeline_order [OF _ this] show ?thesis
    by (simp add: stage_handler_def typeAttr_def)
qed

lemma placeGeneration_nothing: "placeGeneration (\<lambda>_. None) g = None"
  by (induction "\<lambda>_ :: int. None :: func_ref option" g rule: placeGeneration.induct)
    (auto simp: placeGeneration.simps [of "\<lambda>_. None"] reservedKey_def split: if_splits)

text \<open>
  Without a handler that it can place, \<^verbatim>\<open>placeGeneration\<close> doubles the generation until it
  overflows: a module without handlers has no pipeline.
\<close>

theorem no_handler_no_pipeline:
  assumes "\<forall>(a, f) \<in> set m. isHandler f = Some True \<longrightarrow> isExtern f"
  shows "getPipeline m = None"
proof -
  have "indexed m = []"
    using assms by (auto simp: indexed_def filter_empty_conv)
  moreover have "map_of [] = (\<lambda>_ :: int. None :: func_ref option)" by simp
  ultimately show ?thesis
    unfolding getPipeline_def generations_result by (simp only: option.case placeGeneration_nothing split: if_split) simp
qed

theorem no_handler_no_pipeline_witness: "getPipeline [] = None"
  using no_handler_no_pipeline [of "[]"] by simp

section \<open>Unit names\<close>






end
