(* ===== verification/Net_Csum.thy ===== *)
theory Net_Csum
  imports Rte_Common
begin

text \<open>
  The checksum library of the network processor (\<^verbatim>\<open>microc/lib/net/_c/csum.c\<close>): sums with end-around
  carry, over transfer registers and over memory, and the checksums of IPv4 headers and of TCP and
  UDP packets over IPv4 and IPv6. The instructions with carry and the bulk reads of memory are
  written out on machine words.
\<close>

section \<open>Sums with end-around carry\<close>

text \<open>
  The value of a sum in ones' complement arithmetic with modulus \<open>M = 2 ^ k - 1\<close>: the residue, except that only the
  sum of zeros is zero.
\<close>

definition oc :: "nat \<Rightarrow> nat \<Rightarrow> nat" where
  "oc M x = (if x = 0 then 0 else (x - 1) mod M + 1)"

lemma oc_zero [simp]: "oc M 0 = 0" "oc M x = 0 \<longleftrightarrow> x = 0" "0 < oc M x \<longleftrightarrow> 0 < x"
  by (simp_all add: oc_def)

lemma oc_le: "0 < M \<Longrightarrow> oc M x \<le> M"
  by (simp add: oc_def Suc_le_eq)

lemma oc_mod: "oc M x mod M = x mod M"
  by (cases x) (simp_all add: oc_def mod_Suc_eq)

lemma oc_unique:
  assumes "0 < x" and "0 < y" and "y \<le> M" and "y mod M = x mod M"
  shows "oc M x = y"
proof -
  have "oc M x mod M = y mod M" "0 < oc M x" "oc M x \<le> M"
    using assms oc_mod [of M x] oc_le [of M x] by (simp_all add: oc_def)
  moreover have "z mod M = (if z = M then 0 else z)" if "0 < z" "z \<le> M" for z
    using that by auto
  ultimately show ?thesis
    using assms(2,3) by (metis not_less_zero)
qed

lemma oc_id: "x \<le> M \<Longrightarrow> oc M x = x"
  by (cases "x = 0") (auto intro: oc_unique)

lemma oc_cong:
  assumes "x mod M = y mod M" and "x = 0 \<longleftrightarrow> y = 0" and "0 < M"
  shows "oc M x = oc M y"
proof (cases "x = 0")
  case False
  then show ?thesis
    using assms oc_mod [of M y] oc_le [of M y] by (intro oc_unique) auto
qed (use assms in simp)

lemma oc_add [simp]:
  assumes "0 < M"
  shows "oc M (x + oc M y) = oc M (x + y)" and "oc M (oc M x + y) = oc M (x + y)"
proof -
  have "(x + oc M y) mod M = (x + y) mod M" for x y
    by (metis mod_add_right_eq oc_mod)
  then show "oc M (x + oc M y) = oc M (x + y)" for x y
    by (intro oc_cong) (simp_all add: assms)
  from this [of y x] show "oc M (oc M x + y) = oc M (x + y)"
    by (simp add: add.commute)
qed

lemma oc_plus_multiple:
  assumes "0 < M" and "0 < x"
  shows "oc M (x + M * k) = oc M x"
  using assms by (intro oc_cong) auto

text \<open>Folding in a divisor of the modulus.\<close>

lemma oc_oc:
  assumes "0 < M" and "M dvd N"
  shows "oc M (oc N x) = oc M x"
proof (rule oc_cong)
  show "oc N x mod M = x mod M"
    using mod_mod_cancel [OF assms(2), of "oc N x"] mod_mod_cancel [OF assms(2), of x] by (simp add: oc_mod)
qed (simp_all add: assms)

section \<open>The operations\<close>

definition ones_sum_add :: "u32 \<Rightarrow> u32 \<Rightarrow> u32" where
  "ones_sum_add sum1 sum2 =
     (let ret = sum1 + sum2; carry = (2 ^ 32 \<le> unat sum1 + unat sum2)
      in ret + of_bool carry)"

definition ones_sum_fold16 :: "u32 \<Rightarrow> u16" where
  "ones_sum_fold16 s =
     (let ret = drop_bit 16 s + ucast (ucast s :: u16);
          ret = drop_bit 16 ret + ucast (ucast ret :: u16)
      in ucast ret)"

lemma unat_add32: "unat (a + b :: u32) = (unat a + unat b) mod 2 ^ 32"
  by (simp add: unat_word_ariths)

lemma unat_lt32: "unat (a :: u32) < 2 ^ 32"
  using unsigned_less [of a] by simp

lemma ones_sum_add_oc: "unat (ones_sum_add a b) = oc (2 ^ 32 - 1) (unat a + unat b)"
proof -
  note lt = unat_lt32 [of a] unat_lt32 [of b]
  show ?thesis
  proof (cases "2 ^ 32 \<le> unat a + unat b")
    case True
    then have s: "unat (a + b) = unat a + unat b - 2 ^ 32"
      using lt by (simp add: unat_add32 mod_if)
    then have "unat (ones_sum_add a b) = unat a + unat b - 2 ^ 32 + 1"
      using True lt by (simp add: ones_sum_add_def unat_add32 [of "a + b" 1])
    also have "\<dots> = oc (2 ^ 32 - 1) (unat a + unat b)"
      using True lt by (intro oc_unique [symmetric]) (auto simp: mod_if)
    finally show ?thesis .
  next
    case False
    then have "unat (ones_sum_add a b) = unat a + unat b"
      by (simp add: ones_sum_add_def unat_add32)
    with False show ?thesis
      by (simp add: oc_id)
  qed
qed

text \<open>One step of folding a number into 16 bits.\<close>

definition fold_half :: "nat \<Rightarrow> nat" where
  "fold_half x = x div 65536 + x mod 65536"

lemma fold_half_mod: "fold_half x mod 65535 = x mod 65535"
proof -
  have "x = fold_half x + 65535 * (x div 65536)"
    unfolding fold_half_def by simp
  then show ?thesis by (metis mod_mult_self2)
qed

lemma fold_half_zero: "fold_half x = 0 \<longleftrightarrow> x = 0"
  unfolding fold_half_def by (metis add_is_0 div_mult_mod_eq mult_0 div_0 mod_0)

lemma fold_half_le: "x < 2 ^ 32 \<Longrightarrow> fold_half x \<le> 131070" "x \<le> 131070 \<Longrightarrow> fold_half x \<le> 65535"
proof -
  show "x < 2 ^ 32 \<Longrightarrow> fold_half x \<le> 131070"
    unfolding fold_half_def by (simp add: div_less_iff_less_mult less_mult_imp_div_less)
  assume "x \<le> 131070"
  then show "fold_half x \<le> 65535"
    by (cases "x < 65536") (auto simp: fold_half_def div_if mod_if)
qed

lemma fold_half_word: "unat (drop_bit 16 t + ucast (ucast t :: u16) :: u32) = fold_half (unat t)"
proof -
  have "unat (ucast (ucast t :: u16) :: u32) = take_bit 16 (unat t)"
    by (simp add: unsigned_ucast_eq unsigned_take_bit_eq)
  then have "unat (ucast (ucast t :: u16) :: u32) = unat t mod 65536"
    by (simp add: take_bit_eq_mod)
  moreover have "unat (drop_bit 16 t) = unat t div 65536"
    by (subst unat_drop_bit_eq) (simp add: drop_bit_eq_div)
  moreover have "fold_half (unat t) < 2 ^ 32"
    using fold_half_le(1) [OF unat_lt32 [of t]] by simp
  ultimately show ?thesis
    by (simp add: unat_add32 fold_half_def)
qed

lemma oc_fold: "fold_half (fold_half x) \<le> 65535 \<Longrightarrow> fold_half (fold_half x) = oc 65535 x"
  by (metis fold_half_mod fold_half_zero oc_cong oc_id zero_less_numeral)

lemma ones_sum_fold16_oc: "unat (ones_sum_fold16 s) = oc 65535 (unat s)"
proof -
  let ?ret = "drop_bit 16 s + ucast (ucast s :: u16) :: u32"
  have le: "fold_half (fold_half (unat s)) \<le> 65535"
    using fold_half_le unat_lt32 by blast
  have "unat (ones_sum_fold16 s) = take_bit 16 (unat (drop_bit 16 ?ret + ucast (ucast ?ret :: u16) :: u32))"
    by (simp only: ones_sum_fold16_def Let_def unsigned_ucast_eq unsigned_take_bit_eq) simp
  also have "\<dots> = fold_half (fold_half (unat s)) mod 65536"
    by (simp only: fold_half_word take_bit_eq_mod) simp
  finally show ?thesis
    using le oc_fold [OF le] by simp
qed

section \<open>Memory\<close>

text \<open>Memory is read through 40-bit addresses.\<close>

type_synonym mem40 = "40 word"

definition bytes_at :: "('a::len word \<Rightarrow> u8) \<Rightarrow> 'a word \<Rightarrow> nat \<Rightarrow> u8 list" where
  "bytes_at mem p n = map (\<lambda>i. mem (p + of_nat i)) [0..<n]"

fun be_val :: "u8 list \<Rightarrow> nat" where
  "be_val [] = 0"
| "be_val (b # bs) = unat b * 256 ^ length bs + be_val bs"

fun words_of :: "u8 list \<Rightarrow> u32 list" where
  "words_of (a # b # c # d # bs) = of_nat (be_val [a, b, c, d]) # words_of bs"
| "words_of bs = []"

text \<open>
  A bulk read fills transfer registers with big-endian words, eight bytes at a time; the registers
  behind them keep their contents.
\<close>

definition mem_read64 :: "(mem40 \<Rightarrow> u8) \<Rightarrow> u32 list \<Rightarrow> mem40 \<Rightarrow> u32 \<Rightarrow> u32 list" where
  "mem_read64 mem data addr sz =
     (let count = unat (drop_bit 3 sz) in words_of (bytes_at mem addr (8 * count)) @ drop (2 * count) data)"

section \<open>Sums over words and memory\<close>

text \<open>An addition that takes the carry flag in and sets it.\<close>

fun addc :: "u32 \<times> bool \<Rightarrow> u32 \<Rightarrow> u32 \<times> bool" where
  "addc (s, carry) v = (s + v + of_bool carry, 2 ^ 32 \<le> unat s + unat v + of_bool carry)"

text \<open>
  The jump skips the additions of the words that are not there; it clears the carry flag in its
  delay slot. A length of more than 64 jumps outside of its targets, and words outside of \<open>buf\<close>
  are other registers: both are \<open>None\<close>.
\<close>

definition ones_sum_warr :: "u32 list \<Rightarrow> u32 \<Rightarrow> u32 option" where
  "ones_sum_warr buf len =
     (let nwords = unat (drop_bit 2 len); rem = len AND 3;
          (s, carry) = foldl addc (0, False) (take nwords buf);
          s = s + of_bool carry
      in if nwords > 16 \<or> nwords > length buf then None
         else if rem > 0 then
           if nwords < length buf then
             (let val = buf ! nwords;
                  val = (if rem = 1 then val AND 0xFF000000
                         else if rem = 2 then val AND 0xFFFF0000
                         else if rem = 3 then val AND 0xFFFFFF00 else val)
              in Some (ones_sum_add s val))
           else None
         else Some s)"

function ones_sum_loop :: "(mem40 \<Rightarrow> u8) \<Rightarrow> u32 list \<Rightarrow> mem40 \<Rightarrow> int \<Rightarrow> u32 \<Rightarrow> u32 option" where
  "ones_sum_loop mem pkt_cache pkt_ptr len s =
     (if len > 0 then
        (let curr_len = (if len > 64 then 64 else len);
             pkt_cache = mem_read64 mem pkt_cache pkt_ptr ((of_int curr_len + 7) AND 0x78)
         in case ones_sum_warr pkt_cache (of_int curr_len) of
              None \<Rightarrow> None
            | Some w \<Rightarrow> ones_sum_loop mem pkt_cache (pkt_ptr + of_int curr_len) (len - curr_len) (ones_sum_add s w))
      else Some s)"
  by auto
termination
  by (relation "measure (\<lambda>(mem, cache, ptr, len, s). nat len)") auto

declare ones_sum_loop.simps [simp del]

text \<open>\<open>pkt_cache\<close> is what the transfer registers hold at the call.\<close>

definition ones_sum_mem :: "(mem40 \<Rightarrow> u8) \<Rightarrow> u32 list \<Rightarrow> mem40 \<Rightarrow> int \<Rightarrow> u32 option" where
  "ones_sum_mem mem pkt_cache p len = ones_sum_loop mem pkt_cache p len 0"

section \<open>Checksums of headers\<close>

definition NET_IP4_LEN32 :: u32 where "NET_IP4_LEN32 = 5"
definition NET_ETH_TYPE_IPV4 :: u32 where "NET_ETH_TYPE_IPV4 = 0x0800"
definition NET_ETH_TYPE_IPV6 :: u32 where "NET_ETH_TYPE_IPV6 = 0x86dd"
definition NET_IP_PROTO_TCP :: u32 where "NET_IP_PROTO_TCP = 0x06"
definition NET_IP_PROTO_UDP :: u32 where "NET_IP_PROTO_UDP = 0x11"

text \<open>A header in registers is the sequence of its words.\<close>

type_synonym regs = "nat \<Rightarrow> u32"

definition ip4_hl :: "regs \<Rightarrow> u32" where
  "ip4_hl ip = drop_bit 24 (ip 0) AND 0xF"

definition udp_len :: "regs \<Rightarrow> u32" where
  "udp_len l4_hdr = drop_bit 16 (l4_hdr 1)"

definition ones_sum_pseudo :: "u32 \<Rightarrow> u32 \<Rightarrow> regs \<Rightarrow> regs \<Rightarrow> u32 \<Rightarrow> u32" where
  "ones_sum_pseudo ip_type protocol ip l4_hdr l4_len =
     (let s = 0;
          s = ones_sum_add s (ip 3);
          s = ones_sum_add s (ip 4);
          s = (if ip_type = NET_ETH_TYPE_IPV6 then
                 (let s = ones_sum_add s (ip 2); s = ones_sum_add s (ip 5);
                      s = ones_sum_add s (ip 6); s = ones_sum_add s (ip 7);
                      s = ones_sum_add s (ip 8); s = ones_sum_add s (ip 9)
                  in s)
               else s);
          s = ones_sum_add s (l4_hdr 0);
          s = ones_sum_add s (l4_hdr 1);
          s = (if ip_type = NET_ETH_TYPE_IPV6 then ones_sum_add s protocol else s);
          tmp = push_bit 16 protocol;
          s = (if protocol = NET_IP_PROTO_TCP then
                 (let s = ones_sum_add s (l4_hdr 2); s = ones_sum_add s (l4_hdr 3);
                      s = ones_sum_add s (l4_hdr 4)
                  in s)
               else s)
      in if ip_type = NET_ETH_TYPE_IPV6 then ones_sum_add s l4_len
         else ones_sum_add s (tmp OR l4_len))"

definition net_csum_mod :: "u32 \<Rightarrow> u32 \<Rightarrow> u32 \<Rightarrow> u16" where
  "net_csum_mod orig_csum orig_val new_val =
     (let new_csum = (NOT orig_csum AND 0xFFFF) + (NOT orig_val AND 0xFFFF) + new_val
      in NOT (ones_sum_fold16 new_csum))"

definition net_csum_ipv4_opt :: "(mem40 \<Rightarrow> u8) \<Rightarrow> u32 list \<Rightarrow> regs \<Rightarrow> mem40 \<Rightarrow> bool \<Rightarrow> u16 option" where
  "net_csum_ipv4_opt mem ip_opts ip pkt_ptr test_ip_opt =
     (let s = 0;
          s = ones_sum_add s (ip 0);
          s = ones_sum_add s (ip 1);
          s = ones_sum_add s (ip 2);
          s = ones_sum_add s (ip 3);
          s = ones_sum_add s (ip 4);
          hl = ip4_hl ip
      in if test_ip_opt \<and> hl > NET_IP4_LEN32 then
           (let opt_size = (hl - NET_IP4_LEN32) * 4;
                pkt_ptr = pkt_ptr - ucast opt_size;
                ip_opts = mem_read64 mem ip_opts pkt_ptr ((opt_size + 7) AND 0x78)
            in case ones_sum_warr ip_opts opt_size of
                 None \<Rightarrow> None
               | Some w \<Rightarrow> Some (NOT (ones_sum_fold16 (ones_sum_add s w))))
         else Some (NOT (ones_sum_fold16 s)))"

definition net_csum_ipv4 :: "(mem40 \<Rightarrow> u8) \<Rightarrow> u32 list \<Rightarrow> regs \<Rightarrow> mem40 \<Rightarrow> u16 option" where
  "net_csum_ipv4 mem ip_opts ip pkt_ptr = net_csum_ipv4_opt mem ip_opts ip pkt_ptr True"

definition net_csum_l4_ip ::
    "(mem40 \<Rightarrow> u8) \<Rightarrow> u32 list \<Rightarrow> u32 \<Rightarrow> u32 \<Rightarrow> regs \<Rightarrow> regs \<Rightarrow> mem40 \<Rightarrow> u32 \<Rightarrow> mem40 \<Rightarrow> u32 \<Rightarrow> u16 option" where
  "net_csum_l4_ip mem cache ip_type protocol ip l4_hdr pkt_ctm ctm_len pkt_mem mem_len =
     (let udp = (protocol = NET_IP_PROTO_UDP);
          l4_len = (if udp then udp_len l4_hdr else ctm_len + mem_len);
          hdr = (if udp then 8 else 20);
          (pkt_ctm', ctm_len', pkt_mem', mem_len') =
            (if ctm_len > 0 then (pkt_ctm + ucast hdr, ctm_len - hdr, pkt_mem, mem_len)
             else (pkt_ctm, ctm_len, pkt_mem + ucast hdr, mem_len - hdr));
          s = ones_sum_pseudo ip_type protocol ip l4_hdr l4_len
      in if ctm_len' + mem_len' > 0 then
           (case ones_sum_mem mem cache pkt_ctm' (sint ctm_len') of
              None \<Rightarrow> None
            | Some a \<Rightarrow>
           (case ones_sum_mem mem cache pkt_mem' (sint mem_len') of
              None \<Rightarrow> None
            | Some b \<Rightarrow> Some (NOT (ones_sum_fold16 (ones_sum_add (ones_sum_add s a) b)))))
         else Some (NOT (ones_sum_fold16 s)))"

definition net_csum_ipv4_udp where
  "net_csum_ipv4_udp mem cache ip udp pkt_ctm ctm_len pkt_mem mem_len =
     net_csum_l4_ip mem cache NET_ETH_TYPE_IPV4 NET_IP_PROTO_UDP ip udp pkt_ctm ctm_len pkt_mem mem_len"

definition net_csum_ipv4_tcp where
  "net_csum_ipv4_tcp mem cache ip tcp pkt_ctm ctm_len pkt_mem mem_len =
     net_csum_l4_ip mem cache NET_ETH_TYPE_IPV4 NET_IP_PROTO_TCP ip tcp pkt_ctm ctm_len pkt_mem mem_len"

definition net_csum_ipv6_udp where
  "net_csum_ipv6_udp mem cache ip udp pkt_ctm ctm_len pkt_mem mem_len =
     net_csum_l4_ip mem cache NET_ETH_TYPE_IPV6 NET_IP_PROTO_UDP ip udp pkt_ctm ctm_len pkt_mem mem_len"

definition net_csum_ipv6_tcp where
  "net_csum_ipv6_tcp mem cache ip tcp pkt_ctm ctm_len pkt_mem mem_len =
     net_csum_l4_ip mem cache NET_ETH_TYPE_IPV6 NET_IP_PROTO_TCP ip tcp pkt_ctm ctm_len pkt_mem mem_len"

end
