(* ===== verification/Net_Csum_Sums.thy ===== *)
theory Net_Csum_Sums
  imports Net_Csum
begin

text \<open>
  The sums against the definition of RFC 1071: numbers with the same sum in ones' complement
  arithmetic (\<open>same_sum\<close>), which every addition, the masked last word and the loop over memory keep.
\<close>

section \<open>The reference\<close>

text \<open>The sum of RFC 1071: the bytes as big-endian halves, a last odd byte filled up with zero.\<close>

fun be16_sum :: "u8 list \<Rightarrow> nat" where
  "be16_sum (a # b # bs) = 256 * unat a + unat b + be16_sum bs"
| "be16_sum [a] = 256 * unat a"
| "be16_sum [] = 0"

lemma be16_sum_append: "even (length xs) \<Longrightarrow> be16_sum (xs @ ys) = be16_sum xs + be16_sum ys"
  by (induction xs rule: be16_sum.induct) auto

text \<open>Numbers with the same sum in ones' complement arithmetic of 16 bits.\<close>

definition same_sum :: "nat \<Rightarrow> nat \<Rightarrow> bool" where
  "same_sum x y \<longleftrightarrow> x mod 65535 = y mod 65535 \<and> (x = 0 \<longleftrightarrow> y = 0)"

lemma same_sum_refl [simp]: "same_sum x x"
  by (simp add: same_sum_def)

lemma same_sum_sym: "same_sum x y \<Longrightarrow> same_sum y x"
  by (simp add: same_sum_def)

lemma same_sum_trans [trans]: "same_sum x y \<Longrightarrow> same_sum y z \<Longrightarrow> same_sum x z"
  by (simp add: same_sum_def)

lemma same_sum_add: "same_sum x y \<Longrightarrow> same_sum x' y' \<Longrightarrow> same_sum (x + x') (y + y')"
  unfolding same_sum_def using mod_add_cong [of x 65535 y x' y'] by simp

lemma same_sum_oc: "same_sum x y \<Longrightarrow> oc 65535 x = oc 65535 y"
  by (rule oc_cong) (simp_all add: same_sum_def)

lemma same_sum_mult: "same_sum (65536 * h + l) (h + l)"
proof -
  have "65536 * h + l = h + l + 65535 * h" by simp
  then have "(65536 * h + l) mod 65535 = (h + l) mod 65535"
    by (metis mod_mult_self2)
  then show ?thesis by (simp add: same_sum_def)
qed

lemma same_sum_fold: "same_sum (fold_half x) x"
  by (simp add: same_sum_def fold_half_mod fold_half_zero)

lemma same_sum_oc32: "same_sum (oc (2 ^ 32 - 1) x) x"
proof -
  have "(2 ^ 32 - 1 :: nat) = 65535 * 65537" by simp
  then have "(65535 :: nat) dvd 2 ^ 32 - 1" by (metis dvd_triv_left)
  then have "oc (2 ^ 32 - 1) x mod 65535 = x mod 65535"
    by (metis mod_mod_cancel oc_mod)
  then show ?thesis by (simp add: same_sum_def)
qed

lemma ones_sum_add_same: "same_sum (unat (ones_sum_add a b)) (unat a + unat b)"
  unfolding ones_sum_add_oc by (rule same_sum_oc32)

lemma ones_sum_add_into:
  "same_sum (unat a) x \<Longrightarrow> same_sum (unat b) y \<Longrightarrow> same_sum (unat (ones_sum_add a b)) (x + y)"
  by (rule same_sum_trans [OF ones_sum_add_same same_sum_add])

lemma ones_sum_fold16_same: "same_sum (unat s) x \<Longrightarrow> unat (ones_sum_fold16 s) = oc 65535 x"
  by (simp add: ones_sum_fold16_oc same_sum_oc)

section \<open>Words of memory\<close>

lemma length_bytes_at [simp]: "length (bytes_at mem p n) = n"
  by (simp add: bytes_at_def)

lemma bytes_at_0 [simp]: "bytes_at mem p 0 = []"
  by (simp add: bytes_at_def)

lemma bytes_at_add: "bytes_at mem p (m + n) = bytes_at mem p m @ bytes_at mem (p + of_nat m) n"
  by (rule nth_equalityI) (auto simp: bytes_at_def nth_append simp flip: of_nat_add)

lemma take_bytes_at: "m \<le> n \<Longrightarrow> take m (bytes_at mem p n) = bytes_at mem p m"
  using bytes_at_add [of mem p m "n - m"] by simp

lemma unat_lt8: "unat (b :: u8) < 256"
  using unsigned_less [of b, where 'a = nat] by simp

lemma be_val_less: "be_val bs < 256 ^ length bs"
proof (induction bs)
  case (Cons b bs)
  have "unat b \<le> 255"
    using unat_lt8 [of b] by simp
  then have "unat b * 256 ^ length bs \<le> 255 * 256 ^ length bs"
    by (rule mult_right_mono) simp
  with Cons have "unat b * 256 ^ length bs + be_val bs < 256 * 256 ^ length bs"
    by linarith
  then show ?case by simp
qed simp

lemma unat_be_val: "length bs \<le> 4 \<Longrightarrow> unat (of_nat (be_val bs) :: u32) = be_val bs"
proof -
  assume "length bs \<le> 4"
  then have "(256 :: nat) ^ length bs \<le> 256 ^ 4"
    by (rule power_increasing) simp
  with be_val_less [of bs] show ?thesis
    by (simp add: unat_of_nat)
qed

lemma words_of_append: "length bs mod 4 = 0 \<Longrightarrow> words_of (bs @ cs) = words_of bs @ words_of cs"
  by (induction bs rule: words_of.induct) auto

lemma length_words_of: "length (words_of bs) = length bs div 4"
  by (induction bs rule: words_of.induct) auto

lemma words_of_same: "length bs mod 4 = 0 \<Longrightarrow> same_sum (sum_list (map unat (words_of bs))) (be16_sum bs)"
proof (induction bs rule: words_of.induct)
  case (1 a b c d bs)
  have "unat (of_nat (be_val [a, b, c, d]) :: u32) = 65536 * (256 * unat a + unat b) + (256 * unat c + unat d)"
    by (subst unat_be_val) simp_all
  then have "same_sum (unat (of_nat (be_val [a, b, c, d]) :: u32)) (be16_sum [a, b, c, d])"
    using same_sum_mult [of "256 * unat a + unat b" "256 * unat c + unat d"] by simp
  from same_sum_add [OF this 1(1)] 1(2) show ?case
    by (simp add: add.assoc)
qed auto

section \<open>The sum of a few words\<close>

definition total_sum :: "u32 \<times> bool \<Rightarrow> nat" where
  "total_sum p = unat (fst p) + of_bool (snd p)"

definition carry_ok :: "u32 \<times> bool \<Rightarrow> bool" where
  "carry_ok p \<longleftrightarrow> (snd p \<longrightarrow> unat (fst p) \<le> 2 ^ 32 - 2)"

lemma addc_step:
  assumes "carry_ok p"
  shows "carry_ok (addc p v)" and "same_sum (total_sum (addc p v)) (total_sum p + unat v)"
proof -
  obtain s c where p: "p = (s, c)" by (cases p)
  define t where "t = unat s + unat v + of_bool c"
  have t: "t \<le> 2 ^ 33 - 2"
    using assms unat_lt32 [of s] unat_lt32 [of v] by (cases c) (simp_all add: p t_def carry_ok_def)
  have u: "unat (s + v + of_bool c) = t mod 2 ^ 32"
    by (cases c) (simp_all add: t_def unat_add32 mod_add_left_eq mod_Suc_eq)
  have "carry_ok (addc p v) \<and> same_sum (total_sum (addc p v)) t"
  proof (cases "2 ^ 32 \<le> t")
    case True
    with t have m: "t mod 2 ^ 32 = t - 2 ^ 32" by (simp add: mod_if)
    then have "total_sum (addc p v) = t - (2 ^ 32 - 1)"
      using True u by (simp add: p total_sum_def flip: t_def)
    moreover have "t = t - (2 ^ 32 - 1) + 65535 * 65537"
      using True by simp
    then have "t mod 65535 = (t - (2 ^ 32 - 1)) mod 65535"
      by (metis mod_mult_self2)
    ultimately show ?thesis
      using True t u m by (simp add: p carry_ok_def same_sum_def flip: t_def)
  next
    case False
    then show ?thesis
      using u by (simp add: p carry_ok_def total_sum_def flip: t_def)
  qed
  then show "carry_ok (addc p v)" "same_sum (total_sum (addc p v)) (total_sum p + unat v)"
    by (simp_all add: p t_def total_sum_def add.commute add.left_commute)
qed

lemma addc_fold:
  "carry_ok p \<Longrightarrow> carry_ok (foldl addc p ws) \<and> same_sum (total_sum (foldl addc p ws)) (total_sum p + sum_list (map unat ws))"
proof (induction ws arbitrary: p)
  case (Cons w ws)
  from Cons.IH [OF addc_step(1) [OF Cons.prems, of w]]
  have IH: "carry_ok (foldl addc (addc p w) ws)"
    "same_sum (total_sum (foldl addc (addc p w) ws)) (total_sum (addc p w) + sum_list (map unat ws))"
    by auto
  have "same_sum (total_sum (addc p w) + sum_list (map unat ws)) (total_sum p + unat w + sum_list (map unat ws))"
    by (rule same_sum_add [OF addc_step(2) [OF Cons.prems] same_sum_refl])
  from same_sum_trans [OF IH(2) this] IH(1) show ?case
    by (simp add: add.assoc)
qed simp

lemma unat_add_carry: "carry_ok p \<Longrightarrow> unat (fst p + of_bool (snd p)) = total_sum p"
  using unat_lt32 [of "fst p"] by (cases "snd p") (simp_all add: carry_ok_def total_sum_def unat_add32)

lemma small_lengths:
  assumes "n \<le> 64"
  shows "unat (drop_bit 2 (of_nat n :: u32)) = n div 4" and "(of_nat n :: u32) AND 3 = of_nat (n mod 4)"
    and "unat (drop_bit 3 ((of_nat n + 7 :: u32) AND 0x78)) = (n + 7) div 8"
proof -
  have "\<forall>n \<in> set [0..<65]. unat (drop_bit 2 (of_nat n :: u32)) = n div 4 \<and> (of_nat n :: u32) AND 3 = of_nat (n mod 4) \<and>
      unat (drop_bit 3 ((of_nat n + 7 :: u32) AND 0x78)) = (n + 7) div 8"
    by code_simp
  moreover have "n \<in> set [0..<65]"
    using assms by auto
  ultimately show "unat (drop_bit 2 (of_nat n :: u32)) = n div 4" "(of_nat n :: u32) AND 3 = of_nat (n mod 4)"
    "unat (drop_bit 3 ((of_nat n + 7 :: u32) AND 0x78)) = (n + 7) div 8"
    by blast+
qed

lemma masks:
  fixes v :: u32
  shows "unat (v AND 0xFF000000) = unat v - unat v mod 2 ^ 24"
    and "unat (v AND 0xFFFF0000) = unat v - unat v mod 2 ^ 16"
    and "unat (v AND 0xFFFFFF00) = unat v - unat v mod 2 ^ 8"
proof -
  have "(0xFF000000 :: u32) = NOT (2 ^ 24 - 1)" "(0xFFFF0000 :: u32) = NOT (2 ^ 16 - 1)" "(0xFFFFFF00 :: u32) = NOT (2 ^ 8 - 1)"
    by simp_all
  then show "unat (v AND 0xFF000000) = unat v - unat v mod 2 ^ 24" "unat (v AND 0xFFFF0000) = unat v - unat v mod 2 ^ 16"
    "unat (v AND 0xFFFFFF00) = unat v - unat v mod 2 ^ 8"
    using align_floor_value [of 24 v] align_floor_value [of 16 v] align_floor_value [of 8 v]
    by (simp_all only: RTE_ALIGN_FLOOR_def) simp_all
qed

text \<open>The last word, with the bytes behind the end masked out.\<close>

lemma masked_word:
  fixes a b c d :: u8
  defines "v \<equiv> of_nat (be_val [a, b, c, d]) :: u32"
  shows "same_sum (unat (v AND 0xFF000000)) (be16_sum [a])"
    and "same_sum (unat (v AND 0xFFFF0000)) (be16_sum [a, b])"
    and "same_sum (unat (v AND 0xFFFFFF00)) (be16_sum [a, b, c])"
proof -
  have v: "unat v = be_val [a, b, c, d]"
    unfolding v_def by (rule unat_be_val) simp
  have less: "be_val [b, c, d] < 2 ^ 24" "be_val [c, d] < 2 ^ 16" "be_val [d] < 2 ^ 8"
    using be_val_less [of "[b, c, d]"] be_val_less [of "[c, d]"] be_val_less [of "[d]"] by simp_all
  have "be_val [a, b, c, d] = unat a * 2 ^ 24 + be_val [b, c, d]"
    "be_val [a, b, c, d] = (unat a * 256 + unat b) * 2 ^ 16 + be_val [c, d]"
    "be_val [a, b, c, d] = (unat a * 65536 + unat b * 256 + unat c) * 2 ^ 8 + be_val [d]"
    by simp_all
  then have "be_val [a, b, c, d] - be_val [a, b, c, d] mod 2 ^ 24 = unat a * 2 ^ 24"
    "be_val [a, b, c, d] - be_val [a, b, c, d] mod 2 ^ 16 = (unat a * 256 + unat b) * 2 ^ 16"
    "be_val [a, b, c, d] - be_val [a, b, c, d] mod 2 ^ 8 = (unat a * 65536 + unat b * 256 + unat c) * 2 ^ 8"
    using less by (metis add_diff_cancel_right' mod_less mod_mult_self3)+
  then show "same_sum (unat (v AND 0xFF000000)) (be16_sum [a])"
    "same_sum (unat (v AND 0xFFFF0000)) (be16_sum [a, b])"
    "same_sum (unat (v AND 0xFFFFFF00)) (be16_sum [a, b, c])"
    using same_sum_mult [of "256 * unat a" 0] same_sum_mult [of "256 * unat a + unat b" 0]
      same_sum_mult [of "256 * unat a + unat b" "256 * unat c"]
    unfolding masks v by (simp_all add: algebra_simps)
qed

lemma take_words_of:
  assumes "length bs mod 4 = 0" and "4 * k \<le> length bs"
  shows "take k (words_of bs @ ws) = words_of (take (4 * k) bs)"
proof -
  have "words_of bs = words_of (take (4 * k) bs) @ words_of (drop (4 * k) bs)"
    using words_of_append [of "take (4 * k) bs" "drop (4 * k) bs"] assms by (simp add: min_absorb2)
  then show ?thesis
    using assms by (simp add: length_words_of min_absorb2)
qed

lemma nth_words_of:
  assumes "length bs mod 4 = 0" and "4 * k < length bs"
  shows "\<exists>a b c d cs. drop (4 * k) bs = a # b # c # d # cs \<and> (words_of bs @ ws) ! k = of_nat (be_val [a, b, c, d])"
proof -
  have "4 \<le> length (drop (4 * k) bs)"
    using assms by (simp, presburger)
  then obtain a b c d cs where d: "drop (4 * k) bs = a # b # c # d # cs"
    by (metis Suc_le_length_iff numeral_eq_Suc pred_numeral_simps(2) BitM.simps eval_nat_numeral(3))
  have "words_of bs = words_of (take (4 * k) bs) @ words_of (drop (4 * k) bs)"
    using words_of_append [of "take (4 * k) bs" "drop (4 * k) bs"] assms by (simp add: min_absorb2)
  then have "(words_of bs @ ws) ! k = of_nat (be_val [a, b, c, d])"
    using assms by (simp add: d nth_append length_words_of min_absorb2)
  with d show ?thesis by blast
qed

lemma take_split4: "take n bs = take (4 * (n div 4)) bs @ take (n mod 4) (drop (4 * (n div 4)) bs)"
  by (metis add.commute mod_mult_div_eq take_add)

lemma sum_words_same:
  fixes bs :: "u8 list"
  defines "p \<equiv> foldl addc (0, False) (words_of bs)"
  assumes "length bs mod 4 = 0"
  shows "same_sum (unat (fst p + of_bool (snd p))) (be16_sum bs)"
proof -
  have p: "carry_ok p" "same_sum (total_sum p) (sum_list (map unat (words_of bs)))"
    using addc_fold [of "(0, False)" "words_of bs"] by (simp_all add: p_def carry_ok_def total_sum_def)
  show ?thesis
    unfolding unat_add_carry [OF p(1)] by (rule same_sum_trans [OF p(2) words_of_same [OF assms(2)]])
qed

lemma ones_sum_warr_same:
  assumes "length bs mod 4 = 0" and "n \<le> length bs" and "n \<le> 64"
  shows "\<exists>r. ones_sum_warr (words_of bs @ ws) (of_nat n) = Some r \<and> same_sum (unat r) (be16_sum (take n bs))"
proof -
  define buf where "buf = words_of bs @ ws"
  let ?k = "n div 4" and ?bs = "take (4 * (n div 4)) bs"
  let ?p = "foldl addc (0, False) (words_of ?bs)"
  let ?s = "fst ?p + of_bool (snd ?p)"
  have k: "4 * ?k \<le> length bs" "?k \<le> 16" "?k \<le> length buf"
    using assms by (auto simp: buf_def length_words_of div_le_mono trans_le_add1)
  have s: "same_sum (unat ?s) (be16_sum ?bs)"
    using k(1) by (intro sum_words_same) (simp add: min_absorb2)
  have sum: "be16_sum (take n bs) = be16_sum ?bs + be16_sum (take (n mod 4) (drop (4 * ?k) bs))"
    unfolding take_split4 [of n bs] using k(1) by (subst be16_sum_append) (simp_all add: min_absorb2)
  have take: "take ?k buf = words_of ?bs"
    unfolding buf_def by (rule take_words_of [OF assms(1) k(1)])
  note warr = ones_sum_warr_def small_lengths(1,2) [OF assms(3)] take case_prod_beta Let_def
  show ?thesis
  proof (cases "n mod 4 = 0")
    case True
    with k have "ones_sum_warr buf (of_nat n) = Some ?s"
      by (simp add: warr)
    with s sum True show ?thesis
      by (simp add: buf_def)
  next
    case False
    then have "4 * ?k < n"
      by (metis mult_div_mod_eq less_add_same_cancel1 not_gr_zero)
    then have len: "4 * ?k < length bs" "?k < length buf"
      using assms by (auto simp: buf_def length_words_of)
    then obtain a b c d cs where d: "drop (4 * ?k) bs = a # b # c # d # cs"
      "buf ! ?k = of_nat (be_val [a, b, c, d])"
      using nth_words_of [OF assms(1)] unfolding buf_def by blast
    note masked = masked_word [of a b c d, THEN ones_sum_add_into [OF s]]
    consider "n mod 4 = 1" | "n mod 4 = 2" | "n mod 4 = 3"
      using False by linarith
    then have "\<exists>r. ones_sum_warr buf (of_nat n) = Some r \<and> same_sum (unat r) (be16_sum (take n bs))"
    proof cases
      case 1
      then have "ones_sum_warr buf (of_nat n) = Some (ones_sum_add ?s (of_nat (be_val [a, b, c, d]) AND 0xFF000000))"
        using len k by (simp add: warr d del: be_val.simps)
      with masked(1) 1 show ?thesis
        by (simp add: sum d)
    next
      case 2
      then have "ones_sum_warr buf (of_nat n) = Some (ones_sum_add ?s (of_nat (be_val [a, b, c, d]) AND 0xFFFF0000))"
        using len k by (simp add: warr d del: be_val.simps)
      with masked(2) 2 show ?thesis
        by (simp add: sum d)
    next
      case 3
      then have "ones_sum_warr buf (of_nat n) = Some (ones_sum_add ?s (of_nat (be_val [a, b, c, d]) AND 0xFFFFFF00))"
        using len k by (simp add: warr d del: be_val.simps)
      with masked(3) 3 show ?thesis
        by (simp add: sum d)
    qed
    then show ?thesis by (simp add: buf_def)
  qed
qed

lemma read_and_sum:
  assumes "n \<le> 64"
  shows "\<exists>r. ones_sum_warr (mem_read64 mem data p ((of_nat n + 7) AND 0x78)) (of_nat n) = Some r \<and>
    same_sum (unat r) (be16_sum (bytes_at mem p n))"
proof -
  let ?c = "(n + 7) div 8"
  have "n \<le> 8 * ?c" by linarith
  with ones_sum_warr_same [of "bytes_at mem p (8 * ?c)" n "drop (2 * ?c) data"] assms show ?thesis
    unfolding mem_read64_def small_lengths(3) [OF assms] Let_def by (simp add: take_bytes_at)
qed

lemma ones_sum_loop_same:
  "0 \<le> len \<Longrightarrow> \<exists>r. ones_sum_loop mem data p len s = Some r \<and>
     same_sum (unat r) (unat s + be16_sum (bytes_at mem p (nat len)))"
proof (induction mem data p len s rule: ones_sum_loop.induct)
  case (1 mem data p len s)
  show ?case
  proof (cases "len > 0")
    case False
    then show ?thesis
      using 1(2) by (simp add: ones_sum_loop.simps [of mem data p 0 s])
  next
    case True
    define n where "n = nat (if len > 64 then 64 else len)"
    have c: "(if len > 64 then 64 else len) = int n"
      using True by (simp add: n_def)
    have n: "n \<le> 64" "int n \<le> len" "even n \<or> int n = len"
      using True by (auto simp: n_def)
    let ?data = "mem_read64 mem data p ((of_nat n + 7) AND 0x78)"
    obtain w where w: "ones_sum_warr ?data (of_nat n) = Some w" "same_sum (unat w) (be16_sum (bytes_at mem p n))"
      using read_and_sum [OF n(1)] by blast
    have loop: "ones_sum_loop mem data p len s = ones_sum_loop mem ?data (p + of_nat n) (len - int n) (ones_sum_add s w)"
      unfolding ones_sum_loop.simps [of mem data p len s] c using True w(1) by (simp add: Let_def)
    obtain r where r: "ones_sum_loop mem ?data (p + of_nat n) (len - int n) (ones_sum_add s w) = Some r"
      "same_sum (unat r) (unat (ones_sum_add s w) + be16_sum (bytes_at mem (p + of_nat n) (nat (len - int n))))"
      using 1(1) [OF True c [symmetric] _ , of ?data w] w(1) n(2) by auto
    have "nat len = n + nat (len - int n)"
      using n(2) by simp
    then have "bytes_at mem p (nat len) = bytes_at mem p n @ bytes_at mem (p + of_nat n) (nat (len - int n))"
      by (metis bytes_at_add)
    then have "be16_sum (bytes_at mem p (nat len)) = be16_sum (bytes_at mem p n) + be16_sum (bytes_at mem (p + of_nat n) (nat (len - int n)))"
      using n(3) by (auto simp: be16_sum_append)
    with same_sum_trans [OF r(2) same_sum_add [OF ones_sum_add_into [OF same_sum_refl w(2)] same_sum_refl]] r(1) loop
    show ?thesis
      by (simp add: add.assoc)
  qed
qed

lemma ones_sum_mem_same:
  "0 \<le> len \<Longrightarrow> \<exists>r. ones_sum_mem mem data p len = Some r \<and> same_sum (unat r) (be16_sum (bytes_at mem p (nat len)))"
  using ones_sum_loop_same [of len mem data p 0] by (simp add: ones_sum_mem_def)

section \<open>Complements and halves\<close>

lemma unat_not16: "unat (NOT w :: u16) = 65535 - unat w"
proof -
  have m: "(0xFFFF :: u16) = - 1" by simp
  then have "NOT w = 0xFFFF - w"
    by (simp only: not_eq_complement) simp
  moreover have "w \<le> 0xFFFF"
    unfolding m by (rule word_n1_ge)
  ultimately show ?thesis
    by (simp add: unat_sub)
qed

lemma unat_not_low: "unat (NOT (ucast w) AND 0xFFFF :: u32) = 65535 - unat (w :: u16)"
proof -
  have "NOT (ucast w) AND mask 16 = (ucast (NOT w) :: u32)"
    by (auto intro!: bit_word_eqI simp: bit_and_iff bit_not_iff bit_mask_iff bit_ucast_iff)
  moreover have "mask 16 = (0xFFFF :: u32)" by (simp add: mask_eq_exp_minus_1)
  ultimately have "NOT (ucast w) AND 0xFFFF = (ucast (NOT w) :: u32)"
    by (simp only:)
  then show ?thesis
    by (simp add: unsigned_ucast_eq unat_not16 take_bit_nat_eq_self)
qed

text \<open>A value and its complement sum up to a multiple of the modulus.\<close>

lemma oc_complement: "oc 65535 (x + (65535 - oc 65535 x)) = 65535"
proof (rule oc_unique)
  have "oc 65535 x \<le> 65535" by (rule oc_le) simp
  then have "(oc 65535 x + (65535 - oc 65535 x)) mod 65535 = 65535 mod 65535"
    by simp
  then show "65535 mod 65535 = (x + (65535 - oc 65535 x)) mod 65535"
    by (metis mod_add_left_eq oc_mod)
  show "0 < x + (65535 - oc 65535 x)"
    by (cases "x = 0") simp_all
qed simp_all

lemma or_low_half:
  fixes a b :: u32
  assumes "take_bit 16 a = 0" and "unat b < 65536"
  shows "unat (a OR b) = unat a + unat b"
proof -
  have "\<not> bit (unat a) n \<or> \<not> bit (unat b) n" for n
  proof (cases "n < 16")
    case True
    then have "\<not> bit a n"
      using assms(1) by (metis bit_0_eq bit_take_bit_iff bot_apply bot_bool_def)
    then show ?thesis by (simp add: bit_unsigned_iff)
  next
    case False
    have "take_bit 16 (unat b) = unat b"
      using assms(2) by (intro take_bit_nat_eq_self) simp
    with False show ?thesis by (metis bit_take_bit_iff)
  qed
  then show ?thesis
    by (simp add: unsigned_or_eq disjunctive_add)
qed

lemma take_bit_push_bit_same: "take_bit n (push_bit n w) = 0"
  by (rule bit_eqI) (auto simp: bit_take_bit_iff bit_push_bit_iff)

end
