(* ===== verification/Net_Csum_Props.thy ===== *)
theory Net_Csum_Props
  imports Net_Csum_Sums
begin

text \<open>
  The claims on the checksum library: headers, incremental updates and packets.
\<close>

section \<open>What the checksums are\<close>

text \<open>The two halves of a word.\<close>

definition half_sum :: "u32 \<Rightarrow> nat" where
  "half_sum w = fold_half (unat w)"

lemma half_sum_same: "same_sum (unat w) (half_sum w)"
  unfolding half_sum_def by (rule same_sum_sym [OF same_sum_fold])

definition ip4_options :: "(mem40 \<Rightarrow> u8) \<Rightarrow> regs \<Rightarrow> mem40 \<Rightarrow> u8 list" where
  "ip4_options mem ip pkt_ptr =
     (let n = 4 * (unat (ip4_hl ip) - 5) in bytes_at mem (pkt_ptr - of_nat n) n)"

definition ip4_sum :: "(mem40 \<Rightarrow> u8) \<Rightarrow> regs \<Rightarrow> mem40 \<Rightarrow> nat" where
  "ip4_sum mem ip pkt_ptr =
     half_sum (ip 0) + half_sum (ip 1) + half_sum (ip 2) + half_sum (ip 3) + half_sum (ip 4) +
     be16_sum (ip4_options mem ip pkt_ptr)"

lemma complement_fold: "same_sum (unat s) x \<Longrightarrow> unat (NOT (ones_sum_fold16 s)) = 65535 - oc 65535 x"
  by (simp add: unat_not16 ones_sum_fold16_same)

lemma ip4_hl_le: "unat (ip4_hl ip) \<le> 15"
proof -
  have "ip4_hl ip = take_bit 4 (drop_bit 24 (ip 0))"
    by (simp add: ip4_hl_def take_bit_eq_mask mask_eq_exp_minus_1)
  then have "unat (ip4_hl ip) = take_bit 4 (unat (drop_bit 24 (ip 0)))"
    by (simp add: unsigned_take_bit_eq)
  then show ?thesis
    using take_bit_nat_less_exp [of 4 "unat (drop_bit 24 (ip 0))"] by simp
qed

lemma option_size:
  assumes "hl > NET_IP4_LEN32" and "unat hl \<le> 15"
  shows "(hl - NET_IP4_LEN32) * 4 = of_nat (4 * (unat hl - 5))" and "4 * (unat hl - 5) \<le> 64"
    and "(ucast ((hl - NET_IP4_LEN32) * 4) :: mem40) = of_nat (4 * (unat hl - 5))"
proof -
  have "\<forall>n \<in> set [6..<16]. (of_nat n - 5 :: u32) * 4 = of_nat (4 * (n - 5)) \<and>
      (ucast ((of_nat n - 5 :: u32) * 4) :: mem40) = of_nat (4 * (n - 5))"
    by code_simp
  moreover have "hl = of_nat (unat hl)" by simp
  moreover have n: "unat hl \<in> set [6..<16]"
    using assms by (simp only: set_upt atLeastLessThan_iff) (simp add: NET_IP4_LEN32_def word_less_nat_alt)
  ultimately show "(hl - NET_IP4_LEN32) * 4 = of_nat (4 * (unat hl - 5))"
    "(ucast ((hl - NET_IP4_LEN32) * 4) :: mem40) = of_nat (4 * (unat hl - 5))"
    unfolding NET_IP4_LEN32_def by metis+
  show "4 * (unat hl - 5) \<le> 64" using assms(2) by simp
qed

lemma net_csum_ipv4_value:
  "\<exists>c. net_csum_ipv4 mem data ip pkt_ptr = Some c \<and> unat c = 65535 - oc 65535 (ip4_sum mem ip pkt_ptr)"
proof -
  let ?hl = "ip4_hl ip"
  let ?s = "ones_sum_add (ones_sum_add (ones_sum_add (ones_sum_add (ones_sum_add 0 (ip 0)) (ip 1)) (ip 2)) (ip 3)) (ip 4)"
  have s: "same_sum (unat ?s) (0 + half_sum (ip 0) + half_sum (ip 1) + half_sum (ip 2) + half_sum (ip 3) + half_sum (ip 4))"
    by (intro ones_sum_add_into half_sum_same) simp
  show ?thesis
  proof (cases "?hl > NET_IP4_LEN32")
    case False
    then have "unat ?hl \<le> 5"
      by (simp add: NET_IP4_LEN32_def word_less_nat_alt)
    with complement_fold [OF s] False show ?thesis
      by (simp add: net_csum_ipv4_def net_csum_ipv4_opt_def ip4_sum_def ip4_options_def Let_def)
  next
    case True
    note size = option_size [OF True ip4_hl_le]
    let ?n = "4 * (unat ?hl - 5)"
    let ?p = "pkt_ptr - of_nat ?n"
    obtain w where w: "ones_sum_warr (mem_read64 mem data ?p ((of_nat ?n + 7) AND 0x78)) (of_nat ?n) = Some w"
      "same_sum (unat w) (be16_sum (bytes_at mem ?p ?n))"
      using read_and_sum [OF size(2)] by blast
    have "net_csum_ipv4 mem data ip pkt_ptr = Some (NOT (ones_sum_fold16 (ones_sum_add ?s w)))"
      unfolding net_csum_ipv4_def net_csum_ipv4_opt_def Let_def size(3) unfolding size(1) w(1)
      using True by simp
    with complement_fold [OF ones_sum_add_into [OF s w(2)]] show ?thesis
      by (simp add: ip4_sum_def ip4_options_def Let_def)
  qed
qed

section \<open>Packets\<close>

text \<open>The addresses, protocol and length a transport checksum covers.\<close>

definition pseudo_sum :: "u32 \<Rightarrow> u32 \<Rightarrow> regs \<Rightarrow> u32 \<Rightarrow> nat" where
  "pseudo_sum ip_type protocol ip l4_len =
     (if ip_type = NET_ETH_TYPE_IPV6 then sum_list (map (half_sum \<circ> ip) [2..<10]) else half_sum (ip 3) + half_sum (ip 4)) +
     unat protocol + unat l4_len"

definition hdr_len :: "u32 \<Rightarrow> nat" where
  "hdr_len protocol = (if protocol = NET_IP_PROTO_UDP then 8 else 20)"

lemma fold_add_same: "same_sum (unat (foldl ones_sum_add s ws)) (unat s + sum_list (map unat ws))"
proof (induction ws arbitrary: s)
  case (Cons w ws)
  from same_sum_trans [OF Cons.IH same_sum_add [OF ones_sum_add_same same_sum_refl]] show ?case
    by (simp add: add.assoc)
qed simp

lemma half_sums_same: "same_sum (sum_list (map unat ws)) (sum_list (map half_sum ws))"
  by (induction ws) (simp_all add: same_sum_add half_sum_same)

lemma small_upts: "[0..<2] = [0, 1]" "[0..<5] = [0, 1, 2, 3, 4]" "[0..<8] = [0, 1, 2, 3, 4, 5, 6, 7]"
  "[0..<10] = [0, 1, 2, 3, 4, 5, 6, 7, 8, 9]" "[2..<10] = [2, 3, 4, 5, 6, 7, 8, 9]"
  by code_simp+

definition pseudo_addrs :: "u32 \<Rightarrow> regs \<Rightarrow> u32 list" where
  "pseudo_addrs ip_type ip = map ip (if ip_type = NET_ETH_TYPE_IPV6 then [3, 4, 2, 5, 6, 7, 8, 9] else [3, 4])"

definition pseudo_lens :: "u32 \<Rightarrow> u32 \<Rightarrow> u32 \<Rightarrow> u32 list" where
  "pseudo_lens ip_type protocol l4_len =
     (if ip_type = NET_ETH_TYPE_IPV6 then [protocol, l4_len] else [push_bit 16 protocol OR l4_len])"

lemma ones_sum_pseudo_fold:
  assumes "protocol = NET_IP_PROTO_TCP \<or> protocol = NET_IP_PROTO_UDP"
  shows "\<exists>ws. ones_sum_pseudo ip_type protocol ip l4_hdr l4_len = foldl ones_sum_add 0 ws \<and>
    sum_list (map unat ws) = sum_list (map unat (pseudo_addrs ip_type ip)) + sum_list (map unat (pseudo_lens ip_type protocol l4_len)) +
      sum_list (map (unat \<circ> l4_hdr) [0..<hdr_len protocol div 4])"
proof -
  let ?ws = "pseudo_addrs ip_type ip @ map l4_hdr [0, 1] @ (if ip_type = NET_ETH_TYPE_IPV6 then [protocol] else []) @
    (if protocol = NET_IP_PROTO_TCP then map l4_hdr [2, 3, 4] else []) @
    (if ip_type = NET_ETH_TYPE_IPV6 then [l4_len] else [push_bit 16 protocol OR l4_len])"
  have "ones_sum_pseudo ip_type protocol ip l4_hdr l4_len = foldl ones_sum_add 0 ?ws"
    by (simp add: ones_sum_pseudo_def Let_def pseudo_addrs_def)
  moreover have "sum_list (map unat ?ws) = sum_list (map unat (pseudo_addrs ip_type ip)) +
      sum_list (map unat (pseudo_lens ip_type protocol l4_len)) + sum_list (map (unat \<circ> l4_hdr) [0..<hdr_len protocol div 4])"
    using assms by (auto simp: hdr_len_def pseudo_lens_def NET_IP_PROTO_TCP_def NET_IP_PROTO_UDP_def small_upts)
  ultimately show ?thesis by blast
qed

lemma pseudo_lens_same:
  assumes "protocol = NET_IP_PROTO_TCP \<or> protocol = NET_IP_PROTO_UDP" and "unat l4_len < 65536"
  shows "same_sum (sum_list (map unat (pseudo_lens ip_type protocol l4_len))) (unat protocol + unat l4_len)"
proof -
  have "unat (push_bit 16 protocol) = 65536 * unat protocol"
    using assms(1) by (auto simp: NET_IP_PROTO_TCP_def NET_IP_PROTO_UDP_def)
  then have "unat (push_bit 16 protocol OR l4_len) = 65536 * unat protocol + unat l4_len"
    using or_low_half [OF take_bit_push_bit_same assms(2), of protocol] by simp
  then show ?thesis
    using same_sum_mult [of "unat protocol" "unat l4_len"] by (simp add: pseudo_lens_def)
qed

lemma ones_sum_pseudo_same:
  assumes "protocol = NET_IP_PROTO_TCP \<or> protocol = NET_IP_PROTO_UDP" and "unat l4_len < 65536"
  shows "same_sum (unat (ones_sum_pseudo ip_type protocol ip l4_hdr l4_len))
    (pseudo_sum ip_type protocol ip l4_len + sum_list (map (unat \<circ> l4_hdr) [0..<hdr_len protocol div 4]))"
proof -
  have sum: "pseudo_sum ip_type protocol ip l4_len = sum_list (map half_sum (pseudo_addrs ip_type ip)) + (unat protocol + unat l4_len)"
    by (simp add: pseudo_sum_def pseudo_addrs_def small_upts)
  obtain ws where ws: "ones_sum_pseudo ip_type protocol ip l4_hdr l4_len = foldl ones_sum_add 0 ws"
    "sum_list (map unat ws) = sum_list (map unat (pseudo_addrs ip_type ip)) + sum_list (map unat (pseudo_lens ip_type protocol l4_len)) +
      sum_list (map (unat \<circ> l4_hdr) [0..<hdr_len protocol div 4])"
    using ones_sum_pseudo_fold [OF assms(1)] by blast
  have "same_sum (sum_list (map unat ws))
      (pseudo_sum ip_type protocol ip l4_len + sum_list (map (unat \<circ> l4_hdr) [0..<hdr_len protocol div 4]))"
    unfolding ws(2) sum by (intro same_sum_add half_sums_same pseudo_lens_same assms same_sum_refl)
  with same_sum_trans [OF fold_add_same [of 0 ws]] show ?thesis
    by (simp add: ws(1))
qed

definition l4_len_of :: "u32 \<Rightarrow> regs \<Rightarrow> u32 \<Rightarrow> u32 \<Rightarrow> u32" where
  "l4_len_of protocol l4_hdr ctm_len mem_len =
     (if protocol = NET_IP_PROTO_UDP then udp_len l4_hdr else ctm_len + mem_len)"

definition l4_bytes :: "(mem40 \<Rightarrow> u8) \<Rightarrow> mem40 \<Rightarrow> u32 \<Rightarrow> mem40 \<Rightarrow> u32 \<Rightarrow> u8 list" where
  "l4_bytes mem pkt_ctm ctm_len pkt_mem mem_len =
     bytes_at mem pkt_ctm (unat ctm_len) @ bytes_at mem pkt_mem (unat mem_len)"

text \<open>
  What the caller provides: the header is in the first part of the packet that is there, complete,
  and a copy of it in registers.
\<close>

definition l4_ok :: "(mem40 \<Rightarrow> u8) \<Rightarrow> u32 \<Rightarrow> regs \<Rightarrow> mem40 \<Rightarrow> u32 \<Rightarrow> mem40 \<Rightarrow> u32 \<Rightarrow> bool" where
  "l4_ok mem protocol l4_hdr pkt_ctm ctm_len pkt_mem mem_len \<longleftrightarrow>
     (protocol = NET_IP_PROTO_TCP \<or> protocol = NET_IP_PROTO_UDP) \<and>
     unat ctm_len + unat mem_len < 65536 \<and>
     (let (p, n) = (if ctm_len > 0 then (pkt_ctm, ctm_len) else (pkt_mem, mem_len))
      in hdr_len protocol \<le> unat n \<and>
         map l4_hdr [0..<hdr_len protocol div 4] = words_of (bytes_at mem p (hdr_len protocol)))"

text \<open>
  The two parts are summed on their own, each from its first byte. Only if the first has an even
  length, or there is no second, this is the sum over the packet.
\<close>

definition parts_sum :: "(mem40 \<Rightarrow> u8) \<Rightarrow> mem40 \<Rightarrow> u32 \<Rightarrow> mem40 \<Rightarrow> u32 \<Rightarrow> nat" where
  "parts_sum mem pkt_ctm ctm_len pkt_mem mem_len =
     be16_sum (bytes_at mem pkt_ctm (unat ctm_len)) + be16_sum (bytes_at mem pkt_mem (unat mem_len))"

lemma parts_sum_even:
  assumes "even (unat ctm_len) \<or> mem_len = 0"
  shows "parts_sum mem pkt_ctm ctm_len pkt_mem mem_len = be16_sum (l4_bytes mem pkt_ctm ctm_len pkt_mem mem_len)"
  using assms by (auto simp: parts_sum_def l4_bytes_def be16_sum_append)

lemma sint_small: "unat (w :: u32) < 2 ^ 31 \<Longrightarrow> sint w = int (unat w)"
proof -
  assume "unat w < 2 ^ 31"
  then have "uint w < 2 ^ 31"
    by (metis of_nat_less_iff of_nat_numeral of_nat_power uint_nat)
  then have "signed_take_bit 31 (uint w) = uint w"
    using order_trans [OF _ uint_ge_0 [of w], of "- (2 ^ 31)"] by (intro signed_take_bit_int_eq_self) simp_all
  then show ?thesis by (simp add: sint_uint)
qed

lemma sum_segment:
  assumes "unat (len :: u32) < 2 ^ 31"
  shows "\<exists>r. ones_sum_mem mem data p (sint len) = Some r \<and> same_sum (unat r) (be16_sum (bytes_at mem p (unat len)))"
  using ones_sum_mem_same [of "int (unat len)" mem data p] unfolding sint_small [OF assms] nat_int by simp

text \<open>The header and what is left of the packet behind it.\<close>

lemma l4_parts:
  fixes hdr :: u32
  assumes "l4_ok mem protocol l4_hdr pkt_ctm ctm_len pkt_mem mem_len" and hdr: "unat hdr = hdr_len protocol"
    and parts: "(pc, cl, pm, ml) = (if ctm_len > 0 then (pkt_ctm + ucast hdr, ctm_len - hdr, pkt_mem, mem_len)
             else (pkt_ctm, ctm_len, pkt_mem + ucast hdr, mem_len - hdr))"
  shows "same_sum (sum_list (map (unat \<circ> l4_hdr) [0..<hdr_len protocol div 4]) + be16_sum (bytes_at mem pc (unat cl)) +
      be16_sum (bytes_at mem pm (unat ml))) (parts_sum mem pkt_ctm ctm_len pkt_mem mem_len)"
    and "unat cl + unat ml < 65536"
proof -
  define p where "p = (if ctm_len > 0 then pkt_ctm else pkt_mem)"
  let ?h = "hdr_len protocol"
  have ok: "?h mod 4 = 0" "even ?h" "unat ctm_len + unat mem_len < 65536"
    and hdr_words: "map l4_hdr [0..<?h div 4] = words_of (bytes_at mem p ?h)"
    and le: "?h \<le> unat (if ctm_len > 0 then ctm_len else mem_len)"
    using assms(1) by (auto simp: l4_ok_def hdr_len_def p_def split: if_splits)
  have "map (unat \<circ> l4_hdr) [0..<?h div 4] = map unat (words_of (bytes_at mem p ?h))"
    by (metis hdr_words map_map)
  then have words: "same_sum (sum_list (map (unat \<circ> l4_hdr) [0..<?h div 4])) (be16_sum (bytes_at mem p ?h))"
    using words_of_same [of "bytes_at mem p ?h"] ok(1) by simp
  have u: "(ucast hdr :: mem40) = of_nat ?h"
    by (metis hdr of_nat_unat ucast_eq)
  have seg: "be16_sum (bytes_at mem q (unat n)) = be16_sum (bytes_at mem q ?h) + be16_sum (bytes_at mem (q + of_nat ?h) (unat (n - hdr)))"
    and sub: "unat (n - hdr) \<le> unat n" if "?h \<le> unat n" for q n
  proof -
    have "unat (n - hdr) = unat n - ?h"
      using that hdr by (simp add: unat_sub word_le_nat_alt)
    then have "unat n = ?h + unat (n - hdr)" using that by simp
    then have "bytes_at mem q (unat n) = bytes_at mem q ?h @ bytes_at mem (q + of_nat ?h) (unat (n - hdr))"
      by (metis bytes_at_add)
    then show "be16_sum (bytes_at mem q (unat n)) = be16_sum (bytes_at mem q ?h) + be16_sum (bytes_at mem (q + of_nat ?h) (unat (n - hdr)))"
      using ok(2) by (simp add: be16_sum_append)
    show "unat (n - hdr) \<le> unat n"
      using \<open>unat n = _\<close> by simp
  qed
  have all: "parts_sum mem pkt_ctm ctm_len pkt_mem mem_len =
      be16_sum (bytes_at mem p ?h) + be16_sum (bytes_at mem pc (unat cl)) + be16_sum (bytes_at mem pm (unat ml))"
    using parts le seg by (auto simp: parts_sum_def p_def u split: if_splits)
  show "same_sum (sum_list (map (unat \<circ> l4_hdr) [0..<hdr_len protocol div 4]) + be16_sum (bytes_at mem pc (unat cl)) +
      be16_sum (bytes_at mem pm (unat ml))) (parts_sum mem pkt_ctm ctm_len pkt_mem mem_len)"
    unfolding all by (intro same_sum_add words same_sum_refl)
  show "unat cl + unat ml < 65536"
    using parts le sub [of ctm_len] sub [of mem_len] ok(3) by (auto split: if_splits)
qed

lemma l4_len_less:
  assumes "unat ctm_len + unat mem_len < 65536"
  shows "unat (l4_len_of protocol l4_hdr ctm_len mem_len) < 65536"
proof -
  have "unat (drop_bit 16 w) < 65536" for w :: u32
    using unat_lt32 [of w] by (subst unat_drop_bit_eq) (simp add: drop_bit_eq_div less_mult_imp_div_less)
  with assms show ?thesis
    by (simp add: l4_len_of_def udp_len_def unat_add32)
qed

lemma net_csum_l4_ip_same:
  assumes "l4_ok mem protocol l4_hdr pkt_ctm ctm_len pkt_mem mem_len"
  shows "\<exists>c. net_csum_l4_ip mem data ip_type protocol ip l4_hdr pkt_ctm ctm_len pkt_mem mem_len = Some c \<and>
    unat c = 65535 - oc 65535 (pseudo_sum ip_type protocol ip (l4_len_of protocol l4_hdr ctm_len mem_len) +
      parts_sum mem pkt_ctm ctm_len pkt_mem mem_len)"
proof -
  define hdr :: u32 where "hdr = (if protocol = NET_IP_PROTO_UDP then 8 else 20)"
  have h: "unat hdr = hdr_len protocol"
    by (simp add: hdr_def hdr_len_def)
  obtain pc cl pm ml where parts: "(pc, cl, pm, ml) =
      (if ctm_len > 0 then (pkt_ctm + ucast hdr, ctm_len - hdr, pkt_mem, mem_len)
       else (pkt_ctm, ctm_len, pkt_mem + ucast hdr, mem_len - hdr))"
    by (cases "ctm_len > 0") auto
  note part = l4_parts [OF assms h parts]
  let ?len = "l4_len_of protocol l4_hdr ctm_len mem_len"
  let ?hs = "sum_list (map (unat \<circ> l4_hdr) [0..<hdr_len protocol div 4])"
  let ?ps = "pseudo_sum ip_type protocol ip ?len"
  let ?s = "ones_sum_pseudo ip_type protocol ip l4_hdr ?len"
  have s: "same_sum (unat ?s) (?ps + ?hs)"
    using assms by (intro ones_sum_pseudo_same l4_len_less) (auto simp: l4_ok_def)
  obtain a b where ab: "ones_sum_mem mem data pc (sint cl) = Some a" "ones_sum_mem mem data pm (sint ml) = Some b"
    "same_sum (unat a) (be16_sum (bytes_at mem pc (unat cl)))" "same_sum (unat b) (be16_sum (bytes_at mem pm (unat ml)))"
    using sum_segment [of cl mem data pc] sum_segment [of ml mem data pm] part(2) by auto
  have total: "same_sum (?ps + ?hs + be16_sum (bytes_at mem pc (unat cl)) + be16_sum (bytes_at mem pm (unat ml)))
      (?ps + parts_sum mem pkt_ctm ctm_len pkt_mem mem_len)"
    using same_sum_add [OF same_sum_refl [of ?ps] part(1)] by (simp add: add.assoc)
  have csum: "net_csum_l4_ip mem data ip_type protocol ip l4_hdr pkt_ctm ctm_len pkt_mem mem_len =
      Some (NOT (ones_sum_fold16 (if cl + ml > 0 then ones_sum_add (ones_sum_add ?s a) b else ?s)))"
    unfolding net_csum_l4_ip_def Let_def hdr_def [symmetric] parts [symmetric] l4_len_of_def [symmetric] prod.case ab(1,2) by simp
  have "same_sum (unat (if cl + ml > 0 then ones_sum_add (ones_sum_add ?s a) b else ?s))
      (?ps + parts_sum mem pkt_ctm ctm_len pkt_mem mem_len)"
  proof (cases "cl + ml > 0")
    case True
    with same_sum_trans [OF ones_sum_add_into [OF ones_sum_add_into [OF s ab(3)] ab(4)] total] show ?thesis by simp
  next
    case False
    then have "unat cl + unat ml = 0"
      using part(2) by (simp add: word_less_nat_alt unat_add32)
    with False same_sum_trans [OF s] total show ?thesis by simp
  qed
  from complement_fold [OF this] csum show ?thesis by blast
qed

lemma csum_mod_same:
  fixes orig_val new_val :: u16
  assumes "0 < rest + unat new_val"
  shows "same_sum (oc 65535 (rest + unat orig_val) + (65535 - unat orig_val) + unat new_val) (rest + unat new_val)"
proof -
  let ?m = "unat orig_val"
  have m: "?m \<le> 65535"
    using unsigned_less [of orig_val, where 'a = nat] by simp
  have "(oc 65535 (rest + ?m) + (65535 - ?m) + unat new_val) mod 65535 = ((rest + ?m) + ((65535 - ?m) + unat new_val)) mod 65535"
    unfolding add.assoc [of "oc 65535 (rest + ?m)"] by (rule mod_add_cong [OF oc_mod refl])
  also have "(rest + ?m) + ((65535 - ?m) + unat new_val) = rest + unat new_val + 65535"
    using m by linarith
  finally have "(oc 65535 (rest + ?m) + (65535 - ?m) + unat new_val) mod 65535 = (rest + unat new_val) mod 65535"
    by (simp only: mod_add_self2)
  moreover have "0 < oc 65535 (rest + ?m) + (65535 - ?m)"
    by (cases "?m = 0") simp_all
  ultimately show ?thesis
    unfolding same_sum_def using assms by (metis add_is_0 less_numeral_extra(3))
qed

lemma half_sum_or:
  assumes "take_bit 16 w = 0"
  shows "half_sum (w OR ucast (c :: u16)) = half_sum w + unat c"
proof -
  have c: "unat (ucast c :: u32) = unat c" "unat c < 65536"
    using unsigned_less [of c, where 'a = nat] by (simp_all add: unsigned_ucast_eq take_bit_nat_eq_self)
  have "take_bit 16 (unat w) = 0"
    using arg_cong [OF assms, of unat] by (simp add: unsigned_take_bit_eq)
  then have "unat w mod 65536 = 0"
    by (simp add: take_bit_eq_mod)
  moreover from this have "(unat w + unat c) div 65536 = unat w div 65536" "(unat w + unat c) mod 65536 = unat c"
    using c(2) by (simp_all add: div_add1_eq [of "unat w"] mod_add_eq [of "unat w", symmetric])
  ultimately show ?thesis
    using or_low_half [OF assms, of "ucast c"] c by (simp add: half_sum_def fold_half_def)
qed

section \<open>The properties\<close>

text \<open>
  C24: The sum over a memory region, read 64 bytes at a time into transfer registers and added with
  the carry flag, folds to the sum of RFC 1071: the bytes of the region as big-endian halves in
  ones' complement arithmetic, a last odd byte filled up with zero. It always returns, and what
  the registers held before makes no difference.
\<close>

theorem ones_sum_mem_reference:
  assumes "0 \<le> len"
  shows "\<exists>r. ones_sum_mem mem pkt_cache p len = Some r \<and>
    unat (ones_sum_fold16 r) = oc 65535 (be16_sum (bytes_at mem p (nat len)))"
  using ones_sum_mem_same [OF assms] ones_sum_fold16_same by blast

text \<open>
  C25: An IPv4 header that carries its checksum is accepted: computed over the header with a zero
  checksum field, options included, and stored there, the checksum of the result is zero.
\<close>

theorem net_csum_ipv4_verifies:
  assumes "take_bit 16 (ip 2) = 0" and "net_csum_ipv4 mem ip_opts ip pkt_ptr = Some c"
  shows "net_csum_ipv4 mem ip_opts (ip(2 := ip 2 OR ucast c)) pkt_ptr = Some 0"
proof -
  let ?ip = "ip(2 := ip 2 OR ucast c)"
  have c: "unat c = 65535 - oc 65535 (ip4_sum mem ip pkt_ptr)"
    using net_csum_ipv4_value [of mem ip_opts ip pkt_ptr] assms(2) by auto
  have "ip4_sum mem ?ip pkt_ptr = ip4_sum mem ip pkt_ptr + unat c"
    by (simp add: ip4_sum_def ip4_options_def ip4_hl_def half_sum_or [OF assms(1)])
  then have "oc 65535 (ip4_sum mem ?ip pkt_ptr) = 65535"
    by (simp only: c oc_complement)
  with net_csum_ipv4_value [of mem ip_opts ?ip pkt_ptr] show ?thesis
    by (auto simp: unat_eq_zero)
qed

text \<open>
  C26: Updating a checksum for one changed half gives the checksum of the changed data, as long as
  that is not all zero.
\<close>

theorem net_csum_mod_update:
  fixes orig_csum orig_val new_val :: u16
  assumes "unat orig_csum = 65535 - oc 65535 (rest + unat orig_val)" and "0 < rest + unat new_val"
  shows "unat (net_csum_mod (ucast orig_csum) (ucast orig_val) (ucast new_val)) = 65535 - oc 65535 (rest + unat new_val)"
proof -
  have le: "unat w \<le> 65535" for w :: u16
    using unsigned_less [of w, where 'a = nat] by simp
  have new: "unat (ucast new_val :: u32) = unat new_val"
    using le [of new_val] by (simp add: unsigned_ucast_eq take_bit_nat_eq_self)
  have "oc 65535 (rest + unat orig_val) \<le> 65535"
    by (rule oc_le) simp
  then have old: "65535 - unat orig_csum = oc 65535 (rest + unat orig_val)"
    using assms(1) by linarith
  have "unat ((NOT (ucast orig_csum) AND 0xFFFF) + (NOT (ucast orig_val) AND 0xFFFF) + ucast new_val :: u32) =
      65535 - unat orig_csum + (65535 - unat orig_val) + unat new_val"
    using le [of new_val] by (simp add: unat_add32 unat_not_low new)
  then show ?thesis
    unfolding net_csum_mod_def Let_def using complement_fold csum_mod_same [OF assms(2)] old by simp
qed

text \<open>
  C11: The TCP and UDP checksum over IPv4 and IPv6: for a complete header of which the registers hold a
  copy and fewer than 65536 bytes, it always returns, and the result is the complement of the sum
  over the pseudo header and the two parts of the packet, each part summed from its own first
  byte. Where the part in the CTM has an even length, or nothing of the packet is outside of it,
  that is the checksum of the packet.
\<close>

theorem net_csum_l4_ip_reference:
  assumes "l4_ok mem protocol l4_hdr pkt_ctm ctm_len pkt_mem mem_len"
  shows "\<exists>c. net_csum_l4_ip mem pkt_cache ip_type protocol ip l4_hdr pkt_ctm ctm_len pkt_mem mem_len = Some c \<and>
    unat c = 65535 - oc 65535 (pseudo_sum ip_type protocol ip (l4_len_of protocol l4_hdr ctm_len mem_len) +
      parts_sum mem pkt_ctm ctm_len pkt_mem mem_len) \<and>
    (even (unat ctm_len) \<or> mem_len = 0 \<longrightarrow>
      unat c = 65535 - oc 65535 (pseudo_sum ip_type protocol ip (l4_len_of protocol l4_hdr ctm_len mem_len) +
        be16_sum (l4_bytes mem pkt_ctm ctm_len pkt_mem mem_len)))"
  using net_csum_l4_ip_same [OF assms] by (metis parts_sum_even)

section \<open>Examples\<close>

definition counting_mem :: "mem40 \<Rightarrow> u8" where
  "counting_mem a = ucast a"

theorem ones_sum_mem_reference_witness:
  "\<exists>r. ones_sum_mem counting_mem [] 1 5 = Some r \<and> unat (ones_sum_fold16 r) = 0x0906"
proof -
  have "oc 65535 (be16_sum (bytes_at counting_mem 1 (nat 5))) = 0x0906"
    by (simp add: bytes_at_def small_upts counting_mem_def oc_def)
  then show ?thesis
    using ones_sum_mem_reference [of 5 counting_mem "[]" 1] by auto
qed

definition example_ip :: regs where
  "example_ip i = (if i = 0 then 0x45000073 else if i = 1 then 0x00004000 else if i = 2 then 0x40110000
     else if i = 3 then 0xc0a80001 else 0xc0a800c7)"

theorem net_csum_ipv4_verifies_witness:
  "net_csum_ipv4 counting_mem [] example_ip 0 = Some 0xb861 \<and>
   net_csum_ipv4 counting_mem [] (example_ip(2 := 0x4011b861)) 0 = Some 0"
proof -
  have c: "net_csum_ipv4 counting_mem [] example_ip 0 = Some 0xb861"
    by (simp add: net_csum_ipv4_def net_csum_ipv4_opt_def example_ip_def ip4_hl_def NET_IP4_LEN32_def ones_sum_add_def
        ones_sum_fold16_def Let_def)
  moreover have "take_bit 16 (example_ip 2) = 0" "example_ip 2 OR ucast (0xb861 :: u16) = 0x4011b861"
    by (simp_all add: example_ip_def)
  ultimately show ?thesis
    using net_csum_ipv4_verifies [of example_ip counting_mem "[]" 0 "0xb861"] by simp
qed

theorem net_csum_mod_update_witness:
  "unat (net_csum_mod (ucast (0xFFFA :: u16)) (ucast (2 :: u16)) (ucast (7 :: u16))) = 65535 - 10"
proof -
  have "unat (0xFFFA :: u16) = 65535 - oc 65535 (3 + unat (2 :: u16))" "oc 65535 (3 + unat (7 :: u16)) = 10"
    by (simp_all add: oc_def)
  then show ?thesis
    using net_csum_mod_update [of "0xFFFA" 3 2 7] by simp
qed

text \<open>A UDP packet of twelve bytes, ten of them in the first memory.\<close>

definition example_udp :: regs where
  "example_udp i = (if i = 0 then 0x00010203 else 0x04050607)"

theorem net_csum_l4_ip_reference_witness:
  "l4_ok counting_mem NET_IP_PROTO_UDP example_udp 0 10 32 2 \<and>
   (\<exists>c. net_csum_l4_ip counting_mem [] NET_ETH_TYPE_IPV4 NET_IP_PROTO_UDP example_ip example_udp 0 10 32 2 = Some c \<and>
     unat c = 65535 - oc 65535 (pseudo_sum NET_ETH_TYPE_IPV4 NET_IP_PROTO_UDP example_ip 0x0405 +
       be16_sum [0, 1, 2, 3, 4, 5, 6, 7, 8, 9, 32, 33]))"
proof -
  note bytes = bytes_at_def counting_mem_def small_upts
  have ok: "l4_ok counting_mem NET_IP_PROTO_UDP example_udp 0 10 32 2"
    by (simp add: l4_ok_def bytes hdr_len_def NET_IP_PROTO_UDP_def example_udp_def)
  have "l4_len_of NET_IP_PROTO_UDP example_udp 10 2 = 0x0405"
    "l4_bytes counting_mem 0 10 32 2 = [0, 1, 2, 3, 4, 5, 6, 7, 8, 9, 32, 33]"
    by (simp_all add: l4_len_of_def udp_len_def example_udp_def l4_bytes_def bytes)
  with net_csum_l4_ip_reference [OF ok, of "[]" NET_ETH_TYPE_IPV4 example_ip] ok show ?thesis
    by auto
qed

text \<open>
  The same packet with nine bytes in the first memory and three in the second: the bytes of the
  second part go into the wrong halves, and the checksum is not that of the packet.
\<close>

lemma odd_split_misaligned:
  "\<exists>c. net_csum_l4_ip counting_mem [] NET_ETH_TYPE_IPV4 NET_IP_PROTO_UDP example_ip example_udp 0 9 32 3 = Some c \<and>
    unat c \<noteq> 65535 - oc 65535 (pseudo_sum NET_ETH_TYPE_IPV4 NET_IP_PROTO_UDP example_ip 0x0405 +
      be16_sum (l4_bytes counting_mem 0 9 32 3))"
proof -
  note bytes = bytes_at_def counting_mem_def small_upts
  have ok: "l4_ok counting_mem NET_IP_PROTO_UDP example_udp 0 9 32 3"
    by (simp add: l4_ok_def bytes hdr_len_def NET_IP_PROTO_UDP_def example_udp_def)
  have upt: "[0..<3] = [0, 1, 2]" "[0..<9] = [0, 1, 2, 3, 4, 5, 6, 7, 8]"
    by code_simp+
  have len: "l4_len_of NET_IP_PROTO_UDP example_udp 9 3 = 0x0405"
    by (simp add: l4_len_of_def udp_len_def example_udp_def)
  have "parts_sum counting_mem 0 9 32 3 = 0x5631" "be16_sum (l4_bytes counting_mem 0 9 32 3) = 0x3552"
    by (simp_all add: parts_sum_def l4_bytes_def bytes upt)
  moreover have "pseudo_sum NET_ETH_TYPE_IPV4 NET_IP_PROTO_UDP example_ip 0x0405 = 0x1862E"
    by (simp add: pseudo_sum_def half_sum_def fold_half_def example_ip_def NET_ETH_TYPE_IPV4_def NET_ETH_TYPE_IPV6_def NET_IP_PROTO_UDP_def)
  ultimately show ?thesis
    using net_csum_l4_ip_same [OF ok, of "[]" NET_ETH_TYPE_IPV4 example_ip] by (auto simp: len oc_def)
qed

end
