(* ===== verification/Rte_Ip.thy ===== *)
theory Rte_Ip
  imports Net_Csum_Props
begin

text \<open>
  Byte order and IPv4 checksums of the host side (\<^verbatim>\<open>include/rte/byteorder.h\<close>, \<^verbatim>\<open>include/rte/ip.h\<close>): little-endian
  sums, and their agreement with those of the network processor.
\<close>

section \<open>Byte order\<close>

definition RTE_STATIC_BSWAP16 :: "u16 \<Rightarrow> u16" where
  "RTE_STATIC_BSWAP16 v = push_bit 8 (v AND 0x00ff) OR drop_bit 8 (v AND 0xff00)"

definition RTE_STATIC_BSWAP32 :: "u32 \<Rightarrow> u32" where
  "RTE_STATIC_BSWAP32 v =
     push_bit 24 (v AND 0x000000ff) OR push_bit 8 (v AND 0x0000ff00) OR
     drop_bit 8 (v AND 0x00ff0000) OR drop_bit 24 (v AND 0xff000000)"

definition RTE_STATIC_BSWAP64 :: "u64 \<Rightarrow> u64" where
  "RTE_STATIC_BSWAP64 v =
     push_bit 56 (v AND 0x00000000000000ff) OR push_bit 40 (v AND 0x000000000000ff00) OR
     push_bit 24 (v AND 0x0000000000ff0000) OR push_bit 8 (v AND 0x00000000ff000000) OR
     drop_bit 8 (v AND 0x000000ff00000000) OR drop_bit 24 (v AND 0x0000ff0000000000) OR
     drop_bit 40 (v AND 0x00ff000000000000) OR drop_bit 56 (v AND 0xff00000000000000)"

definition rte_constant_bswap16 :: "u16 \<Rightarrow> u16" where
  "rte_constant_bswap16 x = RTE_STATIC_BSWAP16 x"

definition rte_constant_bswap32 :: "u32 \<Rightarrow> u32" where
  "rte_constant_bswap32 x = RTE_STATIC_BSWAP32 x"

definition rte_constant_bswap64 :: "u64 \<Rightarrow> u64" where
  "rte_constant_bswap64 x = RTE_STATIC_BSWAP64 x"

text \<open>The instructions \<^verbatim>\<open>xchgb\<close> on the two low bytes and \<^verbatim>\<open>bswap\<close>: the bytes in reverse order.\<close>

fun bytes_of :: "nat \<Rightarrow> 'a::len word \<Rightarrow> u8 list" where
  "bytes_of 0 w = []"
| "bytes_of (Suc n) w = ucast w # bytes_of n (drop_bit 8 w)"

definition of_bytes :: "u8 list \<Rightarrow> 'a::len word" where
  "of_bytes bs = foldl (\<lambda>w b. push_bit 8 w OR ucast b) 0 bs"

definition rte_arch_bswap16 :: "u16 \<Rightarrow> u16" where
  "rte_arch_bswap16 x = of_bytes (bytes_of 2 x)"

definition rte_arch_bswap32 :: "u32 \<Rightarrow> u32" where
  "rte_arch_bswap32 x = of_bytes (bytes_of 4 x)"

definition rte_arch_bswap64 :: "u64 \<Rightarrow> u64" where
  "rte_arch_bswap64 x = of_bytes (bytes_of 8 x)"

text \<open>\<open>is_const\<close> is what \<^verbatim>\<open>__builtin_constant_p\<close> says about the argument.\<close>

definition rte_bswap16 :: "bool \<Rightarrow> u16 \<Rightarrow> u16" where
  "rte_bswap16 is_const x = (if is_const then rte_constant_bswap16 x else rte_arch_bswap16 x)"

definition rte_bswap32 :: "bool \<Rightarrow> u32 \<Rightarrow> u32" where
  "rte_bswap32 is_const x = (if is_const then rte_constant_bswap32 x else rte_arch_bswap32 x)"

definition rte_bswap64 :: "bool \<Rightarrow> u64 \<Rightarrow> u64" where
  "rte_bswap64 is_const x = (if is_const then rte_constant_bswap64 x else rte_arch_bswap64 x)"

lemma byte_masks:
  "(0x00ff :: u16) = push_bit 0 (mask 8)" "(0xff00 :: u16) = push_bit 8 (mask 8)"
  "(0x000000ff :: u32) = push_bit 0 (mask 8)" "(0x0000ff00 :: u32) = push_bit 8 (mask 8)"
  "(0x00ff0000 :: u32) = push_bit 16 (mask 8)" "(0xff000000 :: u32) = push_bit 24 (mask 8)"
  "(0x00000000000000ff :: u64) = push_bit 0 (mask 8)" "(0x000000000000ff00 :: u64) = push_bit 8 (mask 8)"
  "(0x0000000000ff0000 :: u64) = push_bit 16 (mask 8)" "(0x00000000ff000000 :: u64) = push_bit 24 (mask 8)"
  "(0x000000ff00000000 :: u64) = push_bit 32 (mask 8)" "(0x0000ff0000000000 :: u64) = push_bit 40 (mask 8)"
  "(0x00ff000000000000 :: u64) = push_bit 48 (mask 8)" "(0xff00000000000000 :: u64) = push_bit 56 (mask 8)"
  by (simp_all add: mask_eq_exp_minus_1)

lemma bit_byte:
  "bit (v AND push_bit k (mask 8)) n \<longleftrightarrow> k \<le> n \<and> n < k + 8 \<and> bit (v :: 'a::len word) n"
  by (auto simp: bit_and_iff bit_push_bit_iff bit_mask_iff dest: bit_imp_le_length)

lemmas swap_bits = bit_or_iff bit_byte bit_push_bit_iff bit_drop_bit_eq

lemma swap16_bits: "bit (RTE_STATIC_BSWAP16 v) n \<longleftrightarrow> (if n < 8 then bit v (n + 8) else bit v (n - 8) \<and> n < 16)"
  unfolding RTE_STATIC_BSWAP16_def byte_masks by (simp only: swap_bits comp_apply) (auto simp: add.commute dest: bit_imp_le_length)

lemma swap32_bits: "bit (RTE_STATIC_BSWAP32 v) n \<longleftrightarrow>
    (if n < 8 then bit v (n + 24) else if n < 16 then bit v (n + 8) else if n < 24 then bit v (n - 8)
     else bit v (n - 24) \<and> n < 32)"
  unfolding RTE_STATIC_BSWAP32_def byte_masks by (simp only: swap_bits comp_apply) (auto simp: add.commute dest: bit_imp_le_length)

lemma swap64_bits: "bit (RTE_STATIC_BSWAP64 v) n \<longleftrightarrow>
    (if n < 8 then bit v (n + 56) else if n < 16 then bit v (n + 40) else if n < 24 then bit v (n + 24)
     else if n < 32 then bit v (n + 8) else if n < 40 then bit v (n - 8) else if n < 48 then bit v (n - 24)
     else if n < 56 then bit v (n - 40) else bit v (n - 56) \<and> n < 64)"
  unfolding RTE_STATIC_BSWAP64_def byte_masks by (simp only: swap_bits comp_apply) (auto simp: add.commute dest: bit_imp_le_length)

lemma bswap_involutions:
  "rte_constant_bswap16 (rte_constant_bswap16 x) = x"
  "rte_constant_bswap32 (rte_constant_bswap32 y) = y"
  "rte_constant_bswap64 (rte_constant_bswap64 z) = z"
proof -
  show "rte_constant_bswap16 (rte_constant_bswap16 x) = x"
    unfolding rte_constant_bswap16_def by (rule bit_word_eqI) (auto simp: swap16_bits)
  show "rte_constant_bswap32 (rte_constant_bswap32 y) = y"
    unfolding rte_constant_bswap32_def by (rule bit_word_eqI) (auto simp: swap32_bits)
  show "rte_constant_bswap64 (rte_constant_bswap64 z) = z"
    unfolding rte_constant_bswap64_def by (rule bit_word_eqI) (auto simp: swap64_bits)
qed

lemma bytes_of_numeral: "bytes_of (numeral k) w = ucast w # bytes_of (pred_numeral k) (drop_bit 8 w)"
  by (simp only: numeral_eq_Suc bytes_of.simps)

lemma bytes_of_small:
  "bytes_of 2 w = [ucast w, ucast (drop_bit 8 w)]"
  "bytes_of 4 w = [ucast w, ucast (drop_bit 8 w), ucast (drop_bit 16 w), ucast (drop_bit 24 w)]"
  "bytes_of 8 w = [ucast w, ucast (drop_bit 8 w), ucast (drop_bit 16 w), ucast (drop_bit 24 w),
     ucast (drop_bit 32 w), ucast (drop_bit 40 w), ucast (drop_bit 48 w), ucast (drop_bit 56 w)]"
  by (simp_all add: bytes_of_numeral)

lemmas byte_bits = bit_or_iff bit_push_bit_iff bit_ucast_iff bit_drop_bit_eq bit_0_eq comp_apply bot_apply

lemma arch_constant:
  "rte_arch_bswap16 x = rte_constant_bswap16 x"
  "rte_arch_bswap32 y = rte_constant_bswap32 y"
proof -
  show "rte_arch_bswap16 x = rte_constant_bswap16 x"
    unfolding rte_arch_bswap16_def rte_constant_bswap16_def of_bytes_def bytes_of_small foldl.simps
    by (rule bit_word_eqI) (simp only: byte_bits swap16_bits, auto simp: add.commute)
  show "rte_arch_bswap32 y = rte_constant_bswap32 y"
    unfolding rte_arch_bswap32_def rte_constant_bswap32_def of_bytes_def bytes_of_small foldl.simps
    by (rule bit_word_eqI) (simp only: byte_bits swap32_bits, auto simp: add.commute)
qed

section \<open>Sums of the host\<close>

text \<open>The host reads memory through 64-bit addresses and in little-endian order.\<close>

type_synonym host_mem = "64 word \<Rightarrow> u8"

definition u16_at :: "host_mem \<Rightarrow> 64 word \<Rightarrow> u16" where
  "u16_at mem p = of_nat (unat (mem p) + 256 * unat (mem (p + 1)))"

function raw_cksum_loop4 :: "host_mem \<Rightarrow> 64 word \<Rightarrow> nat \<Rightarrow> u32 \<Rightarrow> 64 word \<times> nat \<times> u32" where
  "raw_cksum_loop4 mem p len s =
     (if len \<ge> 8 then
        (let s = s + ucast (u16_at mem p);
             s = s + ucast (u16_at mem (p + 2));
             s = s + ucast (u16_at mem (p + 4));
             s = s + ucast (u16_at mem (p + 6))
         in raw_cksum_loop4 mem (p + 8) (len - 8) s)
      else (p, len, s))"
  by auto
termination
  by (relation "measure (\<lambda>(mem, p, len, s). len)") auto

function raw_cksum_loop :: "host_mem \<Rightarrow> 64 word \<Rightarrow> nat \<Rightarrow> u32 \<Rightarrow> 64 word \<times> nat \<times> u32" where
  "raw_cksum_loop mem p len s =
     (if len \<ge> 2 then raw_cksum_loop mem (p + 2) (len - 2) (s + ucast (u16_at mem p)) else (p, len, s))"
  by auto
termination
  by (relation "measure (\<lambda>(mem, p, len, s). len)") auto

declare raw_cksum_loop4.simps [simp del] raw_cksum_loop.simps [simp del]

definition rte_raw_cksum_sum :: "host_mem \<Rightarrow> 64 word \<Rightarrow> nat \<Rightarrow> u32 \<Rightarrow> u32" where
  "rte_raw_cksum_sum mem buf len s =
     (let (p, len, s) = raw_cksum_loop4 mem buf len s;
          (p, len, s) = raw_cksum_loop mem p len s
      in if len = 1 then s + ucast (mem p) else s)"

definition rte_raw_cksum_reduce :: "u32 \<Rightarrow> u16" where
  "rte_raw_cksum_reduce s =
     (let s = drop_bit 16 (s AND 0xffff0000) + (s AND 0xffff);
          s = drop_bit 16 (s AND 0xffff0000) + (s AND 0xffff)
      in ucast s)"

definition rte_raw_cksum :: "host_mem \<Rightarrow> 64 word \<Rightarrow> nat \<Rightarrow> u16" where
  "rte_raw_cksum mem buf len = rte_raw_cksum_reduce (rte_raw_cksum_sum mem buf len 0)"

definition rte_ipv4_cksum :: "host_mem \<Rightarrow> 64 word \<Rightarrow> u16" where
  "rte_ipv4_cksum mem ipv4_hdr =
     (let cksum = rte_raw_cksum mem ipv4_hdr 20 in if cksum = 0xffff then cksum else NOT cksum)"

text \<open>
  The pseudo header on the stack: the two addresses as they are in the header, a zero byte, the
  protocol and the length in network order. The header is at \<open>ipv4_hdr\<close>, its total length at
  offset 2, the protocol at 9 and the addresses from 12 on.
\<close>

definition psd_hdr :: "host_mem \<Rightarrow> 64 word \<Rightarrow> u64 \<Rightarrow> u8 list" where
  "psd_hdr mem ipv4_hdr ol_flags =
     (let len = (if ol_flags AND push_bit 50 1 \<noteq> 0 then 0
                 else rte_bswap16 False (rte_bswap16 False (u16_at mem (ipv4_hdr + 2)) - 20))
      in bytes_at mem (ipv4_hdr + 12) 4 @ bytes_at mem (ipv4_hdr + 16) 4 @
         [0, mem (ipv4_hdr + 9)] @ bytes_of 2 len)"

definition rte_ipv4_phdr_cksum :: "host_mem \<Rightarrow> 64 word \<Rightarrow> u64 \<Rightarrow> u16" where
  "rte_ipv4_phdr_cksum mem ipv4_hdr ol_flags =
     (let psd = psd_hdr mem ipv4_hdr ol_flags
      in rte_raw_cksum (\<lambda>a. if unat a < length psd then psd ! unat a else 0) 0 12)"

definition rte_ipv4_udptcp_cksum :: "host_mem \<Rightarrow> 64 word \<Rightarrow> 64 word \<Rightarrow> u16" where
  "rte_ipv4_udptcp_cksum mem ipv4_hdr l4_hdr =
     (let l3_len = unat (rte_bswap16 False (u16_at mem (ipv4_hdr + 2)))
      in if l3_len < 20 then 0
         else
           (let l4_len = l3_len - 20;
                cksum = ucast (rte_raw_cksum mem l4_hdr l4_len) :: u32;
                cksum = cksum + ucast (rte_ipv4_phdr_cksum mem ipv4_hdr 0);
                cksum = drop_bit 16 (cksum AND 0xffff0000) + (cksum AND 0xffff);
                cksum = NOT cksum AND 0xffff;
                cksum = (if cksum = 0 then 0xffff else cksum)
            in ucast cksum))"

section \<open>What they sum\<close>

fun le16_sum :: "u8 list \<Rightarrow> nat" where
  "le16_sum (a # b # bs) = unat a + 256 * unat b + le16_sum bs"
| "le16_sum [a] = unat a"
| "le16_sum [] = 0"

lemma unat_u16_at: "unat (u16_at mem p) = unat (mem p) + 256 * unat (mem (p + 1))"
  using unat_lt8 [of "mem p"] unat_lt8 [of "mem (p + 1)"] unfolding u16_at_def unat_of_nat by simp

lemma bytes_at_two: "bytes_at mem p (Suc (Suc n)) = mem p # mem (p + 1) # bytes_at mem (p + 2) n"
proof -
  have "bytes_at mem p (2 + n) = bytes_at mem p 2 @ bytes_at mem (p + 2) n"
    using bytes_at_add [of mem p 2 n] by simp
  then show ?thesis
    by (simp add: bytes_at_def small_upts)
qed

lemma le16_sum_two:
  "of_nat (le16_sum (bytes_at mem p (Suc (Suc n)))) =
     (ucast (u16_at mem p) :: u32) + of_nat (le16_sum (bytes_at mem (p + 2) n))"
proof -
  have "of_nat (unat (u16_at mem p)) = (ucast (u16_at mem p) :: u32)"
    by simp
  then show ?thesis
    by (simp add: bytes_at_two unat_u16_at)
qed

lemma raw_cksum_loop_sum:
  "raw_cksum_loop mem p len s = (p', len', s') \<Longrightarrow>
     s + of_nat (le16_sum (bytes_at mem p len)) = s' + of_nat (le16_sum (bytes_at mem p' len')) \<and> len' < 2"
proof (induction mem p len s rule: raw_cksum_loop.induct)
  case (1 mem p len s)
  show ?case
  proof (cases "len \<ge> 2")
    case True
    define n where "n = len - 2"
    have n: "len = Suc (Suc n)" using True by (simp add: n_def)
    have "raw_cksum_loop mem (p + 2) n (s + ucast (u16_at mem p)) = (p', len', s')"
      using 1(2) True by (subst (asm) raw_cksum_loop.simps) (simp add: n_def)
    then show ?thesis
      using 1(1) [OF True] by (simp add: n le16_sum_two add.assoc)
  next
    case False
    with 1(2) show ?thesis
      by (auto simp: raw_cksum_loop.simps [of mem p len s])
  qed
qed

lemma raw_cksum_loop4_sum:
  "raw_cksum_loop4 mem p len s = (p', len', s') \<Longrightarrow>
     s + of_nat (le16_sum (bytes_at mem p len)) = s' + of_nat (le16_sum (bytes_at mem p' len'))"
proof (induction mem p len s rule: raw_cksum_loop4.induct)
  case (1 mem p len s)
  show ?case
  proof (cases "len \<ge> 8")
    case True
    define n where "n = len - 8"
    have n: "len = Suc (Suc (Suc (Suc (Suc (Suc (Suc (Suc n)))))))" using True by (simp add: n_def)
    let ?s = "s + ucast (u16_at mem p) + ucast (u16_at mem (p + 2)) + ucast (u16_at mem (p + 4)) + ucast (u16_at mem (p + 6))"
    have "raw_cksum_loop4 mem (p + 8) n ?s = (p', len', s')"
      using 1(2) True by (subst (asm) raw_cksum_loop4.simps) (simp add: n_def Let_def)
    then show ?thesis
      using 1(1) [OF True refl refl refl refl] by (simp add: n le16_sum_two add.assoc)
  next
    case False
    with 1(2) show ?thesis
      by (auto simp: raw_cksum_loop4.simps [of mem p len s])
  qed
qed

lemma rte_raw_cksum_sum_word:
  "rte_raw_cksum_sum mem p len s = s + of_nat (le16_sum (bytes_at mem p len))"
proof -
  obtain p1 l1 s1 where 1: "raw_cksum_loop4 mem p len s = (p1, l1, s1)" by (metis prod_cases3)
  obtain p2 l2 s2 where 2: "raw_cksum_loop mem p1 l1 s1 = (p2, l2, s2)" by (metis prod_cases3)
  note sums = raw_cksum_loop4_sum [OF 1] raw_cksum_loop_sum [OF 2]
  have "rte_raw_cksum_sum mem p len s = s2 + of_nat (le16_sum (bytes_at mem p2 l2))"
  proof (cases "l2 = 1")
    case True
    then show ?thesis by (simp add: rte_raw_cksum_sum_def 1 2 bytes_at_def)
  next
    case False
    with sums(2) have "l2 = 0" by linarith
    then show ?thesis by (simp add: rte_raw_cksum_sum_def 1 2)
  qed
  with sums show ?thesis by simp
qed

lemma le16_sum_le: "le16_sum bs \<le> 65535 * ((length bs + 1) div 2)"
proof (induction bs rule: le16_sum.induct)
  case (1 a b bs)
  then show ?case
    using unat_lt8 [of a] unat_lt8 [of b] by simp
next
  case (2 a)
  then show ?case
    using unat_lt8 [of a] by simp
qed simp

lemma reduce_word: "drop_bit 16 (s AND 0xffff0000) + (s AND 0xffff) = drop_bit 16 s + ucast (ucast s :: u16)" for s :: u32
proof -
  have "drop_bit 16 (s AND push_bit 16 (mask 16)) = drop_bit 16 s"
    by (rule bit_word_eqI) (auto simp: bit_drop_bit_eq bit_and_iff bit_push_bit_iff bit_mask_iff simp del: drop_bit_and dest: bit_imp_le_length)
  moreover have "s AND mask 16 = ucast (ucast s :: u16)"
    by (rule bit_word_eqI) (auto simp: bit_and_iff bit_mask_iff bit_ucast_iff)
  moreover have "push_bit 16 (mask 16) = (0xffff0000 :: u32)" "mask 16 = (0xffff :: u32)"
    by (simp_all add: mask_eq_exp_minus_1)
  ultimately show ?thesis
    by (simp only:)
qed

lemma rte_raw_cksum_reduce_fold: "rte_raw_cksum_reduce s = ones_sum_fold16 s"
  by (simp only: rte_raw_cksum_reduce_def ones_sum_fold16_def Let_def reduce_word)

lemma rte_raw_cksum_value:
  assumes "len \<le> 131072"
  shows "unat (rte_raw_cksum mem p len) = oc 65535 (le16_sum (bytes_at mem p len))"
proof -
  have "le16_sum (bytes_at mem p len) \<le> 65535 * 65536"
    using order_trans [OF le16_sum_le [of "bytes_at mem p len"] mult_le_mono2, of 65536] assms by simp
  then have "unat (of_nat (le16_sum (bytes_at mem p len)) :: u32) = le16_sum (bytes_at mem p len)"
    unfolding unat_of_nat by simp
  then show ?thesis
    by (simp only: rte_raw_cksum_def rte_raw_cksum_reduce_fold ones_sum_fold16_oc rte_raw_cksum_sum_word) simp
qed

section \<open>From one byte order to the other\<close>

lemma same_sum_scale: "same_sum x y \<Longrightarrow> same_sum (256 * x) (256 * y)"
  unfolding same_sum_def using mod_mult_cong [of 256 65535 256 x y] by simp

lemma le_be_same: "same_sum (le16_sum bs) (256 * be16_sum bs)"
proof (induction bs rule: le16_sum.induct)
  case (1 a b bs)
  have "same_sum (unat a + 256 * unat b) (65536 * unat a + 256 * unat b)"
    by (rule same_sum_sym [OF same_sum_mult])
  from same_sum_add [OF this 1] show ?case
    by (simp add: algebra_simps)
next
  case (2 a)
  show ?case
    using same_sum_sym [OF same_sum_mult [of "unat a" 0]] by simp
qed simp

lemma bswap16_sum: "rte_constant_bswap16 x = push_bit 8 (take_bit 8 x) + drop_bit 8 x"
proof -
  have "RTE_STATIC_BSWAP16 x = push_bit 8 (take_bit 8 x) OR drop_bit 8 x"
    by (rule bit_word_eqI) (auto simp: swap16_bits bit_or_iff bit_push_bit_iff bit_take_bit_iff bit_drop_bit_eq add.commute
      dest: bit_imp_le_length)
  also have "\<dots> = push_bit 8 (take_bit 8 x) + drop_bit 8 x"
    by (rule disjunctive_add [symmetric])
      (auto simp: bit_push_bit_iff bit_take_bit_iff bit_drop_bit_eq dest: bit_imp_le_length)
  finally show ?thesis
    by (simp add: rte_constant_bswap16_def)
qed

lemma unat_bswap16: "unat (rte_constant_bswap16 x) = 256 * (unat x mod 256) + unat x div 256"
proof -
  have x: "unat x < 65536"
    using unsigned_less [of x, where 'a = nat] by simp
  have "unat (push_bit 8 (take_bit 8 x)) = take_bit 16 (push_bit 8 (take_bit 8 (unat x)))"
    by (simp add: unsigned_push_bit_eq unsigned_take_bit_eq)
  also have "\<dots> = 256 * (unat x mod 256)"
    by (simp add: take_bit_eq_mod push_bit_eq_mult mult.commute mod_less)
  finally have hi: "unat (push_bit 8 (take_bit 8 x)) = 256 * (unat x mod 256)" .
  have lo: "unat (drop_bit 8 x) = unat x div 256"
    by (subst unat_drop_bit_eq) (simp add: drop_bit_eq_div)
  have "unat x div 256 < 256" "unat x mod 256 < 256"
    using x by (simp_all add: less_mult_imp_div_less)
  then have "256 * (unat x mod 256) + unat x div 256 < 65536"
    by linarith
  then show ?thesis
    unfolding bswap16_sum unat_word_ariths hi lo by simp
qed

lemma bswap16_same: "same_sum (unat (rte_constant_bswap16 x)) (256 * unat x)"
proof -
  have "unat x = 256 * (unat x div 256) + unat x mod 256" by simp
  then have "256 * unat x = 65536 * (unat x div 256) + 256 * (unat x mod 256)"
    by linarith
  then show ?thesis
    using same_sum_sym [OF same_sum_mult [of "unat x div 256" "256 * (unat x mod 256)"]]
    by (simp add: unat_bswap16 add.commute)
qed

lemma unat_le16: "unat (w :: u16) \<le> 65535"
  using unsigned_less [of w, where 'a = nat] by simp

text \<open>A sum in the order of the host is the sum in network order with its bytes swapped.\<close>

lemma swap_sum:
  assumes "unat w = oc 65535 (le16_sum bs)"
  shows "unat (rte_constant_bswap16 w) = oc 65535 (be16_sum bs)"
proof -
  have "same_sum (unat w) (le16_sum bs)"
    unfolding assms by (simp add: same_sum_def oc_mod)
  then have "same_sum (256 * unat w) (256 * (256 * be16_sum bs))"
    by (intro same_sum_scale same_sum_trans [OF _ le_be_same])
  moreover have "same_sum (256 * (256 * be16_sum bs)) (be16_sum bs)"
    using same_sum_mult [of "be16_sum bs" 0] by simp
  ultimately have "same_sum (unat (rte_constant_bswap16 w)) (be16_sum bs)"
    by (blast intro: same_sum_trans bswap16_same)
  from same_sum_oc [OF this] show ?thesis
    by (simp add: oc_id unat_le16)
qed

lemma bswap16_not: "rte_constant_bswap16 (NOT w) = NOT (rte_constant_bswap16 w)"
  by (rule bit_word_eqI) (auto simp: rte_constant_bswap16_def swap16_bits bit_not_iff)

lemma rte_bswap16_eq: "rte_bswap16 b x = rte_constant_bswap16 x"
  by (simp add: rte_bswap16_def arch_constant)

section \<open>Transport checksums of the host\<close>

lemma rte_ipv4_phdr_value:
  "unat (rte_ipv4_phdr_cksum mem hdr flags) = oc 65535 (le16_sum (psd_hdr mem hdr flags))"
proof -
  let ?psd = "psd_hdr mem hdr flags"
  have len: "length ?psd = 12"
    by (simp add: psd_hdr_def Let_def bytes_of_small)
  have "bytes_at (\<lambda>a. if unat a < 12 then ?psd ! unat a else 0) (0 :: 64 word) 12 = ?psd"
    by (rule nth_equalityI) (auto simp: bytes_at_def len unat_of_nat)
  then show ?thesis
    using rte_raw_cksum_value [of 12] by (simp add: rte_ipv4_phdr_cksum_def len Let_def)
qed

lemma l3_len: "unat (rte_bswap16 b (u16_at mem p)) = 256 * unat (mem p) + unat (mem (p + 1))"
  using unat_lt8 [of "mem p"] unat_lt8 [of "mem (p + 1)"]
  by (simp add: rte_bswap16_eq unat_bswap16 unat_u16_at)

lemma oc_fold_once: "x \<le> 131070 \<Longrightarrow> fold_half x = oc 65535 x"
  using fold_half_le(2) [of x] by (metis fold_half_mod fold_half_zero oc_cong oc_id zero_less_numeral)

lemma le16_sum_append: "even (length xs) \<Longrightarrow> le16_sum (xs @ ys) = le16_sum xs + le16_sum ys"
  by (induction xs rule: le16_sum.induct) auto

lemma length_psd_hdr: "length (psd_hdr mem hdr flags) = 12"
  by (simp add: psd_hdr_def Let_def bytes_of_small)

definition never_zero :: "u16 \<Rightarrow> u16" where
  "never_zero c = (if c = 0 then 0xffff else c)"

lemma unat_ucast16: "unat (ucast (w :: u16) :: u32) = unat w"
  using unat_le16 [of w] by (simp add: unsigned_ucast_eq take_bit_nat_eq_self)

lemma ucast_ucast16: "ucast (ucast w :: u32) = (w :: u16)"
  by (rule bit_word_eqI) (simp add: bit_ucast_iff)

lemma ucast16_zero: "(ucast w :: u32) = 0 \<longleftrightarrow> (w :: u16) = 0"
  by (metis ucast_ucast16 unsigned_0)

lemma finish_cksum:
  fixes s :: u32
  assumes "unat s \<le> 131070"
  defines "f \<equiv> drop_bit 16 (s AND 0xffff0000) + (s AND 0xffff)"
  shows "\<exists>v. unat v = oc 65535 (unat s) \<and>
    ucast (let c = NOT f AND 0xffff in if c = 0 then 0xffff else c) = never_zero (NOT v)"
proof -
  define v :: u16 where "v = ucast f"
  have f: "unat f = oc 65535 (unat s)"
    unfolding f_def reduce_word fold_half_word by (rule oc_fold_once [OF assms(1)])
  then have "unat f \<le> 65535"
    using oc_le [of 65535 "unat s"] by simp
  then have v: "unat v = unat f"
    unfolding v_def by (simp add: unsigned_ucast_eq take_bit_nat_eq_self)
  then have "f = ucast v"
    by (intro unsigned_word_eqI [where 'a = nat]) (simp only: unat_ucast16)
  then have "unat (NOT f AND 0xffff) = unat (NOT v)"
    by (simp only: unat_not_low unat_not16)
  then have "NOT f AND 0xffff = ucast (NOT v)"
    by (intro unsigned_word_eqI [where 'a = nat]) (simp only: unat_ucast16)
  then show ?thesis
    using v f by (intro exI [of _ v]) (auto simp: never_zero_def Let_def ucast_ucast16 ucast16_zero)
qed

lemma udptcp_value:
  fixes mem :: host_mem
  assumes l3: "l3 = 256 * unat (mem (hdr + 2)) + unat (mem (hdr + 3))" and "20 \<le> l3"
  shows "rte_constant_bswap16 (rte_ipv4_udptcp_cksum mem hdr l4) =
    never_zero (of_nat (65535 - oc 65535 (be16_sum (psd_hdr mem hdr 0 @ bytes_at mem l4 (l3 - 20)))))"
proof -
  let ?bs = "psd_hdr mem hdr 0 @ bytes_at mem l4 (l3 - 20)"
  define s :: u32 where "s = ucast (rte_raw_cksum mem l4 (l3 - 20)) + ucast (rte_ipv4_phdr_cksum mem hdr 0)"
  have len: "unat (rte_bswap16 False (u16_at mem (hdr + 2))) = l3"
    using l3_len [of False mem "hdr + 2"] by (simp add: l3 add.commute)
  have "l3 \<le> 65535"
    using unat_le16 [of "rte_bswap16 False (u16_at mem (hdr + 2))"] len by simp
  then have "unat s = oc 65535 (le16_sum (bytes_at mem l4 (l3 - 20))) + oc 65535 (le16_sum (psd_hdr mem hdr 0))"
    using unat_le16 [of "rte_raw_cksum mem l4 (l3 - 20)"] unat_le16 [of "rte_ipv4_phdr_cksum mem hdr 0"]
    unfolding s_def unat_add32 unat_ucast16 rte_ipv4_phdr_value by (simp add: rte_raw_cksum_value)
  then have s: "oc 65535 (unat s) = oc 65535 (le16_sum ?bs)" "unat s \<le> 131070"
    using oc_le [of 65535 "le16_sum (psd_hdr mem hdr 0)"] oc_le [of 65535 "le16_sum (bytes_at mem l4 (l3 - 20))"]
    by (simp_all add: le16_sum_append length_psd_hdr add.commute)
  obtain v where v: "unat v = oc 65535 (le16_sum ?bs)" "rte_ipv4_udptcp_cksum mem hdr l4 = never_zero (NOT v)"
    using finish_cksum [OF s(2)] \<open>20 \<le> l3\<close> unfolding s(1) rte_ipv4_udptcp_cksum_def len Let_def s_def [symmetric] by auto
  have c: "unat (NOT (rte_constant_bswap16 v)) = 65535 - oc 65535 (be16_sum ?bs)"
    using swap_sum [OF v(1)] by (simp add: unat_not16)
  have "NOT (rte_constant_bswap16 v) = of_nat (65535 - oc 65535 (be16_sum ?bs))"
    unfolding c [symmetric] by simp
  moreover have "rte_constant_bswap16 (never_zero c) = never_zero (rte_constant_bswap16 c)" for c
  proof -
    have "rte_constant_bswap16 0 = 0" "rte_constant_bswap16 0xffff = 0xffff"
      by (simp_all add: rte_constant_bswap16_def RTE_STATIC_BSWAP16_def)
    moreover from this have "rte_constant_bswap16 c = 0 \<longleftrightarrow> c = 0"
      using bswap_involutions(1) [of c] by auto
    ultimately show ?thesis
      by (simp add: never_zero_def)
  qed
  ultimately show ?thesis
    by (simp only: v(2) bswap16_not)
qed

lemma half_sum_bytes: "half_sum (of_nat (be_val [a, b, c, d])) = be16_sum [a, b, c, d]"
proof -
  have v: "unat (of_nat (be_val [a, b, c, d]) :: u32) = (256 * unat a + unat b) * 65536 + (256 * unat c + unat d)"
    by (subst unat_be_val) simp_all
  have "256 * unat c + unat d < 65536"
    using unat_lt8 [of c] unat_lt8 [of d] by simp
  then show ?thesis
    unfolding half_sum_def v fold_half_def by (simp only: div_mult_self3 mod_mult_self3 mod_less) simp
qed

lemma be16_bytes_of: "be16_sum (bytes_of 2 w) = unat (rte_constant_bswap16 (w :: u16))"
proof -
  have u: "unat (ucast v :: u8) = unat v mod 256" for v :: u16
    by (simp only: unsigned_ucast_eq unsigned_take_bit_eq) (simp add: take_bit_eq_mod)
  have "unat (drop_bit 8 w) = unat w div 256"
    by (subst unat_drop_bit_eq) (simp add: drop_bit_eq_div)
  moreover have "unat w div 256 < 256"
    using unat_le16 [of w] by (simp add: less_mult_imp_div_less)
  ultimately have "unat (ucast w :: u8) = unat w mod 256" "unat (ucast (drop_bit 8 w) :: u8) = unat w div 256"
    by (simp_all add: u del: unsigned_drop_bit_eq)
  then show ?thesis
    by (simp add: bytes_of_small unat_bswap16)
qed

lemma psd_hdr_sum:
  fixes host :: host_mem
  assumes "map ip [0..<5] = words_of (bytes_at host hdr 20)"
    and "256 * unat (host (hdr + 2)) + unat (host (hdr + 3)) = 20 + n"
  shows "be16_sum (psd_hdr host hdr 0) = half_sum (ip 3) + half_sum (ip 4) + unat (host (hdr + 9)) + n"
proof -
  have upt: "[0..<4] = [0, 1, 2, 3]" "[0..<20] = [0, 1, 2, 3, 4, 5, 6, 7, 8, 9, 10, 11, 12, 13, 14, 15, 16, 17, 18, 19]"
    by code_simp+
  have ip: "half_sum (ip 3) = be16_sum (bytes_at host (hdr + 12) 4)" "half_sum (ip 4) = be16_sum (bytes_at host (hdr + 16) 4)"
    using assms(1) by (simp_all add: small_upts upt bytes_at_def half_sum_bytes add.assoc del: be_val.simps)
  let ?l3 = "rte_constant_bswap16 (u16_at host (hdr + 2))"
  have l3: "unat ?l3 = 20 + n"
    using l3_len [of False host "hdr + 2"] assms(2) by (simp add: rte_bswap16_eq add.assoc)
  then have "unat (?l3 - 20) = n"
    by (subst unat_sub) (simp_all add: word_le_nat_alt)
  then have "be16_sum (bytes_of 2 (rte_constant_bswap16 (?l3 - 20))) = n"
    by (simp add: be16_bytes_of bswap_involutions)
  then show ?thesis
    by (simp add: psd_hdr_def Let_def rte_bswap16_eq be16_sum_append ip)
qed

text \<open>
  C12: The two runtimes compute the same transport checksum. For an IPv4 packet without options, with
  its bytes in the memories of the network processor, an even number of them or all in the CTM,
  and with the same bytes in the memory of the host, the checksum of the host is the one of the network processor in the other byte order, with
  \<^verbatim>\<open>0xffff\<close> in place of zero.
\<close>

theorem udptcp_agree:
  fixes host :: host_mem
  assumes "l4_ok mem protocol l4_hdr pkt_ctm ctm_len pkt_mem mem_len" and "even (unat ctm_len) \<or> mem_len = 0"
    and "bytes_at host l4 (unat ctm_len + unat mem_len) = l4_bytes mem pkt_ctm ctm_len pkt_mem mem_len"
    and "map ip [0..<5] = words_of (bytes_at host hdr 20)"
    and "unat protocol = unat (host (hdr + 9))"
    and "256 * unat (host (hdr + 2)) + unat (host (hdr + 3)) = 20 + (unat ctm_len + unat mem_len)"
    and "unat (l4_len_of protocol l4_hdr ctm_len mem_len) = unat ctm_len + unat mem_len"
  shows "\<exists>c. net_csum_l4_ip mem pkt_cache NET_ETH_TYPE_IPV4 protocol ip l4_hdr pkt_ctm ctm_len pkt_mem mem_len = Some c \<and>
    rte_constant_bswap16 (rte_ipv4_udptcp_cksum host hdr l4) = never_zero c"
proof -
  let ?n = "unat ctm_len + unat mem_len"
  let ?sum = "pseudo_sum NET_ETH_TYPE_IPV4 protocol ip (l4_len_of protocol l4_hdr ctm_len mem_len) +
    be16_sum (l4_bytes mem pkt_ctm ctm_len pkt_mem mem_len)"
  obtain c where c: "net_csum_l4_ip mem pkt_cache NET_ETH_TYPE_IPV4 protocol ip l4_hdr pkt_ctm ctm_len pkt_mem mem_len = Some c"
    "unat c = 65535 - oc 65535 ?sum"
    using net_csum_l4_ip_same [OF assms(1)] parts_sum_even [OF assms(2)] by metis
  have "?sum = be16_sum (psd_hdr host hdr 0 @ bytes_at host l4 (20 + ?n - 20))"
    using psd_hdr_sum [OF assms(4,6)] assms(3,5,7)
    by (simp add: be16_sum_append length_psd_hdr pseudo_sum_def NET_ETH_TYPE_IPV4_def NET_ETH_TYPE_IPV6_def)
  then have "rte_constant_bswap16 (rte_ipv4_udptcp_cksum host hdr l4) = never_zero (of_nat (unat c))"
    using udptcp_value [OF assms(6) [symmetric], of l4] c(2) by simp
  with c(1) show ?thesis by simp
qed

section \<open>An example\<close>

definition mem_of :: "u8 list \<Rightarrow> 'a::len word \<Rightarrow> u8" where
  "mem_of bs a = (if unat a < length bs then bs ! unat a else 0)"

definition udp_packet :: "u8 list" where
  "udp_packet = [0, 1, 2, 3, 0, 12, 6, 7, 8, 9, 32, 33]"

definition ip_header :: "u8 list" where
  "ip_header = [0x45, 0, 0, 32, 0, 0, 0x40, 0, 0x40, 0x11, 0, 0, 0xc0, 0xa8, 0, 1, 0xc0, 0xa8, 0, 0xc7]"

theorem udptcp_agree_witness:
  "\<exists>c. net_csum_l4_ip (mem_of udp_packet) [] NET_ETH_TYPE_IPV4 NET_IP_PROTO_UDP (\<lambda>i. words_of ip_header ! i)
       (\<lambda>i. words_of udp_packet ! i) 0 10 10 2 = Some c \<and>
     rte_constant_bswap16 (rte_ipv4_udptcp_cksum (mem_of (ip_header @ udp_packet)) 0 20) = never_zero c"
proof -
  have upt: "[0..<12] = [0, 1, 2, 3, 4, 5, 6, 7, 8, 9, 10, 11]"
    "[0..<20] = [0, 1, 2, 3, 4, 5, 6, 7, 8, 9, 10, 11, 12, 13, 14, 15, 16, 17, 18, 19]"
    by code_simp+
  note bytes = bytes_at_def mem_of_def small_upts upt udp_packet_def ip_header_def
  have "l4_ok (mem_of udp_packet) NET_IP_PROTO_UDP (\<lambda>i. words_of udp_packet ! i) 0 10 10 2"
    by (simp add: l4_ok_def bytes hdr_len_def NET_IP_PROTO_UDP_def)
  moreover have "bytes_at (mem_of (ip_header @ udp_packet) :: host_mem) 20 (unat (10 :: u32) + unat (2 :: u32)) =
      l4_bytes (mem_of udp_packet) 0 10 10 2"
    by (simp add: l4_bytes_def bytes)
  moreover have "map (\<lambda>i. words_of ip_header ! i) [0..<5] = words_of (bytes_at (mem_of (ip_header @ udp_packet) :: host_mem) 0 20)"
    by (simp add: bytes)
  moreover have "unat (l4_len_of NET_IP_PROTO_UDP (\<lambda>i. words_of udp_packet ! i) 10 2) = unat (10 :: u32) + unat (2 :: u32)"
    by (simp add: l4_len_of_def udp_len_def bytes)
  ultimately show ?thesis
    by (intro udptcp_agree) (simp_all add: NET_IP_PROTO_UDP_def bytes)
qed

end
