(* ===== verification/Aes_Rtl.thy ===== *)
theory Aes_Rtl
  imports Ep2_Prelude "HOL-Library.Word"
begin

text \<open>
  The AES-256 core of the FPGA library (\<^verbatim>\<open>rtl_lib/AES\<close>): substitution tables, rounds, key expansion and
  the pipeline of 29 stages, register by register.
\<close>

unbundle bit_operations_syntax

section \<open>Bit vectors\<close>

text \<open>
  A part select \<^verbatim>\<open>w[hi:lo]\<close> is \<open>part lo w\<close>, the width of its type says where it ends. Concatenations are
  written for the widths that occur.
\<close>

definition part :: "nat \<Rightarrow> 'a::len word \<Rightarrow> 'b::len word" where
  "part lo w = ucast (drop_bit lo w)"

definition cat32 :: "8 word \<Rightarrow> 8 word \<Rightarrow> 8 word \<Rightarrow> 8 word \<Rightarrow> 32 word" where
  "cat32 a b c d = push_bit 24 (ucast a) OR push_bit 16 (ucast b) OR push_bit 8 (ucast c) OR ucast d"

definition cat128 :: "32 word \<Rightarrow> 32 word \<Rightarrow> 32 word \<Rightarrow> 32 word \<Rightarrow> 128 word" where
  "cat128 a b c d = push_bit 96 (ucast a) OR push_bit 64 (ucast b) OR push_bit 32 (ucast c) OR ucast d"

definition cat256 :: "32 word \<Rightarrow> 32 word \<Rightarrow> 32 word \<Rightarrow> 32 word \<Rightarrow> 32 word \<Rightarrow> 32 word \<Rightarrow> 32 word \<Rightarrow> 32 word \<Rightarrow> 256 word" where
  "cat256 a b c d e f g h = push_bit 128 (ucast (cat128 a b c d)) OR ucast (cat128 e f g h)"

section \<open>Substitution boxes\<close>

text \<open>The case tables of the modules \<^verbatim>\<open>S\<close> and \<^verbatim>\<open>xS\<close>; their outputs are registers.\<close>

definition S_table :: "8 word list" where
  "S_table = [
    0x63, 0x7c, 0x77, 0x7b, 0xf2, 0x6b, 0x6f, 0xc5, 0x30, 0x01, 0x67, 0x2b, 0xfe, 0xd7, 0xab, 0x76,
    0xca, 0x82, 0xc9, 0x7d, 0xfa, 0x59, 0x47, 0xf0, 0xad, 0xd4, 0xa2, 0xaf, 0x9c, 0xa4, 0x72, 0xc0,
    0xb7, 0xfd, 0x93, 0x26, 0x36, 0x3f, 0xf7, 0xcc, 0x34, 0xa5, 0xe5, 0xf1, 0x71, 0xd8, 0x31, 0x15,
    0x04, 0xc7, 0x23, 0xc3, 0x18, 0x96, 0x05, 0x9a, 0x07, 0x12, 0x80, 0xe2, 0xeb, 0x27, 0xb2, 0x75,
    0x09, 0x83, 0x2c, 0x1a, 0x1b, 0x6e, 0x5a, 0xa0, 0x52, 0x3b, 0xd6, 0xb3, 0x29, 0xe3, 0x2f, 0x84,
    0x53, 0xd1, 0x00, 0xed, 0x20, 0xfc, 0xb1, 0x5b, 0x6a, 0xcb, 0xbe, 0x39, 0x4a, 0x4c, 0x58, 0xcf,
    0xd0, 0xef, 0xaa, 0xfb, 0x43, 0x4d, 0x33, 0x85, 0x45, 0xf9, 0x02, 0x7f, 0x50, 0x3c, 0x9f, 0xa8,
    0x51, 0xa3, 0x40, 0x8f, 0x92, 0x9d, 0x38, 0xf5, 0xbc, 0xb6, 0xda, 0x21, 0x10, 0xff, 0xf3, 0xd2,
    0xcd, 0x0c, 0x13, 0xec, 0x5f, 0x97, 0x44, 0x17, 0xc4, 0xa7, 0x7e, 0x3d, 0x64, 0x5d, 0x19, 0x73,
    0x60, 0x81, 0x4f, 0xdc, 0x22, 0x2a, 0x90, 0x88, 0x46, 0xee, 0xb8, 0x14, 0xde, 0x5e, 0x0b, 0xdb,
    0xe0, 0x32, 0x3a, 0x0a, 0x49, 0x06, 0x24, 0x5c, 0xc2, 0xd3, 0xac, 0x62, 0x91, 0x95, 0xe4, 0x79,
    0xe7, 0xc8, 0x37, 0x6d, 0x8d, 0xd5, 0x4e, 0xa9, 0x6c, 0x56, 0xf4, 0xea, 0x65, 0x7a, 0xae, 0x08,
    0xba, 0x78, 0x25, 0x2e, 0x1c, 0xa6, 0xb4, 0xc6, 0xe8, 0xdd, 0x74, 0x1f, 0x4b, 0xbd, 0x8b, 0x8a,
    0x70, 0x3e, 0xb5, 0x66, 0x48, 0x03, 0xf6, 0x0e, 0x61, 0x35, 0x57, 0xb9, 0x86, 0xc1, 0x1d, 0x9e,
    0xe1, 0xf8, 0x98, 0x11, 0x69, 0xd9, 0x8e, 0x94, 0x9b, 0x1e, 0x87, 0xe9, 0xce, 0x55, 0x28, 0xdf,
    0x8c, 0xa1, 0x89, 0x0d, 0xbf, 0xe6, 0x42, 0x68, 0x41, 0x99, 0x2d, 0x0f, 0xb0, 0x54, 0xbb, 0x16]"

definition S :: "8 word \<Rightarrow> 8 word" where
  "S x = S_table ! unat x"

definition xS_table :: "8 word list" where
  "xS_table = [
    0xc6, 0xf8, 0xee, 0xf6, 0xff, 0xd6, 0xde, 0x91, 0x60, 0x02, 0xce, 0x56, 0xe7, 0xb5, 0x4d, 0xec,
    0x8f, 0x1f, 0x89, 0xfa, 0xef, 0xb2, 0x8e, 0xfb, 0x41, 0xb3, 0x5f, 0x45, 0x23, 0x53, 0xe4, 0x9b,
    0x75, 0xe1, 0x3d, 0x4c, 0x6c, 0x7e, 0xf5, 0x83, 0x68, 0x51, 0xd1, 0xf9, 0xe2, 0xab, 0x62, 0x2a,
    0x08, 0x95, 0x46, 0x9d, 0x30, 0x37, 0x0a, 0x2f, 0x0e, 0x24, 0x1b, 0xdf, 0xcd, 0x4e, 0x7f, 0xea,
    0x12, 0x1d, 0x58, 0x34, 0x36, 0xdc, 0xb4, 0x5b, 0xa4, 0x76, 0xb7, 0x7d, 0x52, 0xdd, 0x5e, 0x13,
    0xa6, 0xb9, 0x00, 0xc1, 0x40, 0xe3, 0x79, 0xb6, 0xd4, 0x8d, 0x67, 0x72, 0x94, 0x98, 0xb0, 0x85,
    0xbb, 0xc5, 0x4f, 0xed, 0x86, 0x9a, 0x66, 0x11, 0x8a, 0xe9, 0x04, 0xfe, 0xa0, 0x78, 0x25, 0x4b,
    0xa2, 0x5d, 0x80, 0x05, 0x3f, 0x21, 0x70, 0xf1, 0x63, 0x77, 0xaf, 0x42, 0x20, 0xe5, 0xfd, 0xbf,
    0x81, 0x18, 0x26, 0xc3, 0xbe, 0x35, 0x88, 0x2e, 0x93, 0x55, 0xfc, 0x7a, 0xc8, 0xba, 0x32, 0xe6,
    0xc0, 0x19, 0x9e, 0xa3, 0x44, 0x54, 0x3b, 0x0b, 0x8c, 0xc7, 0x6b, 0x28, 0xa7, 0xbc, 0x16, 0xad,
    0xdb, 0x64, 0x74, 0x14, 0x92, 0x0c, 0x48, 0xb8, 0x9f, 0xbd, 0x43, 0xc4, 0x39, 0x31, 0xd3, 0xf2,
    0xd5, 0x8b, 0x6e, 0xda, 0x01, 0xb1, 0x9c, 0x49, 0xd8, 0xac, 0xf3, 0xcf, 0xca, 0xf4, 0x47, 0x10,
    0x6f, 0xf0, 0x4a, 0x5c, 0x38, 0x57, 0x73, 0x97, 0xcb, 0xa1, 0xe8, 0x3e, 0x96, 0x61, 0x0d, 0x0f,
    0xe0, 0x7c, 0x71, 0xcc, 0x90, 0x06, 0xf7, 0x1c, 0xc2, 0x6a, 0xae, 0x69, 0x17, 0x99, 0x3a, 0x27,
    0xd9, 0xeb, 0x2b, 0x22, 0xd2, 0xa9, 0x07, 0x33, 0x2d, 0x3c, 0x15, 0xc9, 0x87, 0xaa, 0x50, 0xa5,
    0x03, 0x59, 0x09, 0x1a, 0x65, 0xd7, 0x84, 0xd0, 0x82, 0x29, 0x5a, 0x1e, 0x7b, 0xa8, 0x6d, 0x2c]"

definition xS :: "8 word \<Rightarrow> 8 word" where
  "xS x = xS_table ! unat x"

text \<open>
  A clocked module is a record of its registers, a step on a rising edge, and functions for the
  wires it drives. The step reads its inputs and the registers as they were before the edge.
\<close>

record S4_regs =
  S_0 :: "8 word"
  S_1 :: "8 word"
  S_2 :: "8 word"
  S_3 :: "8 word"

definition S4_step :: "32 word \<Rightarrow> S4_regs" where
  "S4_step inp = \<lparr>S_0 = S (part 24 inp), S_1 = S (part 16 inp), S_2 = S (part 8 inp), S_3 = S (part 0 inp)\<rparr>"

definition S4_out :: "S4_regs \<Rightarrow> 32 word" where
  "S4_out r = cat32 (S_0 r) (S_1 r) (S_2 r) (S_3 r)"

record T_regs =
  s0_out :: "8 word"
  s4_out :: "8 word"

definition T_step :: "8 word \<Rightarrow> T_regs" where
  "T_step inp = \<lparr>s0_out = S inp, s4_out = xS inp\<rparr>"

definition T_out :: "T_regs \<Rightarrow> 32 word" where
  "T_out r = cat32 (s0_out r) (s0_out r) (s0_out r XOR s4_out r) (s4_out r)"

record table_lookup_regs =
  t0 :: T_regs
  t1 :: T_regs
  t2 :: T_regs
  t3 :: T_regs

definition table_lookup_step :: "32 word \<Rightarrow> table_lookup_regs" where
  "table_lookup_step state =
     \<lparr>t0 = T_step (part 24 state), t1 = T_step (part 16 state), t2 = T_step (part 8 state), t3 = T_step (part 0 state)\<rparr>"

text \<open>
  The ports are connected to rotated wires: \<^verbatim>\<open>{p0[23:0], p0[31:24]}\<close> is the output of the first
  instance, so \<^verbatim>\<open>p0\<close> is that output rotated to the right by a byte.
\<close>

definition p0 :: "table_lookup_regs \<Rightarrow> 32 word" where
  "p0 r = (let out = T_out (t0 r) in cat32 (part 0 out) (part 24 out) (part 16 out) (part 8 out))"

definition p1 :: "table_lookup_regs \<Rightarrow> 32 word" where
  "p1 r = (let out = T_out (t1 r) in cat32 (part 8 out) (part 0 out) (part 24 out) (part 16 out))"

definition p2 :: "table_lookup_regs \<Rightarrow> 32 word" where
  "p2 r = (let out = T_out (t2 r) in cat32 (part 16 out) (part 8 out) (part 0 out) (part 24 out))"

definition p3 :: "table_lookup_regs \<Rightarrow> 32 word" where
  "p3 r = T_out (t3 r)"

section \<open>Rounds\<close>

record one_round_regs =
  lookup0 :: table_lookup_regs
  lookup1 :: table_lookup_regs
  lookup2 :: table_lookup_regs
  lookup3 :: table_lookup_regs
  state_out :: "128 word"

definition one_round_step :: "128 word \<Rightarrow> 128 word \<Rightarrow> one_round_regs \<Rightarrow> one_round_regs" where
  "one_round_step state_in key r =
     (let z0 = p0 (lookup0 r) XOR p1 (lookup1 r) XOR p2 (lookup2 r) XOR p3 (lookup3 r) XOR part 96 key;
          z1 = p3 (lookup0 r) XOR p0 (lookup1 r) XOR p1 (lookup2 r) XOR p2 (lookup3 r) XOR part 64 key;
          z2 = p2 (lookup0 r) XOR p3 (lookup1 r) XOR p0 (lookup2 r) XOR p1 (lookup3 r) XOR part 32 key;
          z3 = p1 (lookup0 r) XOR p2 (lookup1 r) XOR p3 (lookup2 r) XOR p0 (lookup3 r) XOR part 0 key
      in \<lparr>lookup0 = table_lookup_step (part 96 state_in), lookup1 = table_lookup_step (part 64 state_in),
          lookup2 = table_lookup_step (part 32 state_in), lookup3 = table_lookup_step (part 0 state_in),
          state_out = cat128 z0 z1 z2 z3\<rparr>)"

record final_round_regs =
  S4_1 :: S4_regs
  S4_2 :: S4_regs
  S4_3 :: S4_regs
  S4_4 :: S4_regs
  final_out :: "128 word"

definition final_round_step :: "128 word \<Rightarrow> 128 word \<Rightarrow> final_round_regs \<Rightarrow> final_round_regs" where
  "final_round_step state_in key_in r =
     (let z0 = cat32 (S_0 (S4_1 r)) (S_1 (S4_2 r)) (S_2 (S4_3 r)) (S_3 (S4_4 r)) XOR part 96 key_in;
          z1 = cat32 (S_0 (S4_2 r)) (S_1 (S4_3 r)) (S_2 (S4_4 r)) (S_3 (S4_1 r)) XOR part 64 key_in;
          z2 = cat32 (S_0 (S4_3 r)) (S_1 (S4_4 r)) (S_2 (S4_1 r)) (S_3 (S4_2 r)) XOR part 32 key_in;
          z3 = cat32 (S_0 (S4_4 r)) (S_1 (S4_1 r)) (S_2 (S4_2 r)) (S_3 (S4_3 r)) XOR part 0 key_in
      in \<lparr>S4_1 = S4_step (part 96 state_in), S4_2 = S4_step (part 64 state_in),
          S4_3 = S4_step (part 32 state_in), S4_4 = S4_step (part 0 state_in),
          final_out = cat128 z0 z1 z2 z3\<rparr>)"

section \<open>Key expansion\<close>

record expand_regs =
  ka :: "256 word"
  S4_0 :: S4_regs
  out_1 :: "256 word"

text \<open>The wires \<^verbatim>\<open>k0b\<close> to \<^verbatim>\<open>k7b\<close>, as one vector, for each of the two modules.\<close>

definition kb_A :: "expand_regs \<Rightarrow> 256 word" where
  "kb_A r = (let k8a = S4_out (S4_0 r)
     in cat256 (part 224 (ka r) XOR k8a) (part 192 (ka r) XOR k8a) (part 160 (ka r) XOR k8a) (part 128 (ka r) XOR k8a)
          (part 96 (ka r)) (part 64 (ka r)) (part 32 (ka r)) (part 0 (ka r)))"

definition expand_key_type_A_256_out_2 :: "expand_regs \<Rightarrow> 128 word" where
  "expand_key_type_A_256_out_2 r = part 128 (kb_A r)"

definition expand_key_type_A_256_step :: "256 word \<Rightarrow> 8 word \<Rightarrow> expand_regs \<Rightarrow> expand_regs" where
  "expand_key_type_A_256_step inp rcon r =
     (let k0 = part 224 inp; k7 = part 0 inp :: 32 word;
          v0 = cat32 (part 24 k0 XOR rcon) (part 16 k0) (part 8 k0) (part 0 (k0 :: 32 word));
          v1 = v0 XOR part 192 inp; v2 = v1 XOR part 160 inp; v3 = v2 XOR part 128 inp
      in \<lparr>ka = cat256 v0 v1 v2 v3 (part 96 inp) (part 64 inp) (part 32 inp) k7,
          S4_0 = S4_step (cat32 (part 16 k7) (part 8 k7) (part 0 k7) (part 24 k7)),
          out_1 = kb_A r\<rparr>)"

definition kb_B :: "expand_regs \<Rightarrow> 256 word" where
  "kb_B r = (let k8a = S4_out (S4_0 r)
     in cat256 (part 224 (ka r)) (part 192 (ka r)) (part 160 (ka r)) (part 128 (ka r))
          (part 96 (ka r) XOR k8a) (part 64 (ka r) XOR k8a) (part 32 (ka r) XOR k8a) (part 0 (ka r) XOR k8a))"

definition expand_key_type_B_256_out_2 :: "expand_regs \<Rightarrow> 128 word" where
  "expand_key_type_B_256_out_2 r = part 0 (kb_B r)"

definition expand_key_type_B_256_step :: "256 word \<Rightarrow> expand_regs \<Rightarrow> expand_regs" where
  "expand_key_type_B_256_step inp r =
     (let k3 = part 128 inp; k4 = part 96 inp :: 32 word;
          v5 = k4 XOR part 64 inp; v6 = v5 XOR part 32 inp; v7 = v6 XOR part 0 inp
      in \<lparr>ka = cat256 (part 224 inp) (part 192 inp) (part 160 inp) k3 k4 v5 v6 v7,
          S4_0 = S4_step k3,
          out_1 = kb_B r\<rparr>)"

section \<open>The pipeline\<close>

record aes_256_regs =
  s0 :: "128 word"
  k0 :: "256 word"
  k0a :: "256 word"
  k1 :: "256 word"
  a1 :: expand_regs
  a2 :: expand_regs
  a3 :: expand_regs
  a4 :: expand_regs
  a5 :: expand_regs
  a6 :: expand_regs
  a7 :: expand_regs
  a8 :: expand_regs
  a9 :: expand_regs
  a10 :: expand_regs
  a11 :: expand_regs
  a12 :: expand_regs
  a13 :: expand_regs
  r1 :: one_round_regs
  r2 :: one_round_regs
  r3 :: one_round_regs
  r4 :: one_round_regs
  r5 :: one_round_regs
  r6 :: one_round_regs
  r7 :: one_round_regs
  r8 :: one_round_regs
  r9 :: one_round_regs
  r10 :: one_round_regs
  r11 :: one_round_regs
  r12 :: one_round_regs
  r13 :: one_round_regs
  rf :: final_round_regs

definition aes_256_out :: "aes_256_regs \<Rightarrow> 128 word" where
  "aes_256_out r = final_out (rf r)"

definition aes_256_step :: "128 word \<Rightarrow> 256 word \<Rightarrow> aes_256_regs \<Rightarrow> aes_256_regs" where
  "aes_256_step state key r =
     \<lparr>s0 = state XOR part 128 key, k0 = key, k0a = k0 r, k1 = k0a r,
      a1 = expand_key_type_A_256_step (k1 r) 0x1 (a1 r),
      a2 = expand_key_type_B_256_step (out_1 (a1 r)) (a2 r),
      a3 = expand_key_type_A_256_step (out_1 (a2 r)) 0x2 (a3 r),
      a4 = expand_key_type_B_256_step (out_1 (a3 r)) (a4 r),
      a5 = expand_key_type_A_256_step (out_1 (a4 r)) 0x4 (a5 r),
      a6 = expand_key_type_B_256_step (out_1 (a5 r)) (a6 r),
      a7 = expand_key_type_A_256_step (out_1 (a6 r)) 0x8 (a7 r),
      a8 = expand_key_type_B_256_step (out_1 (a7 r)) (a8 r),
      a9 = expand_key_type_A_256_step (out_1 (a8 r)) 0x10 (a9 r),
      a10 = expand_key_type_B_256_step (out_1 (a9 r)) (a10 r),
      a11 = expand_key_type_A_256_step (out_1 (a10 r)) 0x20 (a11 r),
      a12 = expand_key_type_B_256_step (out_1 (a11 r)) (a12 r),
      a13 = expand_key_type_A_256_step (out_1 (a12 r)) 0x40 (a13 r),
      r1 = one_round_step (s0 r) (part 0 (k0a r)) (r1 r),
      r2 = one_round_step (state_out (r1 r)) (expand_key_type_A_256_out_2 (a1 r)) (r2 r),
      r3 = one_round_step (state_out (r2 r)) (expand_key_type_B_256_out_2 (a2 r)) (r3 r),
      r4 = one_round_step (state_out (r3 r)) (expand_key_type_A_256_out_2 (a3 r)) (r4 r),
      r5 = one_round_step (state_out (r4 r)) (expand_key_type_B_256_out_2 (a4 r)) (r5 r),
      r6 = one_round_step (state_out (r5 r)) (expand_key_type_A_256_out_2 (a5 r)) (r6 r),
      r7 = one_round_step (state_out (r6 r)) (expand_key_type_B_256_out_2 (a6 r)) (r7 r),
      r8 = one_round_step (state_out (r7 r)) (expand_key_type_A_256_out_2 (a7 r)) (r8 r),
      r9 = one_round_step (state_out (r8 r)) (expand_key_type_B_256_out_2 (a8 r)) (r9 r),
      r10 = one_round_step (state_out (r9 r)) (expand_key_type_A_256_out_2 (a9 r)) (r10 r),
      r11 = one_round_step (state_out (r10 r)) (expand_key_type_B_256_out_2 (a10 r)) (r11 r),
      r12 = one_round_step (state_out (r11 r)) (expand_key_type_A_256_out_2 (a11 r)) (r12 r),
      r13 = one_round_step (state_out (r12 r)) (expand_key_type_B_256_out_2 (a12 r)) (r13 r),
      rf = final_round_step (state_out (r13 r)) (expand_key_type_A_256_out_2 (a13 r)) (rf r)\<rparr>"

end
