(* ===== verification/Aes_Field.thy ===== *)
theory Aes_Field
  imports Aes_Rtl
begin

text \<open>
  The field with 256 elements, and the substitution tables of the core against the substitution box
  of FIPS 197.
\<close>

section \<open>The field with 256 elements\<close>

text \<open>Bytes are polynomials over two elements modulo \<^verbatim>\<open>x^8 + x^4 + x^3 + x + 1\<close> (FIPS 197, section 4).\<close>

definition xtime :: "8 word \<Rightarrow> 8 word" where
  "xtime b = (if bit b 7 then push_bit 1 b XOR 0x1b else push_bit 1 b)"

fun gf_mult_upto :: "nat \<Rightarrow> 8 word \<Rightarrow> 8 word \<Rightarrow> 8 word" where
  "gf_mult_upto 0 a b = 0"
| "gf_mult_upto (Suc n) a b = (if bit b 0 then a else 0) XOR gf_mult_upto n (xtime a) (drop_bit 1 b)"

definition gf_mult :: "8 word \<Rightarrow> 8 word \<Rightarrow> 8 word" where
  "gf_mult a b = gf_mult_upto 8 a b"

text \<open>The multiplicative inverse, zero for zero.\<close>

definition gf_inv :: "8 word \<Rightarrow> 8 word" where
  "gf_inv x = (case find (\<lambda>y. gf_mult x y = 1) (map word_of_nat [0..<256]) of Some y \<Rightarrow> y | None \<Rightarrow> 0)"

text \<open>The affine transformation of the substitution box: bit \<open>i\<close> of the result is the sum of the bits \<open>i\<close>, \<open>i + 4\<close> to \<open>i + 7\<close> and of \<^verbatim>\<open>0x63\<close>.\<close>

definition rotl8 :: "nat \<Rightarrow> 8 word \<Rightarrow> 8 word" where
  "rotl8 n b = push_bit n b OR drop_bit (8 - n) b"

definition affine :: "8 word \<Rightarrow> 8 word" where
  "affine b = b XOR rotl8 1 b XOR rotl8 2 b XOR rotl8 3 b XOR rotl8 4 b XOR 0x63"

definition sbox :: "8 word \<Rightarrow> 8 word" where
  "sbox x = affine (gf_inv x)"

subsection \<open>Laws\<close>

lemma xtime_xor: "xtime (a XOR b) = xtime a XOR xtime b"
  by (simp add: xtime_def bit_xor_iff push_bit_xor) (simp add: ac_simps)

lemma xtime_zero [simp]: "xtime 0 = 0"
  by (simp add: xtime_def)

lemma mult_xor_left: "gf_mult_upto n (a XOR b) c = gf_mult_upto n a c XOR gf_mult_upto n b c"
  by (induction n arbitrary: a b c) (simp_all add: xtime_xor ac_simps)

lemma mult_xor_right: "gf_mult_upto n a (b XOR c) = gf_mult_upto n a b XOR gf_mult_upto n a c"
  by (induction n arbitrary: a b c) (simp_all add: bit_xor_iff ac_simps)

lemma mult_zero [simp]: "gf_mult_upto n 0 b = 0" "gf_mult_upto n a 0 = 0"
  by (induction n arbitrary: a b) simp_all

lemma mult_xtime_left: "gf_mult_upto n (xtime a) b = xtime (gf_mult_upto n a b)"
  by (induction n arbitrary: a b) (simp_all add: xtime_xor)

lemma byte_sum:
  "(x :: 8 word) = (if bit x 0 then 1 else 0) XOR (if bit x 1 then 2 else 0) XOR (if bit x 2 then 4 else 0) XOR
     (if bit x 3 then 8 else 0) XOR (if bit x 4 then 16 else 0) XOR (if bit x 5 then 32 else 0) XOR
     (if bit x 6 then 64 else 0) XOR (if bit x 7 then 128 else 0)" (is "_ = ?r")
proof (rule bit_word_eqI)
  fix n assume "n < LENGTH(8)"
  then consider "n = 0" | "n = 1" | "n = 2" | "n = 3" | "n = 4" | "n = 5" | "n = 6" | "n = 7"
    by fastforce
  then show "bit x n \<longleftrightarrow> bit ?r n"
    by cases (simp_all add: bit_xor_iff)
qed

lemma byte_induct:
  assumes "P (0 :: 8 word)" and "P 1" "P 2" "P 4" "P 8" "P 16" "P 32" "P 64" "P 128"
    and "\<And>a b. P a \<Longrightarrow> P b \<Longrightarrow> P (a XOR b)"
  shows "P x"
  by (subst byte_sum) (intro assms(10); simp add: assms(1-9))

lemma xtime_8: "xtime (xtime (xtime (xtime (xtime (xtime (xtime (xtime a))))))) =
    a XOR xtime a XOR xtime (xtime (xtime a)) XOR xtime (xtime (xtime (xtime a)))"
proof (induction a rule: byte_induct)
  case (10 a b)
  then show ?case by (simp add: xtime_xor ac_simps)
qed (simp_all add: xtime_def)

lemma gf_mult_unfold:
  "gf_mult a b = (if bit b 0 then a else 0) XOR (if bit b 1 then xtime a else 0) XOR (if bit b 2 then xtime (xtime a) else 0) XOR
     (if bit b 3 then xtime (xtime (xtime a)) else 0) XOR (if bit b 4 then xtime (xtime (xtime (xtime a))) else 0) XOR
     (if bit b 5 then xtime (xtime (xtime (xtime (xtime a)))) else 0) XOR
     (if bit b 6 then xtime (xtime (xtime (xtime (xtime (xtime a))))) else 0) XOR
     (if bit b 7 then xtime (xtime (xtime (xtime (xtime (xtime (xtime a)))))) else 0)"
  by (simp add: gf_mult_def eval_nat_numeral bit_drop_bit_eq)

lemma xtime_basis: "xtime 1 = 2" "xtime 2 = 4" "xtime 4 = 8" "xtime 8 = 16" "xtime 16 = 32" "xtime 32 = 64" "xtime 64 = 128" "xtime 128 = 0x1b"
  by (simp_all add: xtime_def)

lemma mult_xtime_right: "gf_mult a (xtime b) = xtime (gf_mult a b)"
proof (induction b rule: byte_induct)
  case (10 b c)
  then show ?case by (simp add: xtime_xor gf_mult_def mult_xor_right)
next
  case 9
  then show ?case unfolding xtime_basis by (simp add: gf_mult_unfold xtime_8)
qed (simp_all add: xtime_basis gf_mult_unfold)

lemma gf_mult_xor: "gf_mult (a XOR b) c = gf_mult a c XOR gf_mult b c" "gf_mult a (b XOR c) = gf_mult a b XOR gf_mult a c"
  by (simp_all add: gf_mult_def mult_xor_left mult_xor_right)

lemma gf_mult_zero [simp]: "gf_mult 0 b = 0" "gf_mult a 0 = 0"
  by (simp_all add: gf_mult_def)

lemma gf_mult_one [simp]: "gf_mult a 1 = a"
  by (simp add: gf_mult_unfold)

text \<open>Every byte is a sum of powers of \<^verbatim>\<open>x\<close>.\<close>

lemma poly_induct:
  assumes "P (0 :: 8 word)" and "P 1" and "\<And>a. P a \<Longrightarrow> P (xtime a)" and "\<And>a b. P a \<Longrightarrow> P b \<Longrightarrow> P (a XOR b)"
  shows "P x"
proof -
  have b: "P 1" "P 2" "P 4" "P 8" "P 16" "P 32" "P 64" "P 128"
    using assms(2,3) xtime_basis(1-7) by metis+
  show ?thesis
    by (rule byte_induct [of P, OF assms(1) b]) (rule assms(4))
qed

lemma gf_mult_xtime: "gf_mult (xtime a) b = xtime (gf_mult a b)"
  by (simp add: gf_mult_def mult_xtime_left)

lemma gf_one_mult [simp]: "gf_mult 1 b = b"
  by (induction b rule: poly_induct) (simp_all add: mult_xtime_right gf_mult_xor)

lemma gf_mult_commute: "gf_mult a b = gf_mult b a"
  by (induction b rule: poly_induct) (simp_all add: mult_xtime_right gf_mult_xtime gf_mult_xor)

lemma gf_mult_assoc: "gf_mult (gf_mult a b) c = gf_mult a (gf_mult b c)"
  by (induction c rule: poly_induct) (simp_all add: mult_xtime_right gf_mult_xor)

lemma gf_inverse_unique:
  assumes "gf_mult x y = 1"
  shows "gf_inv x = y"
proof -
  have "y \<in> set (map word_of_nat [0..<256])"
    using unsigned_less [of y, where ?'a = nat] by (auto intro!: image_eqI [of _ _ "unat y"])
  then obtain z where z: "find (\<lambda>y. gf_mult x y = 1) (map word_of_nat [0..<256]) = Some z"
    using assms by (cases "find (\<lambda>y. gf_mult x y = 1) (map word_of_nat [0..<256])") (auto simp: find_None_iff)
  then have "gf_mult x z = 1"
    by (auto simp: find_Some_iff)
  then have "z = y"
    using assms gf_mult_assoc gf_mult_commute gf_mult_one by metis
  with z show ?thesis
    by (simp add: gf_inv_def)
qed

lemma gf_inv_zero [simp]: "gf_inv 0 = 0"
proof -
  have "find (\<lambda>y. gf_mult 0 y = 1) (map word_of_nat [0..<256]) = None"
    by (simp add: find_None_iff)
  then show ?thesis
    by (simp add: gf_inv_def)
qed

section \<open>The tables\<close>

text \<open>
  Multiplication by three generates the nonzero bytes: the powers of three, and for every byte from
  one on the exponent it has as a power. The entry of a substitution box at the \<open>i\<close>th power is the
  affine image of the inverse power.
\<close>

definition triple :: "8 word \<Rightarrow> 8 word" where
  "triple a = a XOR xtime a"

definition powers :: "8 word list" where
  "powers = [
    0x01, 0x03, 0x05, 0x0f, 0x11, 0x33, 0x55, 0xff, 0x1a, 0x2e, 0x72, 0x96, 0xa1, 0xf8, 0x13, 0x35,
    0x5f, 0xe1, 0x38, 0x48, 0xd8, 0x73, 0x95, 0xa4, 0xf7, 0x02, 0x06, 0x0a, 0x1e, 0x22, 0x66, 0xaa,
    0xe5, 0x34, 0x5c, 0xe4, 0x37, 0x59, 0xeb, 0x26, 0x6a, 0xbe, 0xd9, 0x70, 0x90, 0xab, 0xe6, 0x31,
    0x53, 0xf5, 0x04, 0x0c, 0x14, 0x3c, 0x44, 0xcc, 0x4f, 0xd1, 0x68, 0xb8, 0xd3, 0x6e, 0xb2, 0xcd,
    0x4c, 0xd4, 0x67, 0xa9, 0xe0, 0x3b, 0x4d, 0xd7, 0x62, 0xa6, 0xf1, 0x08, 0x18, 0x28, 0x78, 0x88,
    0x83, 0x9e, 0xb9, 0xd0, 0x6b, 0xbd, 0xdc, 0x7f, 0x81, 0x98, 0xb3, 0xce, 0x49, 0xdb, 0x76, 0x9a,
    0xb5, 0xc4, 0x57, 0xf9, 0x10, 0x30, 0x50, 0xf0, 0x0b, 0x1d, 0x27, 0x69, 0xbb, 0xd6, 0x61, 0xa3,
    0xfe, 0x19, 0x2b, 0x7d, 0x87, 0x92, 0xad, 0xec, 0x2f, 0x71, 0x93, 0xae, 0xe9, 0x20, 0x60, 0xa0,
    0xfb, 0x16, 0x3a, 0x4e, 0xd2, 0x6d, 0xb7, 0xc2, 0x5d, 0xe7, 0x32, 0x56, 0xfa, 0x15, 0x3f, 0x41,
    0xc3, 0x5e, 0xe2, 0x3d, 0x47, 0xc9, 0x40, 0xc0, 0x5b, 0xed, 0x2c, 0x74, 0x9c, 0xbf, 0xda, 0x75,
    0x9f, 0xba, 0xd5, 0x64, 0xac, 0xef, 0x2a, 0x7e, 0x82, 0x9d, 0xbc, 0xdf, 0x7a, 0x8e, 0x89, 0x80,
    0x9b, 0xb6, 0xc1, 0x58, 0xe8, 0x23, 0x65, 0xaf, 0xea, 0x25, 0x6f, 0xb1, 0xc8, 0x43, 0xc5, 0x54,
    0xfc, 0x1f, 0x21, 0x63, 0xa5, 0xf4, 0x07, 0x09, 0x1b, 0x2d, 0x77, 0x99, 0xb0, 0xcb, 0x46, 0xca,
    0x45, 0xcf, 0x4a, 0xde, 0x79, 0x8b, 0x86, 0x91, 0xa8, 0xe3, 0x3e, 0x42, 0xc6, 0x51, 0xf3, 0x0e,
    0x12, 0x36, 0x5a, 0xee, 0x29, 0x7b, 0x8d, 0x8c, 0x8f, 0x8a, 0x85, 0x94, 0xa7, 0xf2, 0x0d, 0x17,
    0x39, 0x4b, 0xdd, 0x7c, 0x84, 0x97, 0xa2, 0xfd, 0x1c, 0x24, 0x6c, 0xb4, 0xc7, 0x52, 0xf6]"

definition logs :: "nat list" where
  "logs = [
    0, 25, 1, 50, 2, 26, 198, 75, 199, 27, 104, 51, 238, 223, 3, 100,
    4, 224, 14, 52, 141, 129, 239, 76, 113, 8, 200, 248, 105, 28, 193, 125,
    194, 29, 181, 249, 185, 39, 106, 77, 228, 166, 114, 154, 201, 9, 120, 101,
    47, 138, 5, 33, 15, 225, 36, 18, 240, 130, 69, 53, 147, 218, 142, 150,
    143, 219, 189, 54, 208, 206, 148, 19, 92, 210, 241, 64, 70, 131, 56, 102,
    221, 253, 48, 191, 6, 139, 98, 179, 37, 226, 152, 34, 136, 145, 16, 126,
    110, 72, 195, 163, 182, 30, 66, 58, 107, 40, 84, 250, 133, 61, 186, 43,
    121, 10, 21, 155, 159, 94, 202, 78, 212, 172, 229, 243, 115, 167, 87, 175,
    88, 168, 80, 244, 234, 214, 116, 79, 174, 233, 213, 231, 230, 173, 232, 44,
    215, 117, 122, 235, 22, 11, 245, 89, 203, 95, 176, 156, 169, 81, 160, 127,
    12, 246, 111, 23, 196, 73, 236, 216, 67, 31, 45, 164, 118, 123, 183, 204,
    187, 62, 90, 251, 96, 177, 134, 59, 82, 161, 108, 170, 85, 41, 157, 151,
    178, 135, 144, 97, 190, 220, 252, 188, 149, 207, 205, 55, 63, 91, 209, 83,
    57, 132, 60, 65, 162, 109, 71, 20, 42, 158, 93, 86, 242, 211, 171, 68,
    17, 146, 217, 35, 32, 46, 137, 180, 124, 184, 38, 119, 153, 227, 165, 103,
    74, 237, 222, 197, 49, 254, 24, 13, 99, 140, 128, 192, 247, 112, 7]"

lemma powers_triple: "map triple powers = tl powers @ [1]"
  by (simp add: powers_def triple_def xtime_def)

lemma powers_length: "length powers = 255" "powers ! 0 = 1"
  by (simp_all add: powers_def)

lemma logs_length: "length logs = 255" "list_all (\<lambda>i. i < 255) logs"
  by (simp_all add: logs_def)

lemma upt_bytes: "map word_of_nat [0..<256] = 0 # 1 # map word_of_nat [2..<256]"
  by (simp add: upt_conv_Cons [of 0] upt_conv_Cons [of "Suc 0"] numeral_2_eq_2)

lemma powers_logs: "map ((!) powers) logs = 1 # map word_of_nat [2..<256]"
  by (simp add: powers_def logs_def upt_rec_numeral)

definition inverses :: "8 word list" where
  "inverses = [
    0x01, 0x8d, 0xf6, 0xcb, 0x52, 0x7b, 0xd1, 0xe8, 0x4f, 0x29, 0xc0, 0xb0, 0xe1, 0xe5, 0xc7, 0x74,
    0xb4, 0xaa, 0x4b, 0x99, 0x2b, 0x60, 0x5f, 0x58, 0x3f, 0xfd, 0xcc, 0xff, 0x40, 0xee, 0xb2, 0x3a,
    0x6e, 0x5a, 0xf1, 0x55, 0x4d, 0xa8, 0xc9, 0xc1, 0x0a, 0x98, 0x15, 0x30, 0x44, 0xa2, 0xc2, 0x2c,
    0x45, 0x92, 0x6c, 0xf3, 0x39, 0x66, 0x42, 0xf2, 0x35, 0x20, 0x6f, 0x77, 0xbb, 0x59, 0x19, 0x1d,
    0xfe, 0x37, 0x67, 0x2d, 0x31, 0xf5, 0x69, 0xa7, 0x64, 0xab, 0x13, 0x54, 0x25, 0xe9, 0x09, 0xed,
    0x5c, 0x05, 0xca, 0x4c, 0x24, 0x87, 0xbf, 0x18, 0x3e, 0x22, 0xf0, 0x51, 0xec, 0x61, 0x17, 0x16,
    0x5e, 0xaf, 0xd3, 0x49, 0xa6, 0x36, 0x43, 0xf4, 0x47, 0x91, 0xdf, 0x33, 0x93, 0x21, 0x3b, 0x79,
    0xb7, 0x97, 0x85, 0x10, 0xb5, 0xba, 0x3c, 0xb6, 0x70, 0xd0, 0x06, 0xa1, 0xfa, 0x81, 0x82, 0x83,
    0x7e, 0x7f, 0x80, 0x96, 0x73, 0xbe, 0x56, 0x9b, 0x9e, 0x95, 0xd9, 0xf7, 0x02, 0xb9, 0xa4, 0xde,
    0x6a, 0x32, 0x6d, 0xd8, 0x8a, 0x84, 0x72, 0x2a, 0x14, 0x9f, 0x88, 0xf9, 0xdc, 0x89, 0x9a, 0xfb,
    0x7c, 0x2e, 0xc3, 0x8f, 0xb8, 0x65, 0x48, 0x26, 0xc8, 0x12, 0x4a, 0xce, 0xe7, 0xd2, 0x62, 0x0c,
    0xe0, 0x1f, 0xef, 0x11, 0x75, 0x78, 0x71, 0xa5, 0x8e, 0x76, 0x3d, 0xbd, 0xbc, 0x86, 0x57, 0x0b,
    0x28, 0x2f, 0xa3, 0xda, 0xd4, 0xe4, 0x0f, 0xa9, 0x27, 0x53, 0x04, 0x1b, 0xfc, 0xac, 0xe6, 0x7a,
    0x07, 0xae, 0x63, 0xc5, 0xdb, 0xe2, 0xea, 0x94, 0x8b, 0xc4, 0xd5, 0x9d, 0xf8, 0x90, 0x6b, 0xb1,
    0x0d, 0xd6, 0xeb, 0xc6, 0x0e, 0xcf, 0xad, 0x08, 0x4e, 0xd7, 0xe3, 0x5d, 0x50, 0x1e, 0xb3, 0x5b,
    0x23, 0x38, 0x34, 0x68, 0x46, 0x03, 0x8c, 0xdd, 0x9c, 0x7d, 0xa0, 0xcd, 0x1a, 0x41, 0x1c]"

lemma inverses_logs: "map ((!) (1 # rev (tl powers))) logs = inverses"
  by (simp add: powers_def logs_def inverses_def)

lemma S_table_affine: "S_table = map affine (0 # inverses)"
  by (simp add: S_table_def inverses_def affine_def rotl8_def)

lemma S_logs: "S_table = affine 0 # map (\<lambda>i. affine ((1 # rev (tl powers)) ! i)) logs"
  by (simp add: S_table_affine inverses_logs [symmetric])

lemma xS_table: "xS_table = map xtime S_table"
  by (simp add: S_table_def xS_table_def xtime_def)

lemma powers_Suc: "Suc i < 255 \<Longrightarrow> powers ! Suc i = triple (powers ! i)"
  using arg_cong [OF powers_triple, of "\<lambda>xs. xs ! i"] by (simp add: powers_length nth_append nth_tl)

lemma triple_mult: "gf_mult (triple a) b = gf_mult a (triple b)"
  by (simp add: triple_def gf_mult_xor gf_mult_xtime mult_xtime_right)

lemma powers_mult: "i + j < 255 \<Longrightarrow> gf_mult (powers ! i) (powers ! j) = powers ! (i + j)"
proof (induction i arbitrary: j)
  case 0
  then show ?case by (simp add: powers_length)
next
  case (Suc i)
  then show ?case
    using Suc.IH [of "Suc j"] powers_Suc [of i] powers_Suc [of j] by (simp add: triple_mult)
qed

lemma powers_last: "triple (powers ! 254) = 1"
  using arg_cong [OF powers_triple, of "\<lambda>xs. xs ! 254"] by (simp add: powers_length nth_append)

lemma powers_inverse:
  assumes "i < 255"
  shows "gf_mult (powers ! i) ((1 # rev (tl powers)) ! i) = 1"
proof (cases i)
  case 0
  then show ?thesis by (simp add: powers_length)
next
  case (Suc j)
  then have "(1 # rev (tl powers)) ! i = powers ! (254 - j)"
    using assms by (simp add: rev_nth nth_tl powers_length Suc_diff_le [symmetric])
  moreover have "gf_mult (powers ! i) (powers ! (254 - j)) = gf_mult 1 (triple (gf_mult (powers ! j) (powers ! (254 - j))))"
    using assms Suc powers_Suc [of j] by (simp add: triple_def gf_mult_xor gf_mult_xtime)
  moreover have "gf_mult (powers ! j) (powers ! (254 - j)) = powers ! 254"
    using assms Suc powers_mult [of j "254 - j"] by simp
  ultimately show ?thesis by (simp add: powers_last)
qed

text \<open>Every byte is zero or a power.\<close>

lemma byte_cases:
  obtains "x = (0 :: 8 word)" "unat x = 0" | n where "n < 255" "x = powers ! (logs ! n)" "unat x = Suc n" "logs ! n < 255"
proof -
  let ?n = "unat x"
  have n: "?n < 256"
    using unsigned_less [of x, where ?'a = nat] by simp
  have x: "x = map word_of_nat [0..<256] ! ?n"
    using n by simp
  show ?thesis
  proof (cases ?n)
    case 0
    then show ?thesis using that(1) by (simp add: unsigned_eq_0_iff)
  next
    case (Suc m)
    have "map word_of_nat [0..<256] ! Suc m = map ((!) powers) logs ! m"
      unfolding upt_bytes powers_logs by simp
    also have "\<dots> = powers ! (logs ! m)"
      using n Suc by (simp add: logs_length)
    finally show ?thesis
      using that(2) [of m] x n Suc logs_length by (simp add: list_all_length)
  qed
qed

text \<open>The table of \<^verbatim>\<open>S\<close> is the substitution box of the standard, that of \<^verbatim>\<open>xS\<close> its double.\<close>

lemma S_sbox: "S x = sbox x"
proof (cases rule: byte_cases [of x])
  case 1
  then show ?thesis by (simp add: S_def S_logs sbox_def)
next
  case (2 n)
  then show ?thesis
    using gf_inverse_unique [OF powers_inverse [OF 2(4)]] by (simp add: S_def S_logs sbox_def logs_length)
qed

lemma xS_sbox: "xS x = xtime (sbox x)"
proof -
  have "length S_table = 256"
    by (simp add: S_logs logs_length)
  then show ?thesis
    using unsigned_less [of x, where ?'a = nat] S_sbox [of x] by (simp add: xS_def S_def xS_table)
qed

end
