(* ===== verification/Aes_Spec.thy ===== *)
theory Aes_Spec
  imports Aes_Field
begin

text \<open>
  The cipher of FIPS 197 on lists of bytes, and what a round and a key expansion module compute in
  two clock cycles.
\<close>

section \<open>The standard\<close>

text \<open>
  The cipher of FIPS 197 with a key of eight words and fourteen rounds. A word is a list of four
  bytes, the state a list of four columns.
\<close>

definition SubBytes :: "8 word list list \<Rightarrow> 8 word list list" where
  "SubBytes st = map (map sbox) st"

definition ShiftRows :: "8 word list list \<Rightarrow> 8 word list list" where
  "ShiftRows st = map (\<lambda>c. map (\<lambda>r. st ! ((c + r) mod 4) ! r) [0, 1, 2, 3]) [0, 1, 2, 3]"

definition MixColumns :: "8 word list list \<Rightarrow> 8 word list list" where
  "MixColumns st = map (\<lambda>c. map (\<lambda>r. gf_mult (c ! r) 2 XOR gf_mult (c ! ((r + 1) mod 4)) 3 XOR c ! ((r + 2) mod 4) XOR
     c ! ((r + 3) mod 4)) [0, 1, 2, 3]) st"

definition xor_word :: "8 word list \<Rightarrow> 8 word list \<Rightarrow> 8 word list" where
  "xor_word a b = map2 (XOR) a b"

definition AddRoundKey :: "8 word list list \<Rightarrow> 8 word list list \<Rightarrow> 8 word list list" where
  "AddRoundKey st k = map2 xor_word st k"

definition Rcon :: "nat \<Rightarrow> 8 word list" where
  "Rcon i = [(xtime ^^ (i - 1)) 1, 0, 0, 0]"

definition next_word :: "8 word list list \<Rightarrow> 8 word list" where
  "next_word ws =
     (let i = length ws; temp = last ws;
          temp = (if i mod 8 = 0 then xor_word (map sbox (rotate1 temp)) (Rcon (i div 8))
                  else if i mod 8 = 4 then map sbox temp else temp)
      in xor_word (ws ! (i - 8)) temp)"

definition KeyExpansion :: "8 word list list \<Rightarrow> 8 word list list" where
  "KeyExpansion key = ((\<lambda>ws. ws @ [next_word ws]) ^^ 52) key"

definition round_key :: "8 word list list \<Rightarrow> nat \<Rightarrow> 8 word list list" where
  "round_key w r = take 4 (drop (4 * r) w)"

definition Round :: "8 word list list \<Rightarrow> 8 word list list \<Rightarrow> 8 word list list" where
  "Round k st = AddRoundKey (MixColumns (ShiftRows (SubBytes st))) k"

definition Cipher :: "8 word list list \<Rightarrow> 8 word list list \<Rightarrow> 8 word list list" where
  "Cipher w block =
     (let st = fold (\<lambda>r. Round (round_key w r)) [1..<14] (AddRoundKey block (round_key w 0))
      in AddRoundKey (ShiftRows (SubBytes st)) (round_key w 14))"

section \<open>Vectors as bytes\<close>

definition bytes32 :: "32 word \<Rightarrow> 8 word list" where
  "bytes32 w = [part 24 w, part 16 w, part 8 w, part 0 w]"

definition columns128 :: "128 word \<Rightarrow> 8 word list list" where
  "columns128 w = map bytes32 [part 96 w, part 64 w, part 32 w, part 0 w]"

definition columns256 :: "256 word \<Rightarrow> 8 word list list" where
  "columns256 w = map bytes32 [part 224 w, part 192 w, part 160 w, part 128 w, part 96 w, part 64 w, part 32 w, part 0 w]"

lemma part_cat32 [simp]:
  "part 24 (cat32 a b c d) = a" "part 16 (cat32 a b c d) = b" "part 8 (cat32 a b c d) = c" "part 0 (cat32 a b c d) = d"
  by (rule bit_word_eqI; auto simp: part_def cat32_def bit_simps dest: bit_imp_le_length)+

lemma part_cat128 [simp]:
  "part 96 (cat128 a b c d) = a" "part 64 (cat128 a b c d) = b" "part 32 (cat128 a b c d) = c" "part 0 (cat128 a b c d) = d"
  by (rule bit_word_eqI; auto simp: part_def cat128_def bit_simps dest: bit_imp_le_length)+

lemma part_cat256 [simp]:
  "part 128 (cat256 a b c d e f g h) = cat128 a b c d" "part 0 (cat256 a b c d e f g h) = cat128 e f g h"
  by (rule bit_word_eqI; auto simp: part_def cat256_def bit_simps dest: bit_imp_le_length)+

lemma part_part: "n + LENGTH('b) \<le> LENGTH('c) \<Longrightarrow> part n (part m w :: 'c::len word) = (part (m + n) w :: 'b::len word)"
  by (rule bit_word_eqI) (auto simp: part_def bit_simps ac_simps dest: bit_imp_le_length)

lemma part_xor [simp]: "part n (a XOR b) = part n a XOR part n b"
  by (rule bit_word_eqI) (auto simp: part_def bit_simps)

lemma part_halves:
  "(part 224 w :: 32 word) = part 96 (part 128 w :: 128 word)" "(part 192 w :: 32 word) = part 64 (part 128 w :: 128 word)"
  "(part 160 w :: 32 word) = part 32 (part 128 w :: 128 word)" "(part 128 w :: 32 word) = part 0 (part 128 w :: 128 word)"
  "(part 96 w :: 32 word) = part 96 (part 0 w :: 128 word)" "(part 64 w :: 32 word) = part 64 (part 0 w :: 128 word)"
  "(part 32 w :: 32 word) = part 32 (part 0 w :: 128 word)" "(part 0 w :: 32 word) = part 0 (part 0 w :: 128 word)"
  for w :: "256 word"
  by (simp_all add: part_part)

lemma part_words256 [simp]:
  "part 224 (cat256 a b c d e f g h) = a" "part 192 (cat256 a b c d e f g h) = b"
  "part 160 (cat256 a b c d e f g h) = c" "(part 128 (cat256 a b c d e f g h) :: 32 word) = d"
  "part 96 (cat256 a b c d e f g h) = e" "part 64 (cat256 a b c d e f g h) = f"
  "part 32 (cat256 a b c d e f g h) = g" "(part 0 (cat256 a b c d e f g h) :: 32 word) = h"
  by (simp_all only: part_halves part_cat256 part_cat128)

lemma columns256_halves: "columns256 w = columns128 (part 128 w) @ columns128 (part 0 w)"
  by (simp add: columns256_def columns128_def part_part)

lemma bytes32_simps [simp]: "bytes32 (cat32 a b c d) = [a, b, c, d]" "bytes32 (v XOR w) = xor_word (bytes32 v) (bytes32 w)"
  by (simp_all add: bytes32_def xor_word_def)

lemma columns128_simps [simp]:
  "columns128 (cat128 a b c d) = map bytes32 [a, b, c, d]" "columns128 (v XOR w) = AddRoundKey (columns128 v) (columns128 w)"
  by (simp_all add: columns128_def AddRoundKey_def)

section \<open>Rounds\<close>

lemma lookup_columns:
  "p0 (table_lookup_step w) = cat32 (xS (part 24 w)) (S (part 24 w)) (S (part 24 w)) (S (part 24 w) XOR xS (part 24 w))"
  "p1 (table_lookup_step w) = cat32 (S (part 16 w) XOR xS (part 16 w)) (xS (part 16 w)) (S (part 16 w)) (S (part 16 w))"
  "p2 (table_lookup_step w) = cat32 (S (part 8 w)) (S (part 8 w) XOR xS (part 8 w)) (xS (part 8 w)) (S (part 8 w))"
  "p3 (table_lookup_step w) = cat32 (S (part 0 w)) (S (part 0 w)) (S (part 0 w) XOR xS (part 0 w)) (xS (part 0 w))"
  by (simp_all add: p0_def p1_def p2_def p3_def T_out_def T_step_def table_lookup_step_def)

lemma gf_mult_small: "gf_mult a 2 = xtime a" "gf_mult a 3 = a XOR xtime a"
  by (simp_all add: gf_mult_unfold)

text \<open>Two edges of a round: the lookup, then the sum with the key at the second edge.\<close>

lemma one_round:
  "columns128 (state_out (one_round_step s' k (one_round_step s k' r))) = Round (columns128 k) (columns128 s)"
  by (simp add: one_round_step_def Let_def lookup_columns Round_def AddRoundKey_def MixColumns_def ShiftRows_def SubBytes_def
      columns128_def bytes32_def xor_word_def gf_mult_small S_sbox xS_sbox ac_simps)

lemma final_round:
  "columns128 (final_out (final_round_step s' k (final_round_step s k' r))) = AddRoundKey (ShiftRows (SubBytes (columns128 s))) (columns128 k)"
  by (simp add: final_round_step_def Let_def S4_step_def AddRoundKey_def ShiftRows_def SubBytes_def
      columns128_def bytes32_def xor_word_def S_sbox)

section \<open>Key expansion\<close>

definition SubWord :: "8 word list \<Rightarrow> 8 word list" where
  "SubWord w = map sbox w"

lemma S4_word: "bytes32 (S4_out (S4_step w)) = SubWord (bytes32 w)"
  by (simp add: S4_out_def S4_step_def S_sbox SubWord_def) (simp add: bytes32_def)

lemma bytes32_length [simp]: "length (bytes32 w) = 4"
  by (simp add: bytes32_def)

lemma xor_word_ac: "xor_word a b = xor_word b a" "xor_word (xor_word a b) c = xor_word a (xor_word b c)"
  "xor_word a (xor_word b c) = xor_word b (xor_word a c)"
  by (auto simp: xor_word_def list_eq_iff_nth_eq min_def ac_simps)

text \<open>
  What one instance makes of eight words: the first half from the last word, or the second half from
  the fourth.
\<close>

definition expand_A :: "8 word list \<Rightarrow> 8 word list list \<Rightarrow> 8 word list list" where
  "expand_A rcon ws =
     (let n0 = xor_word (ws ! 0) (xor_word (SubWord (rotate1 (ws ! 7))) rcon);
          n1 = xor_word (ws ! 1) n0; n2 = xor_word (ws ! 2) n1; n3 = xor_word (ws ! 3) n2
      in [n0, n1, n2, n3, ws ! 4, ws ! 5, ws ! 6, ws ! 7])"

definition expand_B :: "8 word list list \<Rightarrow> 8 word list list" where
  "expand_B ws =
     (let n4 = xor_word (ws ! 4) (SubWord (ws ! 3));
          n5 = xor_word (ws ! 5) n4; n6 = xor_word (ws ! 6) n5; n7 = xor_word (ws ! 7) n6
      in [ws ! 0, ws ! 1, ws ! 2, ws ! 3, n4, n5, n6, n7])"

lemma expand_type_A:
  "columns256 (kb_A (expand_key_type_A_256_step inp rcon r)) = expand_A [rcon, 0, 0, 0] (columns256 inp)"
proof -
  have "bytes32 (cat32 (part 24 w XOR rcon) (part 16 w) (part 8 w) (part 0 w)) = xor_word (bytes32 w) [rcon, 0, 0, 0]" for w
    by (simp add: bytes32_def xor_word_def)
  moreover have "bytes32 (cat32 (part 16 w) (part 8 w) (part 0 w) (part 24 w)) = rotate1 (bytes32 w)" for w :: "32 word"
    by (simp add: bytes32_def)
  ultimately show ?thesis
    by (simp add: expand_key_type_A_256_step_def kb_A_def expand_A_def Let_def columns256_def S4_word xor_word_ac)
qed

lemma expand_type_B: "columns256 (kb_B (expand_key_type_B_256_step inp r)) = expand_B (columns256 inp)"
  by (simp add: expand_key_type_B_256_step_def kb_B_def expand_B_def Let_def columns256_def S4_word xor_word_ac)

end
