(* ===== verification/Aes_Pipeline.thy ===== *)
theory Aes_Pipeline
  imports Aes_Spec
begin

text \<open>
  The key schedule, the stages of the pipeline, and the claim on the core.
\<close>

section \<open>The key schedule\<close>

lemma key_iterate:
  assumes "length key = 8"
  shows "length (((\<lambda>ws. ws @ [next_word ws]) ^^ n) key) = 8 + n"
    and "i \<le> 8 + n \<Longrightarrow> take i (((\<lambda>ws. ws @ [next_word ws]) ^^ (n + m)) key) = take i (((\<lambda>ws. ws @ [next_word ws]) ^^ n) key)"
proof -
  show len: "length (((\<lambda>ws. ws @ [next_word ws]) ^^ n) key) = 8 + n" for n
    using assms by (induction n) simp_all
  show "i \<le> 8 + n \<Longrightarrow> take i (((\<lambda>ws. ws @ [next_word ws]) ^^ (n + m)) key) = take i (((\<lambda>ws. ws @ [next_word ws]) ^^ n) key)"
    by (induction m) (simp_all add: len)
qed

lemma KeyExpansion_next:
  assumes "length key = 8" and "8 \<le> i" and "i < 60"
  shows "KeyExpansion key ! i = next_word (take i (KeyExpansion key))"
proof -
  let ?E = "\<lambda>n. ((\<lambda>ws. ws @ [next_word ws]) ^^ n) key"
  obtain n where i: "i = 8 + n"
    using assms(2) le_Suc_ex by blast
  have "?E (Suc n + (51 - n)) = KeyExpansion key"
    using assms(3) i by (simp add: KeyExpansion_def)
  then have "take (Suc i) (KeyExpansion key) = take (Suc i) (?E (Suc n))"
    using key_iterate(2) [OF assms(1), of "Suc i" "Suc n" "51 - n"] i by simp
  also have "\<dots> = ?E n @ [next_word (?E n)]"
    by (simp add: i key_iterate(1) [OF assms(1)])
  finally have t: "take (Suc i) (KeyExpansion key) = ?E n @ [next_word (?E n)]" .
  have n: "length (?E n) = i"
    by (simp add: i key_iterate(1) [OF assms(1)])
  have "KeyExpansion key ! i = take (Suc i) (KeyExpansion key) ! i"
    by simp
  also have "\<dots> = next_word (?E n)"
    unfolding t using n by (simp add: nth_append)
  also have "?E n = take i (take (Suc i) (KeyExpansion key))"
    unfolding t using n by simp
  finally show ?thesis by simp
qed

text \<open>Word \<open>i\<close> of the schedule from the earlier ones.\<close>

lemma KeyExpansion_nth:
  assumes "length key = 8" and "8 \<le> i" and "i < 60"
  shows "KeyExpansion key ! i = xor_word (KeyExpansion key ! (i - 8))
    (if i mod 8 = 0 then xor_word (SubWord (rotate1 (KeyExpansion key ! (i - 1)))) (Rcon (i div 8))
     else if i mod 8 = 4 then SubWord (KeyExpansion key ! (i - 1)) else KeyExpansion key ! (i - 1))"
proof -
  have "length (take i (KeyExpansion key)) = i"
    using assms by (simp add: KeyExpansion_def key_iterate(1))
  moreover from this have "last (take i (KeyExpansion key)) = KeyExpansion key ! (i - 1)"
    using assms(2) by (subst last_conv_nth) auto
  ultimately show ?thesis
    using assms(2) by (simp add: KeyExpansion_next [OF assms] next_word_def SubWord_def Let_def)
qed

lemma KeyExpansion_length [simp]: "length key = 8 \<Longrightarrow> length (KeyExpansion key) = 60"
  by (simp add: KeyExpansion_def key_iterate(1))

section \<open>The pipeline\<close>

text \<open>Rising edges with a new block and a new key at each.\<close>

primrec aes_256_run :: "(nat \<Rightarrow> 128 word) \<Rightarrow> (nat \<Rightarrow> 256 word) \<Rightarrow> aes_256_regs \<Rightarrow> nat \<Rightarrow> aes_256_regs" where
  "aes_256_run state key r 0 = r"
| "aes_256_run state key r (Suc n) = aes_256_step (state n) (key n) (aes_256_run state key r n)"

lemma expand_out:
  "out_1 (expand_key_type_A_256_step i c r) = kb_A r" "out_1 (expand_key_type_B_256_step i r) = kb_B r"
  by (simp_all add: expand_key_type_A_256_step_def expand_key_type_B_256_step_def Let_def)

lemma columns_half: "columns128 (part 128 w) = take 4 (columns256 w)" "columns128 (part 0 w) = drop 4 (columns256 w)"
  by (simp_all add: columns256_halves) (simp_all add: columns128_def)

lemma expand_out_2:
  "columns128 (expand_key_type_A_256_out_2 (expand_key_type_A_256_step i c r)) = take 4 (expand_A [c, 0, 0, 0] (columns256 i))"
  "columns128 (expand_key_type_B_256_out_2 (expand_key_type_B_256_step i r)) = drop 4 (expand_B (columns256 i))"
  by (simp_all add: expand_key_type_A_256_out_2_def expand_key_type_B_256_out_2_def columns_half expand_type_A expand_type_B)

lemma round_stages:
  "columns128 (state_out (r1 (aes_256_run state key r (Suc (Suc n))))) =
     Round (columns128 (part 0 (k0a (aes_256_run state key r (Suc n))))) (columns128 (s0 (aes_256_run state key r n)))"
  "columns128 (state_out (r2 (aes_256_run state key r (Suc (Suc n))))) =
     Round (columns128 (expand_key_type_A_256_out_2 (a1 (aes_256_run state key r (Suc n))))) (columns128 (state_out (r1 (aes_256_run state key r n))))"
  "columns128 (state_out (r3 (aes_256_run state key r (Suc (Suc n))))) =
     Round (columns128 (expand_key_type_B_256_out_2 (a2 (aes_256_run state key r (Suc n))))) (columns128 (state_out (r2 (aes_256_run state key r n))))"
  "columns128 (state_out (r4 (aes_256_run state key r (Suc (Suc n))))) =
     Round (columns128 (expand_key_type_A_256_out_2 (a3 (aes_256_run state key r (Suc n))))) (columns128 (state_out (r3 (aes_256_run state key r n))))"
  "columns128 (state_out (r5 (aes_256_run state key r (Suc (Suc n))))) =
     Round (columns128 (expand_key_type_B_256_out_2 (a4 (aes_256_run state key r (Suc n))))) (columns128 (state_out (r4 (aes_256_run state key r n))))"
  "columns128 (state_out (r6 (aes_256_run state key r (Suc (Suc n))))) =
     Round (columns128 (expand_key_type_A_256_out_2 (a5 (aes_256_run state key r (Suc n))))) (columns128 (state_out (r5 (aes_256_run state key r n))))"
  "columns128 (state_out (r7 (aes_256_run state key r (Suc (Suc n))))) =
     Round (columns128 (expand_key_type_B_256_out_2 (a6 (aes_256_run state key r (Suc n))))) (columns128 (state_out (r6 (aes_256_run state key r n))))"
  "columns128 (state_out (r8 (aes_256_run state key r (Suc (Suc n))))) =
     Round (columns128 (expand_key_type_A_256_out_2 (a7 (aes_256_run state key r (Suc n))))) (columns128 (state_out (r7 (aes_256_run state key r n))))"
  "columns128 (state_out (r9 (aes_256_run state key r (Suc (Suc n))))) =
     Round (columns128 (expand_key_type_B_256_out_2 (a8 (aes_256_run state key r (Suc n))))) (columns128 (state_out (r8 (aes_256_run state key r n))))"
  "columns128 (state_out (r10 (aes_256_run state key r (Suc (Suc n))))) =
     Round (columns128 (expand_key_type_A_256_out_2 (a9 (aes_256_run state key r (Suc n))))) (columns128 (state_out (r9 (aes_256_run state key r n))))"
  "columns128 (state_out (r11 (aes_256_run state key r (Suc (Suc n))))) =
     Round (columns128 (expand_key_type_B_256_out_2 (a10 (aes_256_run state key r (Suc n))))) (columns128 (state_out (r10 (aes_256_run state key r n))))"
  "columns128 (state_out (r12 (aes_256_run state key r (Suc (Suc n))))) =
     Round (columns128 (expand_key_type_A_256_out_2 (a11 (aes_256_run state key r (Suc n))))) (columns128 (state_out (r11 (aes_256_run state key r n))))"
  "columns128 (state_out (r13 (aes_256_run state key r (Suc (Suc n))))) =
     Round (columns128 (expand_key_type_B_256_out_2 (a12 (aes_256_run state key r (Suc n))))) (columns128 (state_out (r12 (aes_256_run state key r n))))"
  by (simp_all add: aes_256_step_def one_round)

lemma expand_stages:
  "columns256 (out_1 (a1 (aes_256_run state key r (Suc (Suc n))))) = expand_A [0x1, 0, 0, 0] (columns256 (k1 (aes_256_run state key r n)))"
  "columns256 (out_1 (a2 (aes_256_run state key r (Suc (Suc n))))) = expand_B (columns256 (out_1 (a1 (aes_256_run state key r n))))"
  "columns256 (out_1 (a3 (aes_256_run state key r (Suc (Suc n))))) = expand_A [0x2, 0, 0, 0] (columns256 (out_1 (a2 (aes_256_run state key r n))))"
  "columns256 (out_1 (a4 (aes_256_run state key r (Suc (Suc n))))) = expand_B (columns256 (out_1 (a3 (aes_256_run state key r n))))"
  "columns256 (out_1 (a5 (aes_256_run state key r (Suc (Suc n))))) = expand_A [0x4, 0, 0, 0] (columns256 (out_1 (a4 (aes_256_run state key r n))))"
  "columns256 (out_1 (a6 (aes_256_run state key r (Suc (Suc n))))) = expand_B (columns256 (out_1 (a5 (aes_256_run state key r n))))"
  "columns256 (out_1 (a7 (aes_256_run state key r (Suc (Suc n))))) = expand_A [0x8, 0, 0, 0] (columns256 (out_1 (a6 (aes_256_run state key r n))))"
  "columns256 (out_1 (a8 (aes_256_run state key r (Suc (Suc n))))) = expand_B (columns256 (out_1 (a7 (aes_256_run state key r n))))"
  "columns256 (out_1 (a9 (aes_256_run state key r (Suc (Suc n))))) = expand_A [0x10, 0, 0, 0] (columns256 (out_1 (a8 (aes_256_run state key r n))))"
  "columns256 (out_1 (a10 (aes_256_run state key r (Suc (Suc n))))) = expand_B (columns256 (out_1 (a9 (aes_256_run state key r n))))"
  "columns256 (out_1 (a11 (aes_256_run state key r (Suc (Suc n))))) = expand_A [0x20, 0, 0, 0] (columns256 (out_1 (a10 (aes_256_run state key r n))))"
  "columns256 (out_1 (a12 (aes_256_run state key r (Suc (Suc n))))) = expand_B (columns256 (out_1 (a11 (aes_256_run state key r n))))"
  by (simp_all add: aes_256_step_def expand_type_A expand_type_B expand_out)

lemma expand_keys:
  "columns128 (expand_key_type_A_256_out_2 (a1 (aes_256_run state key r (Suc n)))) = take 4 (expand_A [0x1, 0, 0, 0] (columns256 (k1 (aes_256_run state key r n))))"
  "columns128 (expand_key_type_B_256_out_2 (a2 (aes_256_run state key r (Suc n)))) = drop 4 (expand_B (columns256 (out_1 (a1 (aes_256_run state key r n)))))"
  "columns128 (expand_key_type_A_256_out_2 (a3 (aes_256_run state key r (Suc n)))) = take 4 (expand_A [0x2, 0, 0, 0] (columns256 (out_1 (a2 (aes_256_run state key r n)))))"
  "columns128 (expand_key_type_B_256_out_2 (a4 (aes_256_run state key r (Suc n)))) = drop 4 (expand_B (columns256 (out_1 (a3 (aes_256_run state key r n)))))"
  "columns128 (expand_key_type_A_256_out_2 (a5 (aes_256_run state key r (Suc n)))) = take 4 (expand_A [0x4, 0, 0, 0] (columns256 (out_1 (a4 (aes_256_run state key r n)))))"
  "columns128 (expand_key_type_B_256_out_2 (a6 (aes_256_run state key r (Suc n)))) = drop 4 (expand_B (columns256 (out_1 (a5 (aes_256_run state key r n)))))"
  "columns128 (expand_key_type_A_256_out_2 (a7 (aes_256_run state key r (Suc n)))) = take 4 (expand_A [0x8, 0, 0, 0] (columns256 (out_1 (a6 (aes_256_run state key r n)))))"
  "columns128 (expand_key_type_B_256_out_2 (a8 (aes_256_run state key r (Suc n)))) = drop 4 (expand_B (columns256 (out_1 (a7 (aes_256_run state key r n)))))"
  "columns128 (expand_key_type_A_256_out_2 (a9 (aes_256_run state key r (Suc n)))) = take 4 (expand_A [0x10, 0, 0, 0] (columns256 (out_1 (a8 (aes_256_run state key r n)))))"
  "columns128 (expand_key_type_B_256_out_2 (a10 (aes_256_run state key r (Suc n)))) = drop 4 (expand_B (columns256 (out_1 (a9 (aes_256_run state key r n)))))"
  "columns128 (expand_key_type_A_256_out_2 (a11 (aes_256_run state key r (Suc n)))) = take 4 (expand_A [0x20, 0, 0, 0] (columns256 (out_1 (a10 (aes_256_run state key r n)))))"
  "columns128 (expand_key_type_B_256_out_2 (a12 (aes_256_run state key r (Suc n)))) = drop 4 (expand_B (columns256 (out_1 (a11 (aes_256_run state key r n)))))"
  "columns128 (expand_key_type_A_256_out_2 (a13 (aes_256_run state key r (Suc n)))) = take 4 (expand_A [0x40, 0, 0, 0] (columns256 (out_1 (a12 (aes_256_run state key r n)))))"
  by (simp_all add: aes_256_step_def expand_out_2)

section \<open>Schedule and pipeline\<close>

text \<open>The eight words after an instance of the first kind, and after one of the second kind.\<close>

definition even_words :: "8 word list list \<Rightarrow> nat \<Rightarrow> 8 word list list" where
  "even_words w m = map (\<lambda>j. w ! (j + 8 * m)) [0, 1, 2, 3, 4, 5, 6, 7]"

definition odd_words :: "8 word list list \<Rightarrow> nat \<Rightarrow> 8 word list list" where
  "odd_words w m = map (\<lambda>j. w ! (j + 8 * m)) [8, 9, 10, 11, 4, 5, 6, 7]"

lemma expand_even:
  assumes "length key = 8" and "m \<le> 6"
  shows "expand_A (Rcon (Suc m)) (even_words (KeyExpansion key) m) = odd_words (KeyExpansion key) m"
proof -
  have "KeyExpansion key ! (8 + 8 * m) = xor_word (KeyExpansion key ! (8 * m)) (xor_word (SubWord (rotate1 (KeyExpansion key ! (7 + 8 * m)))) (Rcon (Suc m)))"
    using KeyExpansion_nth [OF assms(1), of "8 + 8 * m"] assms(2) by (simp add: ac_simps)
  moreover have "KeyExpansion key ! (j + 8 * m) = xor_word (KeyExpansion key ! ((j - 8) + 8 * m)) (KeyExpansion key ! ((j - 1) + 8 * m))"
    if "j \<in> {9, 10, 11}" for j
    using KeyExpansion_nth [OF assms(1), of "j + 8 * m"] assms(2) that by (auto simp: ac_simps)
  ultimately show ?thesis
    by (simp add: expand_A_def even_words_def odd_words_def Let_def)
qed

lemma expand_odd:
  assumes "length key = 8" and "m \<le> 5"
  shows "expand_B (odd_words (KeyExpansion key) m) = even_words (KeyExpansion key) (Suc m)"
proof -
  have "KeyExpansion key ! (12 + 8 * m) = xor_word (KeyExpansion key ! (4 + 8 * m)) (SubWord (KeyExpansion key ! (11 + 8 * m)))"
    using KeyExpansion_nth [OF assms(1), of "12 + 8 * m"] assms(2) by (simp add: ac_simps)
  moreover have "KeyExpansion key ! (j + 8 * m) = xor_word (KeyExpansion key ! ((j - 8) + 8 * m)) (KeyExpansion key ! ((j - 1) + 8 * m))"
    if "j \<in> {13, 14, 15}" for j
    using KeyExpansion_nth [OF assms(1), of "j + 8 * m"] assms(2) that by (auto simp: ac_simps)
  ultimately show ?thesis
    by (simp add: expand_B_def even_words_def odd_words_def Let_def)
qed

declare aes_256_run.simps(2) [simp del]

lemma input_stages:
  "columns128 (s0 (aes_256_run state key r (Suc n))) = AddRoundKey (columns128 (state n)) (take 4 (columns256 (key n)))"
  "k0a (aes_256_run state key r (Suc (Suc n))) = key n"
  "k1 (aes_256_run state key r (Suc (Suc (Suc n)))) = key n"
  by (simp_all add: aes_256_run.simps(2) aes_256_step_def columns_half)

lemma final_stage:
  "columns128 (aes_256_out (aes_256_run state key r (Suc (Suc n)))) =
     AddRoundKey (ShiftRows (SubBytes (columns128 (state_out (r13 (aes_256_run state key r n))))))
       (columns128 (expand_key_type_A_256_out_2 (a13 (aes_256_run state key r (Suc n)))))"
  by (simp add: aes_256_run.simps(2) aes_256_step_def aes_256_out_def final_round)

lemma columns256_length [simp]: "length (columns256 w) = 8"
  by (simp add: columns256_def)

lemma KeyExpansion_key: "length key = 8 \<Longrightarrow> key = even_words (KeyExpansion key) 0"
proof -
  assume len: "length key = 8"
  have "take 8 (KeyExpansion key) = key"
    using key_iterate(2) [OF len, of 8 0 52] len by (simp add: KeyExpansion_def)
  then have "KeyExpansion key ! j = key ! j" if "j < 8" for j
    using that nth_take [of j 8 "KeyExpansion key"] by simp
  then show ?thesis
    using len by (auto simp: even_words_def list_eq_iff_nth_eq less_Suc_eq numeral_eq_Suc)
qed

lemma round_key_halves:
  assumes "length w = 60"
  shows "m \<le> 6 \<Longrightarrow> take 4 (even_words w m) = round_key w (2 * m)" "m \<le> 6 \<Longrightarrow> drop 4 (even_words w m) = round_key w (2 * m + 1)"
    "m \<le> 6 \<Longrightarrow> take 4 (odd_words w m) = round_key w (2 * m + 2)"
  using assms by (auto simp: even_words_def odd_words_def round_key_def list_eq_iff_nth_eq less_Suc_eq numeral_eq_Suc ac_simps)

text \<open>The constants of the instances.\<close>

lemma Rcon_values:
  "Rcon 1 = [1, 0, 0, 0]" "Rcon 2 = [2, 0, 0, 0]" "Rcon 3 = [4, 0, 0, 0]" "Rcon 4 = [8, 0, 0, 0]"
  "Rcon 5 = [0x10, 0, 0, 0]" "Rcon 6 = [0x20, 0, 0, 0]" "Rcon 7 = [0x40, 0, 0, 0]"
  by (simp_all add: Rcon_def numeral_eq_Suc xtime_basis)

lemma schedule_A:
  assumes "length key = 8"
  shows "expand_A [1, 0, 0, 0] (even_words (KeyExpansion key) 0) = odd_words (KeyExpansion key) 0"
    "expand_A [2, 0, 0, 0] (even_words (KeyExpansion key) (Suc 0)) = odd_words (KeyExpansion key) (Suc 0)"
    "expand_A [4, 0, 0, 0] (even_words (KeyExpansion key) 2) = odd_words (KeyExpansion key) 2"
    "expand_A [8, 0, 0, 0] (even_words (KeyExpansion key) 3) = odd_words (KeyExpansion key) 3"
    "expand_A [0x10, 0, 0, 0] (even_words (KeyExpansion key) 4) = odd_words (KeyExpansion key) 4"
    "expand_A [0x20, 0, 0, 0] (even_words (KeyExpansion key) 5) = odd_words (KeyExpansion key) 5"
    "expand_A [0x40, 0, 0, 0] (even_words (KeyExpansion key) 6) = odd_words (KeyExpansion key) 6"
  using expand_even [OF assms, of 0] expand_even [OF assms, of 1] expand_even [OF assms, of 2] expand_even [OF assms, of 3]
    expand_even [OF assms, of 4] expand_even [OF assms, of 5] expand_even [OF assms, of 6] Rcon_values
  by (simp_all add: numeral_2_eq_2 [symmetric])

lemma schedule_B:
  assumes "length key = 8"
  shows "expand_B (odd_words (KeyExpansion key) 0) = even_words (KeyExpansion key) (Suc 0)"
    "expand_B (odd_words (KeyExpansion key) (Suc 0)) = even_words (KeyExpansion key) 2"
    "expand_B (odd_words (KeyExpansion key) 2) = even_words (KeyExpansion key) 3"
    "expand_B (odd_words (KeyExpansion key) 3) = even_words (KeyExpansion key) 4"
    "expand_B (odd_words (KeyExpansion key) 4) = even_words (KeyExpansion key) 5"
    "expand_B (odd_words (KeyExpansion key) 5) = even_words (KeyExpansion key) 6"
  using expand_odd [OF assms, of 0] expand_odd [OF assms, of 1] expand_odd [OF assms, of 2] expand_odd [OF assms, of 3]
    expand_odd [OF assms, of 4] expand_odd [OF assms, of 5]
  by (simp_all add: numeral_2_eq_2 [symmetric])

text \<open>
  C5: the pipeline encrypts: whatever its registers held before, the output 29 edges after a block and
  a key were presented is the AES-256 encryption (FIPS 197) of that block under that key. A new
  block and a new key can be presented at every edge.
\<close>

theorem aes_256_pipeline:
  "columns128 (aes_256_out (aes_256_run state key r (n + 29))) =
     Cipher (KeyExpansion (columns256 (key n))) (columns128 (state n))"
proof -
  define k where "k = columns256 (key n)"
  define w where "w = KeyExpansion k"
  have len: "length k = 8" "length w = 60"
    by (simp_all add: k_def w_def)
  note words = schedule_A [OF len(1), folded w_def] schedule_B [OF len(1), folded w_def]
  note keys = round_key_halves [OF len(2)]
  have k: "columns256 (key n) = even_words w 0"
    using KeyExpansion_key [OF len(1)] by (simp add: w_def k_def)
  have "n + 29 = Suc (Suc (Suc (Suc (Suc (Suc (Suc (Suc (Suc (Suc (Suc (Suc (Suc (Suc (Suc (Suc (Suc (Suc (Suc (Suc (Suc (Suc (Suc (Suc (Suc (Suc (Suc (Suc (Suc n))))))))))))))))))))))))))))"
    by simp
  then have "columns128 (aes_256_out (aes_256_run state key r (n + 29))) =
      AddRoundKey (ShiftRows (SubBytes (fold (\<lambda>i. Round (round_key w i)) [1, 2, 3, 4, 5, 6, 7, 8, 9, 10, 11, 12, 13]
        (AddRoundKey (columns128 (state n)) (round_key w 0))))) (round_key w 14)"
    by (simp only: final_stage round_stages expand_keys expand_stages input_stages columns_half k words) (simp add: keys numeral_2_eq_2 [symmetric])
  moreover have "[1..<14] = [1, 2, 3, 4, 5, 6, 7, 8, 9, 10, 11, 12, 13::nat]"
    by code_simp
  ultimately show ?thesis
    by (simp only: Cipher_def Let_def w_def k_def)
qed

end
