(* ===== verification/Axis_Fifo.thy ===== *)
theory Axis_Fifo
  imports Ep2_Prelude
begin

text \<open>
  The stream FIFO of the FPGA library (\<^verbatim>\<open>rtl_lib/axis/rtl/axis_fifo.v\<close>): parameters, registers, write and read
  logic. An edge of the clock is a step on the registers.
\<close>

unbundle bit_operations_syntax

section \<open>Beats and parameters\<close>

text \<open>
  A beat of an AXI stream. The vectors are numbers, \<^verbatim>\<open>tuser\<close> an integer because its bits are complemented.
\<close>

record beat =
  tdata :: nat
  tkeep :: nat
  tlast :: bool
  tid :: nat
  tdest :: nat
  tuser :: int

record fifo_params =
  ADDR_WIDTH :: nat
  KEEP_ENABLE :: bool
  KEEP_WIDTH :: nat
  LAST_ENABLE :: bool
  ID_ENABLE :: bool
  DEST_ENABLE :: bool
  USER_ENABLE :: bool
  USER_WIDTH :: nat
  PIPELINE_OUTPUT :: nat
  FRAME_FIFO :: bool
  USER_BAD_FRAME_VALUE :: int
  USER_BAD_FRAME_MASK :: int
  DROP_OVERSIZE_FRAME :: bool
  DROP_BAD_FRAME :: bool
  DROP_WHEN_FULL :: bool

text \<open>The combinations of parameters that the module accepts; others end the simulation with an error.\<close>

definition check_configuration :: "fifo_params \<Rightarrow> bool" where
  "check_configuration c \<longleftrightarrow>
     \<not> PIPELINE_OUTPUT c < 1 \<and>
     \<not> (FRAME_FIFO c \<and> \<not> LAST_ENABLE c) \<and>
     \<not> (DROP_OVERSIZE_FRAME c \<and> \<not> FRAME_FIFO c) \<and>
     \<not> (DROP_BAD_FRAME c \<and> \<not> (FRAME_FIFO c \<and> DROP_OVERSIZE_FRAME c)) \<and>
     \<not> (DROP_WHEN_FULL c \<and> \<not> (FRAME_FIFO c \<and> DROP_OVERSIZE_FRAME c)) \<and>
     \<not> (DROP_BAD_FRAME c \<and> USER_BAD_FRAME_MASK c AND (2 ^ USER_WIDTH c - 1) = 0)"

section \<open>Registers and wires\<close>

record fifo_regs =
  wr_ptr_reg :: nat
  wr_ptr_cur_reg :: nat
  rd_ptr_reg :: nat
  mem :: "nat \<Rightarrow> beat"
  m_axis_pipe_reg :: "beat list"
  m_axis_tvalid_pipe_reg :: "bool list"
  drop_frame_reg :: bool
  send_frame_reg :: bool
  overflow_reg :: bool
  bad_frame_reg :: bool
  good_frame_reg :: bool

text \<open>Pointers have one bit more than addresses.\<close>

definition ptr_inc :: "fifo_params \<Rightarrow> nat \<Rightarrow> nat" where
  "ptr_inc c p = (p + 1) mod 2 ^ (ADDR_WIDTH c + 1)"

definition address :: "fifo_params \<Rightarrow> nat \<Rightarrow> nat" where
  "address c p = p mod 2 ^ ADDR_WIDTH c"

definition fifo_full :: "fifo_params \<Rightarrow> fifo_regs \<Rightarrow> bool" where
  "fifo_full c r \<longleftrightarrow> wr_ptr_reg r = rd_ptr_reg r XOR 2 ^ ADDR_WIDTH c"

definition full_cur :: "fifo_params \<Rightarrow> fifo_regs \<Rightarrow> bool" where
  "full_cur c r \<longleftrightarrow> wr_ptr_cur_reg r = rd_ptr_reg r XOR 2 ^ ADDR_WIDTH c"

definition fifo_empty :: "fifo_regs \<Rightarrow> bool" where
  "fifo_empty r \<longleftrightarrow> wr_ptr_reg r = rd_ptr_reg r"

definition full_wr :: "fifo_params \<Rightarrow> fifo_regs \<Rightarrow> bool" where
  "full_wr c r \<longleftrightarrow> wr_ptr_reg r = wr_ptr_cur_reg r XOR 2 ^ ADDR_WIDTH c"

definition s_axis_tready :: "fifo_params \<Rightarrow> fifo_regs \<Rightarrow> bool" where
  "s_axis_tready c r \<longleftrightarrow>
     (if FRAME_FIFO c then \<not> full_cur c r \<or> (full_wr c r \<and> DROP_OVERSIZE_FRAME c) \<or> DROP_WHEN_FULL c else \<not> fifo_full c r)"

definition m_axis_tvalid :: "fifo_params \<Rightarrow> fifo_regs \<Rightarrow> bool" where
  "m_axis_tvalid c r = m_axis_tvalid_pipe_reg r ! (PIPELINE_OUTPUT c - 1)"

text \<open>Fields that are not stored have a fixed value at the output.\<close>

definition visible :: "fifo_params \<Rightarrow> beat \<Rightarrow> beat" where
  "visible c b =
     \<lparr>tdata = tdata b,
      tkeep = (if KEEP_ENABLE c then tkeep b else 2 ^ KEEP_WIDTH c - 1),
      tlast = (if LAST_ENABLE c then tlast b else True),
      tid = (if ID_ENABLE c then tid b else 0),
      tdest = (if DEST_ENABLE c then tdest b else 0),
      tuser = (if USER_ENABLE c then tuser b else 0)\<rparr>"

definition m_axis :: "fifo_params \<Rightarrow> fifo_regs \<Rightarrow> beat" where
  "m_axis c r = visible c (m_axis_pipe_reg r ! (PIPELINE_OUTPUT c - 1))"

section \<open>Write logic\<close>

definition bad_frame :: "fifo_params \<Rightarrow> beat \<Rightarrow> bool" where
  "bad_frame c b \<longleftrightarrow> tlast b \<and> DROP_BAD_FRAME c \<and> USER_BAD_FRAME_MASK c AND NOT (tuser b XOR USER_BAD_FRAME_VALUE c) \<noteq> 0"

text \<open>The registers written are those of \<open>r'\<close>; all values are read from \<open>r\<close>.\<close>

definition write_logic :: "fifo_params \<Rightarrow> bool \<Rightarrow> bool \<Rightarrow> beat \<Rightarrow> fifo_regs \<Rightarrow> fifo_regs \<Rightarrow> fifo_regs" where
  "write_logic c rst s_axis_tvalid s_axis r r' =
     (let r' = r'\<lparr>overflow_reg := False, bad_frame_reg := False, good_frame_reg := False\<rparr>;
          r' = (if s_axis_tready c r \<and> s_axis_tvalid then
                  (if \<not> FRAME_FIFO c then
                     r'\<lparr>mem := (mem r)(address c (wr_ptr_reg r) := s_axis), wr_ptr_reg := ptr_inc c (wr_ptr_reg r)\<rparr>
                   else if (full_cur c r \<and> DROP_WHEN_FULL c) \<or> (full_wr c r \<and> DROP_OVERSIZE_FRAME c) \<or> drop_frame_reg r then
                     (if tlast s_axis then
                        r'\<lparr>wr_ptr_cur_reg := wr_ptr_reg r, drop_frame_reg := False, overflow_reg := True\<rparr>
                      else r'\<lparr>drop_frame_reg := True\<rparr>)
                   else
                     (let r' = r'\<lparr>mem := (mem r)(address c (wr_ptr_cur_reg r) := s_axis),
                                  wr_ptr_cur_reg := ptr_inc c (wr_ptr_cur_reg r)\<rparr>
                      in if tlast s_axis \<or> (\<not> DROP_OVERSIZE_FRAME c \<and> (full_wr c r \<or> send_frame_reg r)) then
                           (let r' = r'\<lparr>send_frame_reg := \<not> tlast s_axis\<rparr>
                            in if bad_frame c s_axis then r'\<lparr>wr_ptr_cur_reg := wr_ptr_reg r, bad_frame_reg := True\<rparr>
                               else r'\<lparr>wr_ptr_reg := ptr_inc c (wr_ptr_cur_reg r), good_frame_reg := tlast s_axis\<rparr>)
                         else r'))
                else if s_axis_tvalid \<and> full_wr c r \<and> FRAME_FIFO c \<and> \<not> DROP_OVERSIZE_FRAME c then
                  r'\<lparr>send_frame_reg := True, wr_ptr_reg := wr_ptr_cur_reg r\<rparr>
                else r')
      in if rst then
           r'\<lparr>wr_ptr_reg := 0, wr_ptr_cur_reg := 0, drop_frame_reg := False, send_frame_reg := False,
              overflow_reg := False, bad_frame_reg := False, good_frame_reg := False\<rparr>
         else r')"

section \<open>Read logic\<close>

text \<open>Whether stage \<open>j\<close> of the output pipeline moves: the output is ready or a stage from \<open>j\<close> on is a bubble.\<close>

definition moves :: "bool \<Rightarrow> bool list \<Rightarrow> nat \<Rightarrow> bool" where
  "moves m_axis_tready valid j \<longleftrightarrow> m_axis_tready \<or> list_ex Not (drop j valid)"

text \<open>The loop over the stages, from the last one down; the assignments are to \<open>r'\<close>.\<close>

fun pipe_loop :: "bool \<Rightarrow> fifo_regs \<Rightarrow> nat \<Rightarrow> fifo_regs \<Rightarrow> fifo_regs" where
  "pipe_loop m_axis_tready r 0 r' = r'"
| "pipe_loop m_axis_tready r (Suc j) r' =
     pipe_loop m_axis_tready r j
       (if moves m_axis_tready (m_axis_tvalid_pipe_reg r) (Suc j) then
          r'\<lparr>m_axis_tvalid_pipe_reg := (m_axis_tvalid_pipe_reg r')[Suc j := m_axis_tvalid_pipe_reg r ! j, j := False],
             m_axis_pipe_reg := (m_axis_pipe_reg r')[Suc j := m_axis_pipe_reg r ! j]\<rparr>
        else r')"

definition read_logic :: "fifo_params \<Rightarrow> bool \<Rightarrow> bool \<Rightarrow> fifo_regs \<Rightarrow> fifo_regs \<Rightarrow> fifo_regs" where
  "read_logic c rst m_axis_tready r r' =
     (let r' = (if m_axis_tready then
                  r'\<lparr>m_axis_tvalid_pipe_reg := (m_axis_tvalid_pipe_reg r')[PIPELINE_OUTPUT c - 1 := False]\<rparr>
                else r');
          r' = pipe_loop m_axis_tready r (PIPELINE_OUTPUT c - 1) r';
          r' = (if moves m_axis_tready (m_axis_tvalid_pipe_reg r) 0 then
                  (let r' = r'\<lparr>m_axis_tvalid_pipe_reg := (m_axis_tvalid_pipe_reg r')[0 := False],
                               m_axis_pipe_reg := (m_axis_pipe_reg r')[0 := mem r (address c (rd_ptr_reg r))]\<rparr>
                   in if \<not> fifo_empty r then
                        r'\<lparr>m_axis_tvalid_pipe_reg := (m_axis_tvalid_pipe_reg r')[0 := True],
                           rd_ptr_reg := ptr_inc c (rd_ptr_reg r)\<rparr>
                      else r')
                else r')
      in if rst then r'\<lparr>rd_ptr_reg := 0, m_axis_tvalid_pipe_reg := replicate (PIPELINE_OUTPUT c) False\<rparr> else r')"

text \<open>An edge of the clock: both blocks read the registers as they were.\<close>

record fifo_in =
  rst :: bool
  s_axis_tvalid :: bool
  s_axis :: beat
  m_axis_tready :: bool

definition fifo_step :: "fifo_params \<Rightarrow> fifo_in \<Rightarrow> fifo_regs \<Rightarrow> fifo_regs" where
  "fifo_step c i r = read_logic c (rst i) (m_axis_tready i) r (write_logic c (rst i) (s_axis_tvalid i) (s_axis i) r r)"

end
