(* ===== verification/Axis_Fifo_Queue.thy ===== *)
theory Axis_Fifo_Queue
  imports Axis_Fifo
begin

text \<open>
  The output pipeline and the ring buffer of the FIFO as lists: what moves at an edge, the
  arithmetic of its pointers, the contents and the invariant.
\<close>

section \<open>The output pipeline\<close>

lemma moves_iff: "moves rdy v j \<longleftrightarrow> rdy \<or> False \<in> set (drop j v)"
proof -
  have "list_ex Not bs \<longleftrightarrow> False \<in> set bs" for bs
    by (induction bs) auto
  then show ?thesis by (simp add: moves_def)
qed

lemma moves_down: "moves rdy v (Suc j) \<Longrightarrow> moves rdy v j"
proof -
  have "set (drop (Suc j) v) \<subseteq> set (drop j v)"
    by (rule set_drop_subset_set_drop) simp
  then show "moves rdy v (Suc j) \<Longrightarrow> moves rdy v j"
    by (auto simp: moves_iff)
qed

lemma pipe_loop_keeps:
  "wr_ptr_reg (pipe_loop rdy r k r') = wr_ptr_reg r'" "wr_ptr_cur_reg (pipe_loop rdy r k r') = wr_ptr_cur_reg r'"
  "rd_ptr_reg (pipe_loop rdy r k r') = rd_ptr_reg r'" "mem (pipe_loop rdy r k r') = mem r'"
  "drop_frame_reg (pipe_loop rdy r k r') = drop_frame_reg r'" "send_frame_reg (pipe_loop rdy r k r') = send_frame_reg r'"
  "length (m_axis_tvalid_pipe_reg (pipe_loop rdy r k r')) = length (m_axis_tvalid_pipe_reg r')"
  "length (m_axis_pipe_reg (pipe_loop rdy r k r')) = length (m_axis_pipe_reg r')"
  by (induction k arbitrary: r') simp_all

text \<open>What the loop assigns to each stage.\<close>

lemma pipe_loop_valid:
  "k < length (m_axis_tvalid_pipe_reg r') \<Longrightarrow> i < length (m_axis_tvalid_pipe_reg r') \<Longrightarrow>
   m_axis_tvalid_pipe_reg (pipe_loop rdy r k r') ! i =
     (if 0 < i \<and> i \<le> k \<and> moves rdy (m_axis_tvalid_pipe_reg r) i then m_axis_tvalid_pipe_reg r ! (i - 1)
      else if i = 0 \<and> 0 < k \<and> moves rdy (m_axis_tvalid_pipe_reg r) 1 then False
      else m_axis_tvalid_pipe_reg r' ! i)"
proof (induction k arbitrary: r')
  case (Suc k)
  define q where "q = (if moves rdy (m_axis_tvalid_pipe_reg r) (Suc k) then
      r'\<lparr>m_axis_tvalid_pipe_reg := (m_axis_tvalid_pipe_reg r')[Suc k := m_axis_tvalid_pipe_reg r ! k, k := False],
         m_axis_pipe_reg := (m_axis_pipe_reg r')[Suc k := m_axis_pipe_reg r ! k]\<rparr>
    else r')"
  have q: "m_axis_tvalid_pipe_reg q ! i =
      (if moves rdy (m_axis_tvalid_pipe_reg r) (Suc k) \<and> i = Suc k then m_axis_tvalid_pipe_reg r ! k
       else if moves rdy (m_axis_tvalid_pipe_reg r) (Suc k) \<and> i = k then False else m_axis_tvalid_pipe_reg r' ! i)"
    "length (m_axis_tvalid_pipe_reg q) = length (m_axis_tvalid_pipe_reg r')"
    using Suc.prems by (simp_all add: q_def nth_list_update)
  have "m_axis_tvalid_pipe_reg (pipe_loop rdy r (Suc k) r') ! i = m_axis_tvalid_pipe_reg (pipe_loop rdy r k q) ! i"
    by (simp add: q_def)
  also note Suc.IH [of q, unfolded q(2), OF Suc_lessD [OF Suc.prems(1)] Suc.prems(2)]
  finally show ?case
    using moves_down [of rdy "m_axis_tvalid_pipe_reg r" k] unfolding q(1)
    by (cases "i = Suc k"; cases "i = k"; cases k; simp)
qed auto

lemma pipe_loop_data:
  "k < length (m_axis_pipe_reg r') \<Longrightarrow> i < length (m_axis_pipe_reg r') \<Longrightarrow>
   m_axis_pipe_reg (pipe_loop rdy r k r') ! i =
     (if 0 < i \<and> i \<le> k \<and> moves rdy (m_axis_tvalid_pipe_reg r) i then m_axis_pipe_reg r ! (i - 1) else m_axis_pipe_reg r' ! i)"
proof (induction k arbitrary: r')
  case (Suc k)
  define q where "q = (if moves rdy (m_axis_tvalid_pipe_reg r) (Suc k) then
      r'\<lparr>m_axis_tvalid_pipe_reg := (m_axis_tvalid_pipe_reg r')[Suc k := m_axis_tvalid_pipe_reg r ! k, k := False],
         m_axis_pipe_reg := (m_axis_pipe_reg r')[Suc k := m_axis_pipe_reg r ! k]\<rparr>
    else r')"
  have q: "m_axis_pipe_reg q ! i =
      (if moves rdy (m_axis_tvalid_pipe_reg r) (Suc k) \<and> i = Suc k then m_axis_pipe_reg r ! k else m_axis_pipe_reg r' ! i)"
    "length (m_axis_pipe_reg q) = length (m_axis_pipe_reg r')"
    using Suc.prems by (simp_all add: q_def nth_list_update)
  have "m_axis_pipe_reg (pipe_loop rdy r (Suc k) r') ! i = m_axis_pipe_reg (pipe_loop rdy r k q) ! i"
    by (simp add: q_def)
  also note Suc.IH [of q, unfolded q(2), OF Suc_lessD [OF Suc.prems(1)] Suc.prems(2)]
  finally show ?case
    unfolding q(1) by (cases "i = Suc k"; simp)
qed auto

definition staged :: "bool list \<Rightarrow> beat list \<Rightarrow> beat list" where
  "staged v d = map snd (filter fst (rev (zip v d)))"

lemma read_logic_pipe:
  assumes "m_axis_tvalid_pipe_reg r' = m_axis_tvalid_pipe_reg r" and "m_axis_pipe_reg r' = m_axis_pipe_reg r"
    and "length (m_axis_tvalid_pipe_reg r) = PIPELINE_OUTPUT c" and "length (m_axis_pipe_reg r) = PIPELINE_OUTPUT c"
    and "i < PIPELINE_OUTPUT c"
  shows "m_axis_tvalid_pipe_reg (read_logic c False rdy r r') ! i =
      (if moves rdy (m_axis_tvalid_pipe_reg r) i then (if i = 0 then \<not> fifo_empty r else m_axis_tvalid_pipe_reg r ! (i - 1))
       else m_axis_tvalid_pipe_reg r ! i)"
    and "m_axis_pipe_reg (read_logic c False rdy r r') ! i =
      (if moves rdy (m_axis_tvalid_pipe_reg r) i then
         (if i = 0 then mem r (address c (rd_ptr_reg r)) else m_axis_pipe_reg r ! (i - 1))
       else m_axis_pipe_reg r ! i)"
    and "length (m_axis_tvalid_pipe_reg (read_logic c False rdy r r')) = PIPELINE_OUTPUT c"
    and "length (m_axis_pipe_reg (read_logic c False rdy r r')) = PIPELINE_OUTPUT c"
proof -
  define q where "q = (if rdy then r'\<lparr>m_axis_tvalid_pipe_reg := (m_axis_tvalid_pipe_reg r')[PIPELINE_OUTPUT c - 1 := False]\<rparr> else r')"
  have q: "length (m_axis_tvalid_pipe_reg q) = PIPELINE_OUTPUT c" "length (m_axis_pipe_reg q) = PIPELINE_OUTPUT c"
    "m_axis_pipe_reg q = m_axis_pipe_reg r"
    "m_axis_tvalid_pipe_reg q ! i = (if rdy \<and> i = PIPELINE_OUTPUT c - 1 then False else m_axis_tvalid_pipe_reg r ! i)"
    using assms(5) by (auto simp: q_def assms(1-4))
  define p where "p = pipe_loop rdy r (PIPELINE_OUTPUT c - 1) q"
  have lp: "length (m_axis_tvalid_pipe_reg p) = PIPELINE_OUTPUT c" "length (m_axis_pipe_reg p) = PIPELINE_OUTPUT c"
    by (simp_all add: p_def pipe_loop_keeps q assms(4))
  have less: "PIPELINE_OUTPUT c - 1 < PIPELINE_OUTPUT c"
    using assms(5) by simp
  have le: "i \<le> PIPELINE_OUTPUT c - 1"
    using assms(5) by simp
  have always: "rdy \<Longrightarrow> moves rdy v j" for v j
    by (simp add: moves_def)
  have pv: "0 < i \<Longrightarrow> m_axis_tvalid_pipe_reg p ! i =
      (if moves rdy (m_axis_tvalid_pipe_reg r) i then m_axis_tvalid_pipe_reg r ! (i - 1) else m_axis_tvalid_pipe_reg r ! i)"
    using pipe_loop_valid [of "PIPELINE_OUTPUT c - 1" q i rdy r] less le assms(5) always [of "m_axis_tvalid_pipe_reg r" i]
    unfolding p_def q by auto
  have pv0: "i = 0 \<Longrightarrow> \<not> moves rdy (m_axis_tvalid_pipe_reg r) 0 \<Longrightarrow> m_axis_tvalid_pipe_reg p ! i = m_axis_tvalid_pipe_reg r ! i"
    using pipe_loop_valid [of "PIPELINE_OUTPUT c - 1" q i rdy r] less le assms(5) always moves_down [of rdy "m_axis_tvalid_pipe_reg r" 0]
    unfolding p_def q by auto
  have pd: "m_axis_pipe_reg p ! i =
      (if 0 < i \<and> moves rdy (m_axis_tvalid_pipe_reg r) i then m_axis_pipe_reg r ! (i - 1) else m_axis_pipe_reg r ! i)"
    using pipe_loop_data [of "PIPELINE_OUTPUT c - 1" q i rdy r] less le assms(5) unfolding p_def q assms(4) by auto
  have m0: "0 < i \<Longrightarrow> moves rdy (m_axis_tvalid_pipe_reg r) i \<Longrightarrow> moves rdy (m_axis_tvalid_pipe_reg r) 0"
    unfolding moves_iff using set_drop_subset [of i "m_axis_tvalid_pipe_reg r"] by auto
  have step: "read_logic c False rdy r r' =
      (if moves rdy (m_axis_tvalid_pipe_reg r) 0 then
         (let p = p\<lparr>m_axis_tvalid_pipe_reg := (m_axis_tvalid_pipe_reg p)[0 := False],
                    m_axis_pipe_reg := (m_axis_pipe_reg p)[0 := mem r (address c (rd_ptr_reg r))]\<rparr>
          in if \<not> fifo_empty r then
               p\<lparr>m_axis_tvalid_pipe_reg := (m_axis_tvalid_pipe_reg p)[0 := True], rd_ptr_reg := ptr_inc c (rd_ptr_reg r)\<rparr>
             else p)
       else p)"
    by (simp add: read_logic_def p_def q_def Let_def)
  show "m_axis_tvalid_pipe_reg (read_logic c False rdy r r') ! i =
      (if moves rdy (m_axis_tvalid_pipe_reg r) i then (if i = 0 then \<not> fifo_empty r else m_axis_tvalid_pipe_reg r ! (i - 1))
       else m_axis_tvalid_pipe_reg r ! i)"
    unfolding step Let_def using pv pv0 m0 lp assms(5) by (cases "i = 0") (simp_all add: nth_list_update)
  show "m_axis_pipe_reg (read_logic c False rdy r r') ! i =
      (if moves rdy (m_axis_tvalid_pipe_reg r) i then
         (if i = 0 then mem r (address c (rd_ptr_reg r)) else m_axis_pipe_reg r ! (i - 1))
       else m_axis_pipe_reg r ! i)"
    unfolding step Let_def using pd m0 lp assms(5) by (cases "i = 0") (simp_all add: nth_list_update)
  show "length (m_axis_tvalid_pipe_reg (read_logic c False rdy r r')) = PIPELINE_OUTPUT c"
    "length (m_axis_pipe_reg (read_logic c False rdy r r')) = PIPELINE_OUTPUT c"
    unfolding step Let_def using lp by simp_all
qed

text \<open>
  The pipeline as a list, from the last stage to the first: a stage moves into the highest bubble
  below the full stages, and a beat is fetched whenever something moves.
\<close>

lemma staged_simps:
  "staged [] [] = []" "length v = length d \<Longrightarrow> staged (b # v) (x # d) = staged v d @ (if b then [x] else [])"
  "length v = length d \<Longrightarrow> staged (v @ w) (d @ e) = staged w e @ staged v d"
  by (simp_all add: staged_def)

lemma shift_in:
  assumes "length a' = Suc (length as + length cs)"
    and "\<And>i. i < length a' \<Longrightarrow> a' ! i = (if i \<le> length as then (if i = 0 then b else (as @ e # cs) ! (i - 1)) else (as @ e # cs) ! i)"
  shows "a' = b # as @ cs"
proof (rule nth_equalityI)
  show "length a' = length (b # as @ cs)"
    using assms(1) by simp
  show "a' ! i = (b # as @ cs) ! i" if "i < length a'" for i
    using assms(2) [OF that] assms(1) that by (cases i) (auto simp: nth_append)
qed

lemma staged_move:
  assumes "length v = P" "length d = P" "length v' = P" "length d' = P" and "0 < P"
    and "\<And>i. i < P \<Longrightarrow> v' ! i = (if moves rdy v i then (if i = 0 then f else v ! (i - 1)) else v ! i)"
    and "\<And>i. i < P \<Longrightarrow> d' ! i = (if moves rdy v i then (if i = 0 then x else d ! (i - 1)) else d ! i)"
  shows "staged v' d' = (if rdy \<and> v ! (P - 1) then tl (staged v d) else staged v d) @ (if f \<and> moves rdy v 0 then [x] else [])"
    and "v ! (P - 1) \<Longrightarrow> staged v d = d ! (P - 1) # tl (staged v d)"
proof -
  show last: "v ! (P - 1) \<Longrightarrow> staged v d = d ! (P - 1) # tl (staged v d)"
    using assms(1,2,5) by (cases v rule: rev_cases; cases d rule: rev_cases) (auto simp: staged_def nth_append)
  consider "rdy" | "\<not> rdy" "False \<notin> set v" | "\<not> rdy" "False \<in> set v"
    by blast
  then show "staged v' d' = (if rdy \<and> v ! (P - 1) then tl (staged v d) else staged v d) @ (if f \<and> moves rdy v 0 then [x] else [])"
  proof cases
    case 1
    then have m: "moves rdy v i" for i by (simp add: moves_def)
    have "v' = f # butlast v" "d' = x # butlast d"
      using assms m by (auto simp: list_eq_iff_nth_eq nth_Cons nth_butlast split: nat.splits)
    moreover have "v = butlast v @ [v ! (P - 1)]" "d = butlast d @ [d ! (P - 1)]"
      using assms(1,2,5) by (metis append_butlast_last_id last_conv_nth length_greater_0_conv)+
    then have "staged v d = (if v ! (P - 1) then [d ! (P - 1)] else []) @ staged (butlast v) (butlast d)"
      using staged_simps(2,3) [of "butlast v" "butlast d"] assms(1,2) by (metis append_Nil length_butlast list.size(3) staged_simps(1,2))
    ultimately show ?thesis
      using 1 m assms(1,2) by (simp add: staged_simps)
  next
    case 2
    then have m: "\<not> moves rdy v i" for i
      using in_set_dropD [of False i v] by (auto simp: moves_iff)
    have "v' = v" "d' = d"
      using assms m by (auto simp: list_eq_iff_nth_eq)
    then show ?thesis using 2 m by simp
  next
    case 3
    obtain xs ts where v: "v = xs @ False # ts" "False \<notin> set ts"
      using split_list_last [OF 3(2)] by blast
    define ys y zs where "ys = take (length xs) d" and "y = d ! length xs" and "zs = drop (Suc (length xs)) d"
    have d: "d = ys @ y # zs" "length ys = length xs" "length zs = length ts"
      using assms(1,2) v by (simp_all add: ys_def y_def zs_def id_take_nth_drop)
    have m: "moves rdy v i \<longleftrightarrow> i \<le> length xs" for i
      using 3(1) v(2) by (auto simp: moves_iff v(1) drop_Cons' dest: in_set_dropD)
    have "v' = f # xs @ ts"
      using assms(1,3,6) m by (intro shift_in [of _ _ _ _ False]) (simp_all add: v(1))
    moreover have "d' = x # ys @ zs"
      using assms(2,4,7) m d by (intro shift_in [of _ _ _ _ y]) simp_all
    ultimately show ?thesis
      using 3 m v(1) d by (simp add: staged_simps)
  qed
qed

section \<open>Pointers\<close>

text \<open>The number of steps from one pointer to another.\<close>

definition count :: "fifo_params \<Rightarrow> nat \<Rightarrow> nat \<Rightarrow> nat" where
  "count c a b = (b + 2 ^ (ADDR_WIDTH c + 1) - a) mod 2 ^ (ADDR_WIDTH c + 1)"

definition advance :: "fifo_params \<Rightarrow> nat \<Rightarrow> nat \<Rightarrow> nat" where
  "advance c a n = (a + n) mod 2 ^ (ADDR_WIDTH c + 1)"

abbreviation size_of :: "fifo_params \<Rightarrow> nat" where
  "size_of c \<equiv> 2 ^ ADDR_WIDTH c"

lemma one_less_ptr: "Suc 0 < 2 * size_of c"
proof -
  have "(1 :: nat) \<le> size_of c"
    by simp
  then show ?thesis by linarith
qed

lemma advance_less [simp]: "advance c a n < 2 * size_of c"
  by (simp add: advance_def)

lemma advance_count:
  assumes "a < 2 * size_of c" and "b < 2 * size_of c"
  shows "advance c a (count c a b) = b" and "count c a b < 2 * size_of c"
proof -
  have "advance c a (count c a b) = (a + (b + 2 * size_of c - a)) mod (2 * size_of c)"
    by (simp add: advance_def count_def mod_add_right_eq)
  also have "a + (b + 2 * size_of c - a) = b + 2 * size_of c"
    using assms(1) by simp
  finally show "advance c a (count c a b) = b"
    using assms(2) by simp
  show "count c a b < 2 * size_of c"
    by (simp add: count_def)
qed

lemma count_advance:
  assumes "a < 2 * size_of c" and "n < 2 * size_of c"
  shows "count c a (advance c a n) = n"
proof (cases "a + n < 2 * size_of c")
  case True
  then show ?thesis using assms by (simp add: count_def advance_def)
next
  case False
  then have "(a + n) mod (2 * size_of c) = a + n - 2 * size_of c"
    using assms by (simp add: le_mod_geq not_less)
  then show ?thesis
    using False assms by (simp add: count_def advance_def)
qed

lemma address_advance [simp]:
  "address c (advance c a n) = address c (a + n)" "address c (advance c a n + m) = address c (a + n + m)"
proof -
  have "(x mod (2 * size_of c)) mod size_of c = x mod size_of c" for x
    by (simp add: mod_mod_cancel)
  then show "address c (advance c a n) = address c (a + n)" "address c (advance c a n + m) = address c (a + n + m)"
    unfolding address_def advance_def by (simp, metis mod_add_left_eq power_add power_one_right mult.commute)
qed

lemma advance_simps [simp]: "advance c (advance c a m) n = advance c a (m + n)" "ptr_inc c a = advance c a 1"
  "a < 2 * size_of c \<Longrightarrow> advance c a 0 = a"
  by (simp_all add: advance_def ptr_inc_def mod_add_left_eq add.assoc)

lemma xor_small: "a < size_of c \<Longrightarrow> a XOR size_of c = a + size_of c"
proof -
  assume "a < size_of c"
  then have "\<not> bit a (ADDR_WIDTH c)"
    by (simp add: bit_iff_odd)
  then have "a AND size_of c = 0"
    by (intro bit_eqI) (auto simp: bit_simps)
  then show ?thesis
    by (simp add: disjunctive_add_eq_xor)
qed

lemma xor_size: "a < 2 * size_of c \<Longrightarrow> a XOR size_of c = advance c a (size_of c)"
proof (cases "a < size_of c")
  case True
  then show ?thesis by (simp add: xor_small advance_def)
next
  case False
  assume a: "a < 2 * size_of c"
  define b where "b = a - size_of c"
  have b: "a = b XOR size_of c" "b < size_of c" "a = b + size_of c"
    using False a by (simp_all add: b_def xor_small)
  then have "a XOR size_of c = b"
    by (simp add: xor.assoc)
  moreover have "advance c a (size_of c) = b"
    using b(2,3) by (simp add: advance_def add.assoc mult_2 [symmetric])
  ultimately show ?thesis by simp
qed

lemma address_distinct:
  assumes "i < n" and "n < size_of c + i"
  shows "address c (a + i) \<noteq> address c (a + n)"
proof
  assume "address c (a + i) = address c (a + n)"
  then have "size_of c dvd (a + n) - (a + i)"
    using assms(1) mod_eq_dvd_iff_nat [of "a + i" "a + n" "size_of c"] by (simp add: address_def)
  then show False
    using assms by (auto dest: dvd_imp_le)
qed

section \<open>Contents\<close>

definition stored :: "fifo_params \<Rightarrow> (nat \<Rightarrow> beat) \<Rightarrow> nat \<Rightarrow> nat \<Rightarrow> beat list" where
  "stored c m a b = map (\<lambda>i. m (address c (a + i))) [0..<count c a b]"

lemma stored_advance:
  "a < 2 * size_of c \<Longrightarrow> n < 2 * size_of c \<Longrightarrow> stored c m a (advance c a n) = map (\<lambda>i. m (address c (a + i))) [0..<n]"
  by (simp add: stored_def count_advance)

lemma stored_write:
  assumes "k \<le> n" and "n < size_of c" and "a < 2 * size_of c"
  shows "stored c (m(address c (a + n) := x)) a (advance c a k) = stored c m a (advance c a k)"
  using assms address_distinct [of _ n c a] by (simp add: stored_advance)

lemma stored_split:
  assumes "a < 2 * size_of c" and "n + k < 2 * size_of c"
  shows "stored c m a (advance c a (n + k)) = stored c m a (advance c a n) @ stored c m (advance c a n) (advance c a (n + k))"
proof -
  have "[0..<n + k] = [0..<n] @ map (\<lambda>i. i + n) [0..<k]"
    using upt_add_eq_append [of 0 n k] map_add_upt [of n k] by (simp add: add.commute [of k n])
  moreover have "stored c m (advance c a n) (advance c a (n + k)) = map (\<lambda>i. m (address c (a + n + i))) [0..<k]"
    using stored_advance [of "advance c a n" c k m] assms(2) by simp
  ultimately show ?thesis
    using assms by (simp add: stored_advance ac_simps)
qed

lemma stored_one: "a < 2 * size_of c \<Longrightarrow> stored c m a (advance c a 1) = [m (address c a)]"
  by (subst stored_advance) (simp_all add: one_less_ptr)

lemma stored_empty: "a < 2 * size_of c \<Longrightarrow> stored c m a a = []"
  by (simp add: stored_def count_def)

definition contents :: "fifo_params \<Rightarrow> fifo_regs \<Rightarrow> beat list" where
  "contents c r = staged (m_axis_tvalid_pipe_reg r) (m_axis_pipe_reg r) @ stored c (mem r) (rd_ptr_reg r) (wr_ptr_reg r)"

text \<open>The beats of a frame that is not complete yet.\<close>

definition fifo_pending :: "fifo_params \<Rightarrow> fifo_regs \<Rightarrow> beat list" where
  "fifo_pending c r = stored c (mem r) (wr_ptr_reg r) (wr_ptr_cur_reg r)"

text \<open>
  The invariant, with the number of beats in the memory and, in frame mode, of those pending.
\<close>

definition fifo_ok :: "fifo_params \<Rightarrow> fifo_regs \<Rightarrow> bool" where
  "fifo_ok c r \<longleftrightarrow> 0 < PIPELINE_OUTPUT c \<and>
     length (m_axis_tvalid_pipe_reg r) = PIPELINE_OUTPUT c \<and> length (m_axis_pipe_reg r) = PIPELINE_OUTPUT c \<and>
     rd_ptr_reg r < 2 * size_of c \<and>
     (\<exists>n k. wr_ptr_reg r = advance c (rd_ptr_reg r) n \<and> n \<le> size_of c \<and>
        (FRAME_FIFO c \<longrightarrow> wr_ptr_cur_reg r = advance c (rd_ptr_reg r) (n + k) \<and> n + k \<le> size_of c))"

section \<open>Edges\<close>

lemma write_keeps [simp]:
  "rd_ptr_reg (write_logic c rs v b r r') = rd_ptr_reg r'" "m_axis_pipe_reg (write_logic c rs v b r r') = m_axis_pipe_reg r'"
  "m_axis_tvalid_pipe_reg (write_logic c rs v b r r') = m_axis_tvalid_pipe_reg r'"
  by (simp_all add: write_logic_def Let_def)

lemma read_keeps [simp]:
  "wr_ptr_reg (read_logic c rs rdy r r') = wr_ptr_reg r'" "wr_ptr_cur_reg (read_logic c rs rdy r r') = wr_ptr_cur_reg r'"
  "mem (read_logic c rs rdy r r') = mem r'" "drop_frame_reg (read_logic c rs rdy r r') = drop_frame_reg r'"
  "send_frame_reg (read_logic c rs rdy r r') = send_frame_reg r'"
  by (simp_all add: read_logic_def Let_def pipe_loop_keeps)

lemma read_ptr:
  "rd_ptr_reg r' = rd_ptr_reg r \<Longrightarrow> rd_ptr_reg (read_logic c False rdy r r') =
     (if moves rdy (m_axis_tvalid_pipe_reg r) 0 \<and> \<not> fifo_empty r then ptr_inc c (rd_ptr_reg r) else rd_ptr_reg r)"
  by (simp add: read_logic_def Let_def pipe_loop_keeps)

text \<open>
  The read side: what leaves the pipeline is the head of the contents, whatever the write side adds
  behind them. The memory still holds the beat at the read pointer.
\<close>

lemma read_contents:
  assumes "length (m_axis_tvalid_pipe_reg r) = PIPELINE_OUTPUT c" and "length (m_axis_pipe_reg r) = PIPELINE_OUTPUT c"
    and "0 < PIPELINE_OUTPUT c" and "rd_ptr_reg r < 2 * size_of c"
    and "m_axis_tvalid_pipe_reg r' = m_axis_tvalid_pipe_reg r" and "m_axis_pipe_reg r' = m_axis_pipe_reg r"
    and "rd_ptr_reg r' = rd_ptr_reg r" and "wr_ptr_reg r' = advance c (rd_ptr_reg r) n" and "n < 2 * size_of c"
    and "\<not> fifo_empty r \<Longrightarrow> 0 < n \<and> mem r' (address c (rd_ptr_reg r)) = mem r (address c (rd_ptr_reg r))"
  shows "contents c r' = (if rdy \<and> m_axis_tvalid c r then [m_axis_pipe_reg r ! (PIPELINE_OUTPUT c - 1)] else []) @
      contents c (read_logic c False rdy r r')"
proof -
  let ?q = "read_logic c False rdy r r'"
  let ?fetch = "\<not> fifo_empty r \<and> moves rdy (m_axis_tvalid_pipe_reg r) 0"
  let ?v = "m_axis_tvalid_pipe_reg r" let ?d = "m_axis_pipe_reg r"
  note pipe = read_logic_pipe [OF assms(5,6,1,2)]
  note st = staged_move [OF assms(1,2) pipe(3,4) assms(3) pipe(1,2), OF assms(3) assms(3)]
  have "stored c (mem r') (rd_ptr_reg r) (wr_ptr_reg r') =
      (if ?fetch then [mem r (address c (rd_ptr_reg r))] else []) @ stored c (mem r') (rd_ptr_reg ?q) (wr_ptr_reg r')"
  proof (cases ?fetch)
    case True
    then obtain m where n: "n = 1 + m"
      using assms(10) by (metis Suc_eq_plus1_left gr0_implies_Suc)
    have "rd_ptr_reg ?q = advance c (rd_ptr_reg r) 1"
      using True read_ptr [OF assms(7)] by simp
    then show ?thesis
      using stored_split [of "rd_ptr_reg r" c 1 m "mem r'"] stored_one [of "rd_ptr_reg r" c "mem r'"] assms(4,8,9,10) True n by simp
  qed (use read_ptr [OF assms(7)] in auto)
  moreover have "staged (m_axis_tvalid_pipe_reg ?q) (m_axis_pipe_reg ?q) =
      (if rdy \<and> m_axis_tvalid c r then tl (staged ?v ?d) else staged ?v ?d) @ (if ?fetch then [mem r (address c (rd_ptr_reg r))] else [])"
    using st(1) by (simp add: m_axis_tvalid_def)
  moreover have "rdy \<and> m_axis_tvalid c r \<Longrightarrow> staged ?v ?d = m_axis_pipe_reg r ! (PIPELINE_OUTPUT c - 1) # tl (staged ?v ?d)"
    using st(2) by (simp add: m_axis_tvalid_def)
  ultimately show ?thesis
    by (simp add: contents_def assms(5-7))
qed

end
