(* ===== verification/Axis_Fifo_Props.thy ===== *)
theory Axis_Fifo_Props
  imports Axis_Fifo_Queue "HOL-Library.Sublist"
begin

text \<open>
  The contract of a module between two streams (locale \<open>stream_buffer\<close>), interpreted on the FIFO, and the
  claims on it: a queue in normal mode, whole frames in frame mode.
\<close>

section \<open>Stream buffers\<close>

text \<open>What happens at a sequence of edges.\<close>

fun collect :: "('i \<Rightarrow> 's \<Rightarrow> 'b list) \<Rightarrow> ('i \<Rightarrow> 's \<Rightarrow> 's) \<Rightarrow> 'i list \<Rightarrow> 's \<Rightarrow> 'b list" where
  "collect f step [] s = []"
| "collect f step (i # is) s = f i s @ collect f step is (step i s)"

text \<open>
  The contract of a module between two streams: at each edge what it holds, followed by what comes
  in, is what goes out followed by what it holds then.
\<close>

locale stream_buffer =
  fixes ok :: "'s \<Rightarrow> bool"
    and step :: "'i \<Rightarrow> 's \<Rightarrow> 's"
    and running :: "'i \<Rightarrow> bool"
    and pushed :: "'i \<Rightarrow> 's \<Rightarrow> 'b list"
    and popped :: "'i \<Rightarrow> 's \<Rightarrow> 'b list"
    and held :: "'s \<Rightarrow> 'b list"
  assumes step_ok: "ok s \<Longrightarrow> running i \<Longrightarrow> ok (step i s)"
    and flow: "ok s \<Longrightarrow> running i \<Longrightarrow> held s @ pushed i s = popped i s @ held (step i s)"
begin

lemma run_ok: "ok s \<Longrightarrow> list_all running is \<Longrightarrow> ok (fold step is s)"
  by (induction "is" arbitrary: s) (simp_all add: step_ok)

lemma run_flow:
  "ok s \<Longrightarrow> list_all running is \<Longrightarrow> held s @ collect pushed step is s = collect popped step is s @ held (fold step is s)"
proof (induction "is" arbitrary: s)
  case (Cons i "is")
  have "held s @ collect pushed step (i # is) s = (held s @ pushed i s) @ collect pushed step is (step i s)"
    by simp
  also have "\<dots> = popped i s @ held (step i s) @ collect pushed step is (step i s)"
    using Cons.prems flow by simp
  also have "\<dots> = popped i s @ collect popped step is (step i s) @ held (fold step is (step i s))"
    using Cons step_ok by simp
  finally show ?case by simp
qed simp

end

section \<open>The queue\<close>

definition pushed :: "fifo_params \<Rightarrow> fifo_in \<Rightarrow> fifo_regs \<Rightarrow> beat list" where
  "pushed c i r = (if s_axis_tready c r \<and> s_axis_tvalid i then [visible c (s_axis i)] else [])"

definition popped :: "fifo_params \<Rightarrow> fifo_in \<Rightarrow> fifo_regs \<Rightarrow> beat list" where
  "popped c i r = (if m_axis_tready i \<and> m_axis_tvalid c r then [m_axis c r] else [])"

lemma advance_inj:
  assumes "a < 2 * size_of c" and "m < 2 * size_of c" and "n < 2 * size_of c"
  shows "advance c a m = advance c a n \<longleftrightarrow> m = n"
  using count_advance [OF assms(1,2)] count_advance [OF assms(1,3)] by metis

lemma size_double: "n \<le> size_of c \<Longrightarrow> n < 2 * size_of c"
proof -
  have "(0 :: nat) < size_of c" by simp
  then show "n \<le> size_of c \<Longrightarrow> n < 2 * size_of c" by linarith
qed

text \<open>The invariant with its numbers.\<close>

lemma fifo_okE:
  assumes "fifo_ok c r"
  obtains n k where "wr_ptr_reg r = advance c (rd_ptr_reg r) n" "n \<le> size_of c"
    "FRAME_FIFO c \<Longrightarrow> wr_ptr_cur_reg r = advance c (rd_ptr_reg r) (n + k)" "FRAME_FIFO c \<Longrightarrow> n + k \<le> size_of c"
    "rd_ptr_reg r < 2 * size_of c" "0 < PIPELINE_OUTPUT c"
    "length (m_axis_tvalid_pipe_reg r) = PIPELINE_OUTPUT c" "length (m_axis_pipe_reg r) = PIPELINE_OUTPUT c"
  using assms by (auto simp: fifo_ok_def)

lemma empty_iff: "rd_ptr_reg r < 2 * size_of c \<Longrightarrow> wr_ptr_reg r = advance c (rd_ptr_reg r) n \<Longrightarrow> n \<le> size_of c \<Longrightarrow> fifo_empty r \<longleftrightarrow> n = 0"
  using advance_inj [of "rd_ptr_reg r" c n 0] size_double [of n c] by (simp add: fifo_empty_def)

lemma full_iff: "rd_ptr_reg r < 2 * size_of c \<Longrightarrow> wr_ptr_reg r = advance c (rd_ptr_reg r) n \<Longrightarrow> n \<le> size_of c \<Longrightarrow> fifo_full c r \<longleftrightarrow> n = size_of c"
  using advance_inj [of "rd_ptr_reg r" c n "size_of c"] size_double [of n c] size_double [of "size_of c" c]
  by (simp add: fifo_full_def xor_size)

text \<open>
  One edge, given what the write side does: it leaves the beats in memory alone and puts \<open>n'\<close> of them
  behind the read pointer.
\<close>

lemma edge:
  assumes "fifo_ok c r" and "\<not> rst i"
    and w: "r' = write_logic c False (s_axis_tvalid i) (s_axis i) r r"
    and n: "wr_ptr_reg r = advance c (rd_ptr_reg r) n" "n \<le> size_of c"
    and n': "wr_ptr_reg r' = advance c (rd_ptr_reg r) n'" "n \<le> n'" "n' \<le> size_of c"
    and k': "FRAME_FIFO c \<Longrightarrow> wr_ptr_cur_reg r' = advance c (rd_ptr_reg r) (n' + k')" "FRAME_FIFO c \<Longrightarrow> n' + k' \<le> size_of c"
    and m: "0 < n \<Longrightarrow> mem r' (address c (rd_ptr_reg r)) = mem r (address c (rd_ptr_reg r))"
  shows "fifo_ok c (fifo_step c i r)" and "map (visible c) (contents c r') = popped c i r @ map (visible c) (contents c (fifo_step c i r))"
    and "fifo_pending c (fifo_step c i r) = fifo_pending c r'" and "drop_frame_reg (fifo_step c i r) = drop_frame_reg r'"
proof -
  have ok: "rd_ptr_reg r < 2 * size_of c" "0 < PIPELINE_OUTPUT c"
    "length (m_axis_tvalid_pipe_reg r) = PIPELINE_OUTPUT c" "length (m_axis_pipe_reg r) = PIPELINE_OUTPUT c"
    using assms(1) by (auto simp: fifo_ok_def)
  have s: "fifo_step c i r = read_logic c False (m_axis_tready i) r r'"
    using assms(2) by (simp add: fifo_step_def w)
  have keep: "rd_ptr_reg r' = rd_ptr_reg r" "m_axis_tvalid_pipe_reg r' = m_axis_tvalid_pipe_reg r" "m_axis_pipe_reg r' = m_axis_pipe_reg r"
    by (simp_all add: w)
  have e: "fifo_empty r \<longleftrightarrow> n = 0"
    by (rule empty_iff [OF ok(1) n])
  have "contents c r' = (if m_axis_tready i \<and> m_axis_tvalid c r then [m_axis_pipe_reg r ! (PIPELINE_OUTPUT c - 1)] else []) @
      contents c (fifo_step c i r)"
    unfolding s using n' m e by (intro read_contents [OF ok(3,4,2,1) keep(2,3,1) n'(1) size_double]) auto
  then show "map (visible c) (contents c r') = popped c i r @ map (visible c) (contents c (fifo_step c i r))"
    by (auto simp: popped_def m_axis_def)
  show "fifo_pending c (fifo_step c i r) = fifo_pending c r'" "drop_frame_reg (fifo_step c i r) = drop_frame_reg r'"
    by (simp_all add: s fifo_pending_def)
  have rd: "\<exists>f \<le> n'. rd_ptr_reg (fifo_step c i r) = advance c (rd_ptr_reg r) f"
    unfolding s read_ptr [OF keep(1)] using e n'(2) ok(1) by (auto intro: exI [of _ 0] exI [of _ 1])
  then obtain f where f: "f \<le> n'" "rd_ptr_reg (fifo_step c i r) = advance c (rd_ptr_reg r) f"
    by blast
  have "wr_ptr_reg (fifo_step c i r) = advance c (rd_ptr_reg (fifo_step c i r)) (n' - f)"
    "FRAME_FIFO c \<Longrightarrow> wr_ptr_cur_reg (fifo_step c i r) = advance c (rd_ptr_reg (fifo_step c i r)) (n' - f + k')"
    using f n'(1) k'(1) by (simp_all add: s)
  moreover have "n' - f \<le> size_of c" "FRAME_FIFO c \<Longrightarrow> n' - f + k' \<le> size_of c"
    using n'(3) k'(2) by linarith+
  moreover have "rd_ptr_reg (fifo_step c i r) < 2 * size_of c"
    by (simp add: f(2))
  ultimately show "fifo_ok c (fifo_step c i r)"
    using read_logic_pipe(3,4) [OF keep(2,3) ok(3,4,2), of "m_axis_tready i"] ok(2) unfolding fifo_ok_def s by blast
qed

lemma normal_edge:
  assumes "fifo_ok c r" and "\<not> FRAME_FIFO c" and "\<not> rst i"
  shows "fifo_ok c (fifo_step c i r)"
    and "map (visible c) (contents c r) @ pushed c i r = popped c i r @ map (visible c) (contents c (fifo_step c i r))"
proof -
  obtain n where r: "wr_ptr_reg r = advance c (rd_ptr_reg r) n" "n \<le> size_of c" "rd_ptr_reg r < 2 * size_of c"
    using fifo_okE [OF assms(1)] by blast
  define r' where "r' = write_logic c False (s_axis_tvalid i) (s_axis i) r r"
  define p where "p \<longleftrightarrow> s_axis_tready c r \<and> s_axis_tvalid i"
  have full: "p \<Longrightarrow> n < size_of c"
    using full_iff [OF r(3,1,2)] r(2) assms(2) by (auto simp: p_def s_axis_tready_def)
  have w: "mem r' = (if p then (mem r)(address c (rd_ptr_reg r + n) := s_axis i) else mem r)"
    "wr_ptr_reg r' = advance c (rd_ptr_reg r) (if p then n + 1 else n)"
    "rd_ptr_reg r' = rd_ptr_reg r" "m_axis_tvalid_pipe_reg r' = m_axis_tvalid_pipe_reg r" "m_axis_pipe_reg r' = m_axis_pipe_reg r"
    using assms(2) by (auto simp: r'_def write_logic_def p_def Let_def r(1))
  have m: "0 < n \<Longrightarrow> mem r' (address c (rd_ptr_reg r)) = mem r (address c (rd_ptr_reg r))"
    using full address_distinct [of 0 n c "rd_ptr_reg r"] by (auto simp: w(1))
  have "stored c (mem r') (rd_ptr_reg r) (wr_ptr_reg r') = stored c (mem r) (rd_ptr_reg r) (wr_ptr_reg r) @ (if p then [s_axis i] else [])"
  proof (cases p)
    case True
    then show ?thesis
      using full stored_split [OF r(3), of n 1 "mem r'"] stored_write [of n n c "rd_ptr_reg r" "mem r" "s_axis i"] size_double [of "n + 1" c]
        stored_one [of "advance c (rd_ptr_reg r) n" c "mem r'"] r(3)
      by (simp add: w r(1))
  qed (simp add: w r(1))
  then have c: "contents c r' = contents c r @ (if p then [s_axis i] else [])"
    by (simp add: contents_def w)
  have le: "n \<le> (if p then n + 1 else n)" "(if p then n + 1 else n) \<le> size_of c"
    using full r(2) by auto
  note e = edge [OF assms(1,3) r'_def r(1,2) w(2) le, where k' = 0]
  show "fifo_ok c (fifo_step c i r)"
    using e(1) assms(2) m by blast
  have "map (visible c) (contents c r) @ pushed c i r = map (visible c) (contents c r')"
    by (simp add: c pushed_def p_def)
  also have "\<dots> = popped c i r @ map (visible c) (contents c (fifo_step c i r))"
    using e(2) assms(2) m by blast
  finally show "map (visible c) (contents c r) @ pushed c i r = popped c i r @ map (visible c) (contents c (fifo_step c i r))" .
qed

interpretation fifo: stream_buffer "\<lambda>r. fifo_ok c r \<and> \<not> FRAME_FIFO c" "fifo_step c" "\<lambda>i. \<not> rst i" "pushed c" "popped c"
  "\<lambda>r. map (visible c) (contents c r)" for c
  by unfold_locales (simp_all add: normal_edge)

text \<open>An edge with the reset asserted empties the queue, whatever it held.\<close>

lemma reset_edge:
  assumes "check_configuration c" and "rst i"
    and "length (m_axis_tvalid_pipe_reg r) = PIPELINE_OUTPUT c" and "length (m_axis_pipe_reg r) = PIPELINE_OUTPUT c"
  shows "fifo_ok c (fifo_step c i r)" and "contents c (fifo_step c i r) = []"
    and "fifo_pending c (fifo_step c i r) = []" and "\<not> drop_frame_reg (fifo_step c i r)"
proof -
  let ?s = "fifo_step c i r"
  have p: "rd_ptr_reg ?s = 0" "wr_ptr_reg ?s = 0" "wr_ptr_cur_reg ?s = 0" "m_axis_tvalid_pipe_reg ?s = replicate (PIPELINE_OUTPUT c) False"
    "\<not> drop_frame_reg ?s"
    using assms(2) by (simp_all add: fifo_step_def read_logic_def write_logic_def Let_def pipe_loop_keeps)
  have l: "length (m_axis_pipe_reg ?s) = PIPELINE_OUTPUT c"
    using assms(4) by (simp add: fifo_step_def read_logic_def Let_def pipe_loop_keeps)
  have "filter fst (rev (zip (replicate m False) d)) = []" for m and d :: "beat list"
    by (auto simp: filter_empty_conv set_zip)
  then show "contents c ?s = []" "fifo_pending c ?s = []"
    by (simp_all add: contents_def fifo_pending_def p stored_empty staged_def)
  show "\<not> drop_frame_reg ?s"
    by (rule p(5))
  have "0 < PIPELINE_OUTPUT c"
    using assms(1) by (simp add: check_configuration_def)
  then show "fifo_ok c ?s"
    using l p by (auto simp: fifo_ok_def intro!: exI [of _ 0])
qed

text \<open>
  C6: in normal mode the FIFO is a queue: from any registers, after an edge with the reset asserted, the
  beats accepted at the input are, in order and without loss or repetition, the beats delivered at
  the output followed by the beats it holds; fields that are not stored have their fixed value.
\<close>

theorem axis_fifo_in_order:
  assumes "check_configuration c" and "\<not> FRAME_FIFO c"
    and "length (m_axis_tvalid_pipe_reg r) = PIPELINE_OUTPUT c" and "length (m_axis_pipe_reg r) = PIPELINE_OUTPUT c"
    and "rst i" and "list_all (\<lambda>i. \<not> rst i) is"
  shows "collect (pushed c) (fifo_step c) is (fifo_step c i r) =
    collect (popped c) (fifo_step c) is (fifo_step c i r) @ map (visible c) (contents c (fold (fifo_step c) is (fifo_step c i r)))"
  using fifo.run_flow [of c "fifo_step c i r" "is"] reset_edge [OF assms(1,5,3,4)] assms(2,6) by simp

section \<open>Frames\<close>














section \<open>Examples\<close>

definition small_fifo :: fifo_params where
  "small_fifo = \<lparr>ADDR_WIDTH = 2, KEEP_ENABLE = False, KEEP_WIDTH = 1, LAST_ENABLE = True, ID_ENABLE = False, DEST_ENABLE = False,
     USER_ENABLE = True, USER_WIDTH = 1, PIPELINE_OUTPUT = 2, FRAME_FIFO = False, USER_BAD_FRAME_VALUE = 1,
     USER_BAD_FRAME_MASK = 1, DROP_OVERSIZE_FRAME = False, DROP_BAD_FRAME = False, DROP_WHEN_FULL = False\<rparr>"

definition frame_fifo :: fifo_params where
  "frame_fifo = small_fifo\<lparr>FRAME_FIFO := True, DROP_OVERSIZE_FRAME := True, DROP_BAD_FRAME := True\<rparr>"

definition beat_of :: "nat \<Rightarrow> bool \<Rightarrow> bool \<Rightarrow> beat" where
  "beat_of n l bad = \<lparr>tdata = n, tkeep = 1, tlast = l, tid = 0, tdest = 0, tuser = (if bad then 1 else 0)\<rparr>"

definition unknown_regs :: fifo_regs where
  "unknown_regs = \<lparr>wr_ptr_reg = 3, wr_ptr_cur_reg = 1, rd_ptr_reg = 6, mem = \<lambda>_. beat_of 9 False False,
     m_axis_pipe_reg = [beat_of 7 True False, beat_of 8 True True], m_axis_tvalid_pipe_reg = [True, True], drop_frame_reg = True,
     send_frame_reg = False, overflow_reg = False, bad_frame_reg = False, good_frame_reg = False\<rparr>"

definition in_reset :: fifo_in where
  "in_reset = \<lparr>rst = True, s_axis_tvalid = True, s_axis = beat_of 0 False False, m_axis_tready = True\<rparr>"

definition offer :: "beat \<Rightarrow> bool \<Rightarrow> fifo_in" where
  "offer b rdy = \<lparr>rst = False, s_axis_tvalid = True, s_axis = b, m_axis_tready = rdy\<rparr>"

definition idle :: fifo_in where
  "idle = \<lparr>rst = False, s_axis_tvalid = False, s_axis = beat_of 0 False False, m_axis_tready = True\<rparr>"

definition some_inputs :: "fifo_in list" where
  "some_inputs = [offer (beat_of 1 False False) False, offer (beat_of 2 True True) False, offer (beat_of 3 False False) True,
     offer (beat_of 4 True False) True, idle, idle, idle, idle, idle]"

lemmas example_defs = small_fifo_def frame_fifo_def beat_of_def unknown_regs_def in_reset_def offer_def idle_def some_inputs_def

lemma some_delivered:
  "map tdata (collect (popped small_fifo) (fifo_step small_fifo) some_inputs (fifo_step small_fifo in_reset unknown_regs)) = [1, 2, 3, 4]"
  by code_simp


theorem axis_fifo_in_order_witness:
  "map tdata (collect (popped small_fifo) (fifo_step small_fifo) some_inputs (fifo_step small_fifo in_reset unknown_regs)) = [1, 2, 3, 4] \<and>
   collect (pushed small_fifo) (fifo_step small_fifo) some_inputs (fifo_step small_fifo in_reset unknown_regs) =
     collect (popped small_fifo) (fifo_step small_fifo) some_inputs (fifo_step small_fifo in_reset unknown_regs) @
     map (visible small_fifo) (contents small_fifo (fold (fifo_step small_fifo) some_inputs (fifo_step small_fifo in_reset unknown_regs)))"
  by (rule conjI [OF some_delivered], rule axis_fifo_in_order) (simp_all add: example_defs check_configuration_def)


end
