(* ===== verification/Spec2Isabelle.thy ===== *)
theory Spec2Isabelle
  imports Ep2_Driver Ep2_Findings Ep2_Canonicalize Alkali_Runtime Rte_Crc Handler_Analysis Alkali_Pipeline Rte_Ip Aes_Pipeline Axis_Fifo_Props
begin

text \<open>
  Verification of Alkali, a compiler from the event language ep2 to programs for SmartNICs, and of
  parts of the runtime libraries it comes with. File names below are relative to \<^verbatim>\<open>src/\<close>.

  \<^bold>\<open>The front end\<close> (\<^verbatim>\<open>ep2c\<close>) reads a file, parses it and either dumps the tree or generates a module
  of the \<^verbatim>\<open>ep2\<close> dialect of MLIR.

    \<^item> \<open>Ep2_Lexer\<close> models \<^verbatim>\<open>include/ep2/lang/Lexer.h\<close>: the record \<open>lexer\<close> is the object with its line buffer,
      position, last character and token queue; every member function is a definition. \<open>Ep2_Reader\<close>,
      \<open>Ep2_Lexer_Props\<close> and \<open>Ep2_Tokens\<close> prove that the lexer refines a tokenizer on strings, that
      printing and lexing is a round trip, that peeking changes nothing and that the end is reached.
    \<^item> \<open>Ep2_AST\<close> has the nodes of \<^verbatim>\<open>AST.h\<close> as datatypes. \<open>Ep2_Parser\<close> models \<^verbatim>\<open>Parser.h\<close>; a null node is
      \<open>None\<close>, an assertion or a null dereference a \<open>Crash\<close>. Loops and recursion carry fuel;
      \<open>Ep2_Parser_Total\<close> proves that \<open>2 * length + 8\<close> is enough for every file of that length and that
      more fuel changes nothing, because every round takes a token. \<open>Ep2_Findings\<close> evaluates inputs
      on which the parser does not do what its comments say.
    \<^item> \<open>Ep2_Dump\<close> models \<^verbatim>\<open>ep2c/AST.cpp\<close> with its indentation counter and output, and says which nodes it
      visits and when it returns.
    \<^item> \<open>Ep2_IR\<close> has types, attributes and operations (\<^verbatim>\<open>EP2Ops.td\<close>), \<open>Ep2_MLIRGen\<close> the code generator
      (\<^verbatim>\<open>ep2c/MLIRGen.cpp\<close>) with its scopes and the table of updated variables. \<open>Ep2_SSA\<close> has a rule per
      function that says the invariant of the generator is kept; \<open>Ep2_Codegen\<close> concludes that every
      module returned is in single-assignment form with well-formed regions, and lists the programs
      the generator rejects or crashes on.
    \<^item> \<open>Ep2_Driver\<close> puts them together as \<^verbatim>\<open>ep2c/ep2c.cpp\<close> does, from the bytes of a file to the exit code.

  \<^bold>\<open>The middle end\<close> maps handlers to compute units.

    \<^item> \<open>Handler_Deps\<close> models \<^verbatim>\<open>lib/ep2/HandlerDependencyAnalysis.cpp\<close>: the maps of handlers and
      controllers, the graph of generated events, its components and their order. \<open>Handler_Graph\<close> and
      \<open>Handler_Analysis\<close> prove the graph algorithms correct and say, by a predicate on the module alone
      (\<open>analysable\<close>), on which modules the analysis returns, and that the order of a component is not topological in general.
    \<^item> \<open>Alkali_Mapping\<close> models the performance models and the greedy mapping (\<^verbatim>\<open>passes/Mapping.h\<close>,
      \<^verbatim>\<open>PerformanceModel.cpp\<close>), \<open>Alkali_Search\<close> the search for a pipeline (\<^verbatim>\<open>PipeliningPass.cpp\<close>; how a
      handler is cut is a parameter; the search is shown to return where every cut leads to pipelines
      that can be mapped), \<open>Alkali_Pipeline\<close> the order of the stages, for up to 29 levels of cuts, and the
      names of the units (\<^verbatim>\<open>PipelineCanonicalizePass.cpp\<close>, \<^verbatim>\<open>MappingUtils.cpp\<close>). A function without the
      attribute that gives its kind is a null dereference in all of them.
    \<^item> \<open>Ep2_Dialect\<close> models the operations of \<^verbatim>\<open>lib/ep2/Dialect/Dialect.cpp\<close> that fold, verify and rewrite, one
      definition per pattern, and the type conversion of \<^verbatim>\<open>CanonicalizePass.cpp\<close>. \<open>Ep2_Rewriting\<close> makes the
      patterns steps on the body of a function (\<open>canon_step\<close>; the order in which MLIR's driver applies
      them is left open) and states the invariant \<open>rw_ok\<close>; \<open>Ep2_Rewriting_Props\<close> proves that every step
      keeps it and decreases a lexicographic measure, \<open>Ep2_Canonicalize\<close> concludes that canonicalization
      ends, never asserts, and leaves every operand with its declared width and one import of a global in
      the top block, and follows a handler
      from its source through the code generator to its canonical form.

  \<^bold>\<open>The runtimes.\<close>

    \<^item> \<open>Alkali_Runtime\<close>: buffers, tables, event queues and start-up of \<^verbatim>\<open>runtime-llvm\<close>; the queue library
      is a parameter with the law of a first-in first-out queue.
    \<^item> \<open>Rte_Common\<close> and \<open>Rte_Crc\<close>: alignment, bit searches and the CRC-32C hash of
      \<^verbatim>\<open>netronome_runtime/include/rte\<close>, on machine words, against mathematical definitions; the \<^verbatim>\<open>crc32\<close>
      instructions are a parameter.
    \<^item> \<open>Net_Csum\<close>, \<open>Net_Csum_Sums\<close>, \<open>Net_Csum_Props\<close>: the checksum library of the network processor
      (\<^verbatim>\<open>microc/lib/net/_c/csum.c\<close>) against RFC 1071, with what it computes when a packet is split
      between its memories at an odd byte; \<open>Rte_Ip\<close>: byte order and checksums of the host and
      their agreement with it.
    \<^item> \<open>Aes_Rtl\<close>: the AES-256 core of the FPGA library (\<^verbatim>\<open>fpga_runtime/rtl_lib/AES\<close>), a record of registers
      and a step for each module. \<open>Aes_Field\<close> proves its tables to be those of FIPS 197 from the laws of
      the field with 256 elements, \<open>Aes_Spec\<close> its rounds and key expansion, \<open>Aes_Pipeline\<close> that the
      pipeline encrypts the block of 29 edges ago.
    \<^item> \<open>Axis_Fifo\<close>: the stream FIFO (\<^verbatim>\<open>rtl_lib/axis/rtl/axis_fifo.v\<close>) with its write logic, its output pipeline
      and both modes. \<open>Axis_Fifo_Queue\<close> relates pointers and memory to lists, \<open>Axis_Fifo_Props\<close> has the
      contract of stream modules (locale \<open>stream_buffer\<close>) and shows a queue in normal mode and whole
      frames in frame mode.

  \<open>Ep2_Prelude\<close> holds what they share: outcomes of fallible code and the rule calculus \<open>safe\<close>, signed
  characters, sorted association lists for \<^verbatim>\<open>std::map\<close>.

  \<^bold>\<open>Bounds.\<close> The only fuel is that of the parser. Integers have the width of the source where it
  matters: the code generator and the mapping write out the conversions to 32 and 64 bits, the
  runtimes are on words.

  \<^bold>\<open>Not modelled.\<close> MLIR itself (printing, the pass manager, the greedy rewrite driver) and the Z3
  solver are libraries the sources call. The lowering passes to LLVM and EmitC and the emitters for
  FPGA and Netronome rewrite MLIR operations of other dialects one by one or print text, and
  their correctness would need a semantics of those targets. The cut of a handler
  (\<^verbatim>\<open>PipelineHandlerPass.cpp\<close>) is a parameter of the search. The remaining analyses and passes under
  \<^verbatim>\<open>lib/ep2\<close> rewrite modules through MLIR's conversion framework. Of the Netronome runtime the register
  descriptions (\<^verbatim>\<open>include/nfp6000\<close>), the assembler sources (\<^verbatim>\<open>.uc\<close>) and the wrappers around single
  hardware commands are left out; so are the other modules of the FPGA library, the build files and the example
  programs with their generated output.
\<close>

end
